(* ===== verification/Ensync_Prelude.thy ===== *)
theory Ensync_Prelude
  imports Main "HOL-Library.Word" "HOL-Library.AList" "HOL-Library.Monad_Syntax"
    "HOL-Library.Char_ord" "HOL-Library.List_Lexorder"
begin

text \<open>
  Prelude of the Ensync development: the names the components share for the types of the
  Rust program, the result type, the model of the standard containers, and the generic
  lemmas and fact collections the component proofs rest on.

  Conventions used throughout.
  \<^item> A Rust byte string, \<open>OsString\<close> or \<open>String\<close> is a \<^typ>\<open>string\<close>: a HOL
    character is one octet, so \<open>length\<close> counts bytes and the lexicographic order of
    lists is Rust's order on byte strings.
  \<^item> \<open>Result<T, E>\<close> is the sum \<open>'e + 'a\<close>, with \<open>Inl\<close> for \<open>Err\<close> and
    \<open>Inr\<close> for \<open>Ok\<close>.
  \<^item> A panic (\<open>unwrap\<close>, \<open>expect\<close>, a failed \<open>assert!\<close>, an index out of
    range) is \<open>None\<close> in the option monad around the whole computation; a function that
    cannot panic in the source has no option around its result.
  \<^item> \<open>BTreeMap\<close> and \<open>HashMap\<close> are association lists read with \<^const>\<open>map_of\<close>,
    updated with \<^const>\<open>AList.update\<close> and \<^const>\<open>AList.delete\<close>; a \<open>BinaryHeap\<close> of
    reversed keys is a sorted list whose head is the next key.
\<close>

section \<open>Type names\<close>

type_synonym byte = char
type_synonym bytes = "byte list"
type_synonym os_string = string
type_synonym file_mode = "32 word"
type_synonym file_size = "64 word"
type_synonym file_time = int
type_synonym hash_id = bytes
type_synonym 'v file_table = "(os_string \<times> 'v) list"

section \<open>Collections of facts\<close>

text \<open>
  \<open>result_simps\<close> decides the sum-valued control flow, \<open>table_simps\<close> the association
  lists, \<open>fd_simps\<close> the comparisons on file data, \<open>mode_simps\<close> the comparisons on
  sync mode settings.
\<close>

named_theorems result_simps
named_theorems table_simps
named_theorems fd_simps
named_theorems mode_simps

section \<open>Definitions\<close>

subsection \<open>Result\<close>

definition is_ok :: "'e + 'a \<Rightarrow> bool" where
  "is_ok r = (case r of Inl _ \<Rightarrow> False | Inr _ \<Rightarrow> True)"

definition result_bind :: "'e + 'a \<Rightarrow> ('a \<Rightarrow> 'e + 'b) \<Rightarrow> 'e + 'b" where
  "result_bind r f = (case r of Inl e \<Rightarrow> Inl e | Inr a \<Rightarrow> f a)"

text \<open>A fallible \<open>map\<close>: the loop that pushes each converted element and returns on the
  first error.\<close>

fun result_map :: "('a \<Rightarrow> 'e + 'b) \<Rightarrow> 'a list \<Rightarrow> 'e + 'b list" where
  "result_map f [] = Inr []"
| "result_map f (x # xs) = result_bind (f x) (\<lambda>y. result_bind (result_map f xs) (\<lambda>ys. Inr (y # ys)))"

subsection \<open>Tables and queues\<close>

definition table_has :: "'v file_table \<Rightarrow> os_string \<Rightarrow> bool" where
  "table_has t k = (map_of t k \<noteq> None)"

definition table_keys :: "'v file_table \<Rightarrow> os_string list" where
  "table_keys t = remdups (map fst t)"

text \<open>The \<open>BinaryHeap<Reversed<OsString>>\<close>: pushing keeps the list sorted, popping takes
  the least name.\<close>

definition heap_push :: "os_string \<Rightarrow> os_string list \<Rightarrow> os_string list" where
  "heap_push x q = insort x q"

fun heap_pop :: "os_string list \<Rightarrow> (os_string \<times> os_string list) option" where
  "heap_pop [] = None"
| "heap_pop (x # q) = Some (x, q)"

section \<open>Lemmas\<close>

lemma is_ok_simps [simp, result_simps]:
  "is_ok (Inl e) = False" "is_ok (Inr a) = True"
  by (simp_all add: is_ok_def)

lemma result_bind_simps [simp, result_simps]:
  "result_bind (Inl e) f = Inl e" "result_bind (Inr a) f = f a"
  by (simp_all add: result_bind_def)

lemma result_bind_Inr_iff [result_simps]:
  "result_bind r f = Inr b \<longleftrightarrow> (\<exists>a. r = Inr a \<and> f a = Inr b)"
  by (cases r) auto

lemma result_map_Inr_length: "result_map f xs = Inr ys \<Longrightarrow> length ys = length xs"
  by (induction xs arbitrary: ys) (auto simp: result_bind_Inr_iff)

lemma result_map_Inr_set:
  "result_map f xs = Inr ys \<Longrightarrow> y \<in> set ys \<Longrightarrow> \<exists>x \<in> set xs. f x = Inr y"
  by (induction xs arbitrary: ys) (auto simp: result_bind_Inr_iff)

lemma table_has_simps [simp, table_simps]:
  "table_has [] k = False"
  "table_has (AList.update k' v t) k = (k = k' \<or> table_has t k)"
  "table_has (AList.delete k' t) k = (k \<noteq> k' \<and> table_has t k)"
  by (auto simp: table_has_def update_conv' delete_conv')

lemma map_of_table [simp, table_simps]:
  "map_of (AList.update k v t) = (map_of t)(k \<mapsto> v)"
  "map_of (AList.delete k t) = (map_of t)(k := None)"
  by (auto simp: update_conv' delete_conv')

lemma table_has_Some: "table_has t k \<longleftrightarrow> (\<exists>v. map_of t k = Some v)"
  by (simp add: table_has_def)

lemma set_table_keys [simp]: "set (table_keys t) = dom (map_of t)"
  by (simp add: table_keys_def dom_map_of_conv_image_fst)

lemma distinct_table_keys [simp]: "distinct (table_keys t)"
  by (simp add: table_keys_def)

lemma set_heap_push [simp]: "set (heap_push x q) = insert x (set q)"
  by (simp add: heap_push_def set_insort_key)

lemma length_heap_push [simp]: "length (heap_push x q) = Suc (length q)"
  by (simp add: heap_push_def)

lemma sorted_heap_push [simp]: "sorted (heap_push x q) = sorted q"
  by (simp add: heap_push_def sorted_insort)

lemma distinct_heap_push [simp]: "distinct (heap_push x q) = (x \<notin> set q \<and> distinct q)"
  by (simp add: heap_push_def distinct_insort)

end
