(* ===== verification/Defs.thy ===== *)
theory Defs
  imports Ensync_Prelude
begin

text \<open>
  The shared data model of \<open>src/defs.rs\<close>: the shallow description \<open>FileData\<close> of a
  file and the three comparisons the reconciler is built on (\<open>matches\<close>,
  \<open>matches_data\<close>, \<open>matches_content\<close>), the newer-than test, the mode override used
  when client modes are not trusted, and the hexadecimal display of a hash. The lemmas show that
  the comparisons are equivalences, each implied by the previous one, and how they relate to
  equality.
\<close>

section \<open>Definitions\<close>

datatype file_data =
    Directory file_mode
  | Regular file_mode file_size file_time hash_id
  | Symlink os_string
  | Special

definition UNKNOWN_HASH :: hash_id where
  "UNKNOWN_HASH = replicate 32 (CHR 0x00)"

definition PRIVATE_DIR_NAME :: string where
  "PRIVATE_DIR_NAME = ''internal.ensync''"

definition INVASIVE_TMP_PREFIX :: string where
  "INVASIVE_TMP_PREFIX = ''ensync_tmp_''"

text \<open>\<open>{:02x}\<close> of one byte, and \<open>DisplayHash\<close>, which formats the 32 bytes in order.\<close>

definition hex_digit :: "nat \<Rightarrow> char" where
  "hex_digit n = ''0123456789abcdef'' ! (n mod 16)"

definition hex_byte :: "byte \<Rightarrow> string" where
  "hex_byte b = [hex_digit (of_char b div 16), hex_digit (of_char b mod 16)]"

definition display_hash :: "hash_id \<Rightarrow> string" where
  "display_hash h = concat (map hex_byte h)"

text \<open>\<open>transrich_unix_mode\<close> assigns through \<open>&mut self\<close>; the model returns the new
  value.\<close>

fun transrich_unix_mode :: "file_data \<Rightarrow> file_data \<Rightarrow> file_data" where
  "transrich_unix_mode (Directory dst) (Directory src) = Directory src"
| "transrich_unix_mode (Directory dst) (Regular src _ _ _) = Directory src"
| "transrich_unix_mode (Regular dst sz t h) (Directory src) = Regular src sz t h"
| "transrich_unix_mode (Regular dst sz t h) (Regular src _ _ _) = Regular src sz t h"
| "transrich_unix_mode self _ = self"

fun fd_is_dir :: "file_data \<Rightarrow> bool" where
  "fd_is_dir (Directory _) = True"
| "fd_is_dir _ = False"

fun newer_than :: "file_data \<Rightarrow> file_data \<Rightarrow> bool" where
  "newer_than (Regular _ _ tself _) (Regular _ _ tother _) = (tself > tother)"
| "newer_than _ _ = False"

fun matches :: "file_data \<Rightarrow> file_data \<Rightarrow> bool" where
  "matches (Directory m1) (Directory m2) = (m1 = m2)"
| "matches (Regular m1 _ t1 h1) (Regular m2 _ t2 h2) = (m1 = m2 \<and> t1 = t2 \<and> h1 = h2)"
| "matches (Symlink t1) (Symlink t2) = (t1 = t2)"
| "matches Special Special = True"
| "matches _ _ = False"

fun matches_data :: "file_data \<Rightarrow> file_data \<Rightarrow> bool" where
  "matches_data (Directory m1) (Directory m2) = (m1 = m2)"
| "matches_data (Regular m1 _ _ h1) (Regular m2 _ _ h2) = (m1 = m2 \<and> h1 = h2)"
| "matches_data (Symlink t1) (Symlink t2) = (t1 = t2)"
| "matches_data Special Special = True"
| "matches_data _ _ = False"

fun matches_content :: "file_data \<Rightarrow> file_data \<Rightarrow> bool" where
  "matches_content (Directory _) (Directory _) = True"
| "matches_content (Regular _ _ _ h1) (Regular _ _ _ h2) = (h1 = h2)"
| "matches_content (Symlink t1) (Symlink t2) = (t1 = t2)"
| "matches_content Special Special = True"
| "matches_content _ _ = False"

fun is_dir :: "file_data option \<Rightarrow> bool" where
  "is_dir (Some (Directory _)) = True"
| "is_dir _ = False"

section \<open>Lemmas\<close>

lemma is_dir_iff: "is_dir v \<longleftrightarrow> (\<exists>m. v = Some (Directory m))"
  by (cases v rule: is_dir.cases) auto

lemma is_dir_Some [simp]: "is_dir (Some fd) = fd_is_dir fd"
  by (cases fd) auto

lemma fd_is_dir_iff: "fd_is_dir fd \<longleftrightarrow> (\<exists>m. fd = Directory m)"
  by (cases fd) auto

lemma matches_refl [simp, fd_simps]: "matches a a"
  by (cases a) auto

lemma matches_data_refl [simp, fd_simps]: "matches_data a a"
  by (cases a) auto

lemma matches_content_refl [simp, fd_simps]: "matches_content a a"
  by (cases a) auto

lemma matches_sym: "matches a b = matches b a"
  by (cases a; cases b) auto

lemma matches_data_sym: "matches_data a b = matches_data b a"
  by (cases a; cases b) auto

lemma matches_content_sym: "matches_content a b = matches_content b a"
  by (cases a; cases b) auto

lemma matches_trans: "matches a b \<Longrightarrow> matches b c \<Longrightarrow> matches a c"
  by (cases a; cases b; cases c) auto

lemma matches_content_trans: "matches_content a b \<Longrightarrow> matches_content b c \<Longrightarrow> matches_content a c"
  by (cases a; cases b; cases c) auto

lemma matches_imp_data [fd_simps]: "matches a b \<Longrightarrow> matches_data a b"
  by (cases a; cases b) auto

lemma matches_data_imp_content [fd_simps]: "matches_data a b \<Longrightarrow> matches_content a b"
  by (cases a; cases b) auto

lemma matches_content_fd_is_dir: "matches_content a b \<Longrightarrow> fd_is_dir a = fd_is_dir b"
  by (cases a; cases b) auto

lemma newer_than_asym: "newer_than a b \<Longrightarrow> \<not> newer_than b a"
  by (cases a; cases b) auto

lemma transrich_content [simp]: "matches_content (transrich_unix_mode a b) a"
  by (cases a; cases b) auto

lemma transrich_is_dir [simp]: "fd_is_dir (transrich_unix_mode a b) = fd_is_dir a"
  by (cases a; cases b) auto

lemma length_display_hash: "length (display_hash h) = 2 * length h"
  by (induction h) (auto simp: display_hash_def hex_byte_def)

end
