(* ===== verification/Rules_Defs.thy ===== *)
theory Rules_Defs
  imports Ensync_Prelude
begin

text \<open>
  Sync modes, \<open>src/rules/defs.rs\<close>: the three-valued setting, its two tests, the half and
  full modes, their textual form and the parser with its aliases. The lemmas show that parsing
  inverts printing, that every accepted text is an alias or a printed mode, and give the
  ordering facts the reconciler's guards use.
\<close>

section \<open>Definitions\<close>

datatype sync_mode_setting = Off | On | Force

text \<open>The derived \<open>Ord\<close> follows the declaration order.\<close>

fun setting_rank :: "sync_mode_setting \<Rightarrow> nat" where
  "setting_rank Off = 0"
| "setting_rank On = 1"
| "setting_rank Force = 2"

instantiation sync_mode_setting :: linorder
begin

definition less_eq_sync_mode_setting :: "sync_mode_setting \<Rightarrow> sync_mode_setting \<Rightarrow> bool" where
  "less_eq_sync_mode_setting a b = (setting_rank a \<le> setting_rank b)"

definition less_sync_mode_setting :: "sync_mode_setting \<Rightarrow> sync_mode_setting \<Rightarrow> bool" where
  "less_sync_mode_setting a b = (setting_rank a < setting_rank b)"

instance
proof
  fix a b :: sync_mode_setting
  show "a \<le> b \<Longrightarrow> b \<le> a \<Longrightarrow> a = b"
    by (cases a; cases b) (simp_all add: less_eq_sync_mode_setting_def)
qed (auto simp: less_eq_sync_mode_setting_def less_sync_mode_setting_def)

end

definition setting_default :: sync_mode_setting where
  "setting_default = Off"

definition on :: "sync_mode_setting \<Rightarrow> bool" where
  "on s = (s \<ge> On)"

definition force :: "sync_mode_setting \<Rightarrow> bool" where
  "force s = (s \<ge> Force)"

fun ch :: "sync_mode_setting \<Rightarrow> char \<Rightarrow> char \<Rightarrow> char" where
  "ch Off when_on when_force = CHR ''-''"
| "ch On when_on when_force = when_on"
| "ch Force when_on when_force = when_force"

record half_sync_mode =
  create :: sync_mode_setting
  update :: sync_mode_setting
  delete :: sync_mode_setting

definition half_default :: half_sync_mode where
  "half_default = \<lparr>create = setting_default, update = setting_default, delete = setting_default\<rparr>"

definition half_to_string :: "half_sync_mode \<Rightarrow> string" where
  "half_to_string m =
     [ch (create m) CHR ''c'' CHR ''C'', ch (update m) CHR ''u'' CHR ''U'',
      ch (delete m) CHR ''d'' CHR ''D'']"

record sync_mode =
  inbound :: half_sync_mode
  outbound :: half_sync_mode

definition sync_mode_default :: sync_mode where
  "sync_mode_default = \<lparr>inbound = half_default, outbound = half_default\<rparr>"

definition sync_mode_to_string :: "sync_mode \<Rightarrow> string" where
  "sync_mode_to_string m = half_to_string (inbound m) @ ''/'' @ half_to_string (outbound m)"

datatype sync_mode_parse_error = BadLength | NoSlash | IllegalChar

fun parse_error_message :: "sync_mode_parse_error \<Rightarrow> string" where
  "parse_error_message BadLength = ''Sync mode must be 7 characters, like \"cud/cud\"''"
| "parse_error_message NoSlash =
     ''Sync mode must have a '' @ [CHR 0x27] @ ''/'' @ [CHR 0x27] @
     '' at position 3, like in \"cud/cud\"''"
| "parse_error_message IllegalChar =
     ''Illegal character in sync mode; must be in format like '' @
     ''\"cud/cud\", \"---/---\", or \"CUD/CUD\"''"

definition half_all :: "sync_mode_setting \<Rightarrow> half_sync_mode" where
  "half_all s = \<lparr>create = s, update = s, delete = s\<rparr>"

definition conv :: "char \<Rightarrow> char \<Rightarrow> char \<Rightarrow> sync_mode_parse_error + sync_mode_setting" where
  "conv on_ch force_ch actual =
     (if actual = CHR ''-'' then Inr Off
      else if on_ch = actual then Inr On
      else if force_ch = actual then Inr Force
      else Inl IllegalChar)"

text \<open>
  \<open>s.chars()\<close> are the Unicode scalars of the string. The parser only looks at their number
  and compares them with ASCII characters, so the model takes the list of scalars, with one
  \<^typ>\<open>char\<close> for an ASCII scalar and \<open>None\<close> for any other.
\<close>

definition mode_chars :: "string \<Rightarrow> char option list" where
  "mode_chars s =
     map (\<lambda>c. if of_char c < (128::nat) then Some c else None)
       (filter (\<lambda>c. \<not> (128 \<le> (of_char c :: nat) \<and> of_char c < (192::nat))) s)"

definition conv_opt :: "char \<Rightarrow> char \<Rightarrow> char option \<Rightarrow> sync_mode_parse_error + sync_mode_setting" where
  "conv_opt on_ch force_ch actual =
     (case actual of None \<Rightarrow> Inl IllegalChar | Some c \<Rightarrow> conv on_ch force_ch c)"

definition parse_half ::
  "char option \<Rightarrow> char option \<Rightarrow> char option \<Rightarrow> sync_mode_parse_error + half_sync_mode" where
  "parse_half c u d =
     result_bind (conv_opt CHR ''c'' CHR ''C'' c) (\<lambda>c'.
     result_bind (conv_opt CHR ''u'' CHR ''U'' u) (\<lambda>u'.
     result_bind (conv_opt CHR ''d'' CHR ''D'' d) (\<lambda>d'.
       Inr \<lparr>create = c', update = u', delete = d'\<rparr>)))"

definition sync_mode_from_str :: "string \<Rightarrow> sync_mode_parse_error + sync_mode" where
  "sync_mode_from_str s =
     (if s = ''mirror'' \<or> s = ''reset-server'' then
        Inr \<lparr>inbound = half_all Off, outbound = half_all Force\<rparr>
      else if s = ''reset-client'' then
        Inr \<lparr>inbound = half_all Force, outbound = half_all Off\<rparr>
      else if s = ''conservative-sync'' \<or> s = ''sync'' then
        Inr \<lparr>inbound = half_all On, outbound = half_all On\<rparr>
      else if s = ''aggressive-sync'' then
        Inr \<lparr>inbound = half_all Force, outbound = half_all Force\<rparr>
      else
        let chars = mode_chars s in
        if length chars \<noteq> 7 then Inl BadLength
        else if chars ! 3 \<noteq> Some CHR ''/'' then Inl NoSlash
        else
          result_bind (parse_half (chars ! 0) (chars ! 1) (chars ! 2)) (\<lambda>i.
          result_bind (parse_half (chars ! 4) (chars ! 5) (chars ! 6)) (\<lambda>o'.
            Inr \<lparr>inbound = i, outbound = o'\<rparr>)))"

section \<open>Lemmas\<close>

lemma on_simps [simp, mode_simps]: "on Off = False" "on On = True" "on Force = True"
  by (simp_all add: on_def less_eq_sync_mode_setting_def)

lemma force_simps [simp, mode_simps]: "force Off = False" "force On = False" "force Force = True"
  by (simp_all add: force_def less_eq_sync_mode_setting_def)

lemma force_imp_on [mode_simps]: "force s \<Longrightarrow> on s"
  by (cases s) auto

lemma force_iff: "force s \<longleftrightarrow> s = Force"
  by (cases s) auto

lemma on_iff: "on s \<longleftrightarrow> s \<noteq> Off"
  by (cases s) auto

lemma half_all_simps [simp]:
  "create (half_all s) = s" "update (half_all s) = s" "delete (half_all s) = s"
  by (simp_all add: half_all_def)

lemma conv_ch:
  "a \<noteq> CHR ''-'' \<Longrightarrow> b \<noteq> CHR ''-'' \<Longrightarrow> a \<noteq> b \<Longrightarrow> conv a b (ch s a b) = Inr s"
  by (cases s) (auto simp: conv_def)

lemma conv_Inr: "conv a b c = Inr s \<Longrightarrow> c = ch s a b"
  by (auto simp: conv_def split: if_splits)

lemma conv_opt_Inr: "conv_opt a b x = Inr s \<Longrightarrow> x = Some (ch s a b)"
  by (auto simp: conv_opt_def split: option.splits dest: conv_Inr)

lemma parse_half_Inr:
  assumes "parse_half c u d = Inr m"
  shows "[c, u, d] = map Some (half_to_string m)"
  using assms
  by (auto simp: parse_half_def half_to_string_def result_bind_Inr_iff dest!: conv_opt_Inr)

lemma parse_half_print:
  "parse_half (Some (ch (create m) CHR ''c'' CHR ''C'')) (Some (ch (update m) CHR ''u'' CHR ''U''))
     (Some (ch (delete m) CHR ''d'' CHR ''D'')) = Inr m"
  by (simp add: parse_half_def conv_opt_def conv_ch)

lemma ch_ascii:
  "of_char a < (128::nat) \<Longrightarrow> of_char b < (128::nat) \<Longrightarrow> of_char (ch s a b) < (128::nat)"
  by (cases s) simp_all

lemma mode_chars_ascii:
  "(\<And>c. c \<in> set s \<Longrightarrow> of_char c < (128::nat)) \<Longrightarrow> mode_chars s = map Some s"
  by (induction s) (fastforce simp: mode_chars_def)+

lemma sync_mode_to_string_ascii: "c \<in> set (sync_mode_to_string m) \<Longrightarrow> of_char c < (128::nat)"
  by (auto simp: sync_mode_to_string_def half_to_string_def ch_ascii)

lemma length_sync_mode_to_string [simp]: "length (sync_mode_to_string m) = 7"
  by (simp add: sync_mode_to_string_def half_to_string_def)

lemma list_7:
  assumes "length xs = 7"
  shows "xs = [xs ! 0, xs ! 1, xs ! 2, xs ! 3, xs ! 4, xs ! 5, xs ! 6]"
proof -
  have "length xs = Suc (Suc (Suc (Suc (Suc (Suc (Suc 0))))))" using assms by simp
  then obtain a b c d e f g where "xs = [a, b, c, d, e, f, g]"
    unfolding length_Suc_conv by auto
  then show ?thesis by simp
qed

lemma half_to_string_inject:
  assumes "half_to_string x = half_to_string y"
  shows "x = y"
proof -
  from assms have "ch (create x) CHR ''c'' CHR ''C'' = ch (create y) CHR ''c'' CHR ''C''"
    "ch (update x) CHR ''u'' CHR ''U'' = ch (update y) CHR ''u'' CHR ''U''"
    "ch (delete x) CHR ''d'' CHR ''D'' = ch (delete y) CHR ''d'' CHR ''D''"
    by (simp_all add: half_to_string_def)
  with parse_half_print [of x] have "parse_half (Some (ch (create y) CHR ''c'' CHR ''C''))
      (Some (ch (update y) CHR ''u'' CHR ''U'')) (Some (ch (delete y) CHR ''d'' CHR ''D'')) = Inr x"
    by (simp only:)
  with parse_half_print [of y] show ?thesis by simp
qed

lemma length_half_to_string [simp]: "length (half_to_string x) = 3"
  by (simp add: half_to_string_def)

lemma sync_mode_to_string_inject:
  assumes "sync_mode_to_string m = sync_mode_to_string m'"
  shows "m = m'"
proof -
  from assms have "half_to_string (inbound m) = half_to_string (inbound m')"
    and "half_to_string (outbound m) = half_to_string (outbound m')"
    by (simp_all add: sync_mode_to_string_def)
  then show ?thesis
    by (intro sync_mode.equality) (simp_all add: half_to_string_inject)
qed

lemma sync_mode_from_str_print: "sync_mode_from_str (sync_mode_to_string m) = Inr m"
proof -
  have len: "length (sync_mode_to_string m) = 7" by simp
  have slash: "sync_mode_to_string m ! 3 = CHR ''/''"
    by (simp add: sync_mode_to_string_def half_to_string_def)
  have na: "sync_mode_to_string m \<noteq> s" if "length s \<noteq> 7" for s
    using len that by auto
  have chars: "mode_chars (sync_mode_to_string m) = map Some (sync_mode_to_string m)"
    by (rule mode_chars_ascii) (rule sync_mode_to_string_ascii)
  show ?thesis
    using slash
    by (simp add: sync_mode_from_str_def na chars Let_def)
       (simp add: sync_mode_to_string_def half_to_string_def parse_half_print)
qed

lemma sync_mode_from_str_print_inv:
  assumes "sync_mode_from_str s = Inr m" and "\<And>c. c \<in> set s \<Longrightarrow> of_char c < (128::nat)"
    and "s \<notin> {''mirror'', ''reset-server'', ''reset-client'', ''conservative-sync'', ''sync'',
                ''aggressive-sync''}"
  shows "s = sync_mode_to_string m"
proof -
  have cs: "mode_chars s = map Some s" using assms(2) by (rule mode_chars_ascii)
  from assms(1,3) have len: "length s = 7" and sl: "s ! 3 = CHR ''/''"
    and i: "parse_half (Some (s ! 0)) (Some (s ! 1)) (Some (s ! 2)) = Inr (inbound m)"
    and o: "parse_half (Some (s ! 4)) (Some (s ! 5)) (Some (s ! 6)) = Inr (outbound m)"
    by (auto simp: sync_mode_from_str_def cs Let_def result_bind_Inr_iff split: if_splits)
  from parse_half_Inr [OF i] parse_half_Inr [OF o] sl list_7 [OF len] show ?thesis
    by (simp add: sync_mode_to_string_def half_to_string_def)
qed

text \<open>C6. For an ASCII text the parser accepts exactly the documented aliases, each with the
  mode the README gives it, and the printed forms of modes: parsing inverts printing, and nothing
  else is accepted.\<close>

theorem sync_mode_parse_iff:
  assumes "\<forall>c \<in> set s. of_char c < (128::nat)"
  shows "sync_mode_from_str s = Inr m \<longleftrightarrow>
    s = sync_mode_to_string m \<or>
    (s, sync_mode_to_string m) \<in>
      {(''mirror'', ''---/CUD''), (''reset-server'', ''---/CUD''), (''reset-client'', ''CUD/---''),
       (''conservative-sync'', ''cud/cud''), (''sync'', ''cud/cud''), (''aggressive-sync'', ''CUD/CUD'')}"
  (is "?p \<longleftrightarrow> _ \<or> ?al")
proof (cases "s \<in> {''mirror'', ''reset-server'', ''reset-client'', ''conservative-sync'', ''sync'', ''aggressive-sync''}")
  case False
  then have "\<not> ?al" by auto
  with False assms show ?thesis
    using sync_mode_from_str_print [of m] sync_mode_from_str_print_inv [of s m] by auto
next
  case True
  have n: "s \<noteq> sync_mode_to_string m"
  proof -
    from True have "length s \<noteq> 7" by auto
    then show ?thesis using length_sync_mode_to_string [of m] by metis
  qed
  have p: "\<lparr>inbound = half_all a, outbound = half_all b\<rparr> = m \<longleftrightarrow>
      sync_mode_to_string m =
      [ch a CHR ''c'' CHR ''C'', ch a CHR ''u'' CHR ''U'', ch a CHR ''d'' CHR ''D'', CHR ''/'',
       ch b CHR ''c'' CHR ''C'', ch b CHR ''u'' CHR ''U'', ch b CHR ''d'' CHR ''D'']" for a b
    using sync_mode_to_string_inject [of m "\<lparr>inbound = half_all a, outbound = half_all b\<rparr>"]
    by (auto simp: sync_mode_to_string_def half_to_string_def)
  from True n show ?thesis
    by (elim insertE; simp add: sync_mode_from_str_def p)
qed

theorem sync_mode_parse_iff_witness:
  "list_all (\<lambda>c. of_char c < (128::nat)) ''Cu-/c-D'' \<and>
   sync_mode_from_str ''Cu-/c-D'' =
     Inr \<lparr>inbound = \<lparr>create = Force, update = On, delete = Off\<rparr>,
          outbound = \<lparr>create = On, update = Off, delete = Force\<rparr>\<rparr>"
  using sync_mode_parse_iff [of "''Cu-/c-D''"
      "\<lparr>inbound = \<lparr>create = Force, update = On, delete = Off\<rparr>,
        outbound = \<lparr>create = On, update = Off, delete = Force\<rparr>\<rparr>"]
  by (simp add: sync_mode_to_string_def half_to_string_def)

end
