(* ===== verification/Std_Text.thy ===== *)
theory Std_Text
  imports Ensync_Prelude
begin

text \<open>
  The parts of Rust's standard library the program uses on text: the lossy conversion of a byte
  string to UTF-8 (\<open>to_string_lossy\<close>), the file name, stem and extension of a
  \<open>Path\<close>, and the decimal and octal formatting of unsigned integers. The lemmas show that
  the lossy conversion always yields well-formed UTF-8 and leaves well-formed text alone, and
  that numbers are printed injectively.
\<close>

section \<open>Definitions\<close>

subsection \<open>Lossy UTF-8\<close>

definition byte_val :: "byte \<Rightarrow> nat" where
  "byte_val b = of_char b"

text \<open>\<open>safe_get\<close> of the standard library's chunk iterator: 0 past the end.\<close>

definition safe_get :: "bytes \<Rightarrow> nat \<Rightarrow> nat" where
  "safe_get bs i = (if i < length bs then byte_val (bs ! i) else 0)"

definition is_cont :: "nat \<Rightarrow> bool" where
  "is_cont v = (128 \<le> v \<and> v < 192)"

definition second_ok3 :: "nat \<Rightarrow> nat \<Rightarrow> bool" where
  "second_ok3 b v =
     ((b = 0xE0 \<and> 0xA0 \<le> v \<and> v \<le> 0xBF) \<or> (0xE1 \<le> b \<and> b \<le> 0xEC \<and> 0x80 \<le> v \<and> v \<le> 0xBF) \<or>
      (b = 0xED \<and> 0x80 \<le> v \<and> v \<le> 0x9F) \<or> (0xEE \<le> b \<and> b \<le> 0xEF \<and> 0x80 \<le> v \<and> v \<le> 0xBF))"

definition second_ok4 :: "nat \<Rightarrow> nat \<Rightarrow> bool" where
  "second_ok4 b v =
     ((b = 0xF0 \<and> 0x90 \<le> v \<and> v \<le> 0xBF) \<or> (0xF1 \<le> b \<and> b \<le> 0xF3 \<and> 0x80 \<le> v \<and> v \<le> 0xBF) \<or>
      (b = 0xF4 \<and> 0x80 \<le> v \<and> v \<le> 0x8F))"

text \<open>One step over a non-empty input: whether a well-formed scalar starts here, and how many
  bytes it, or the maximal ill-formed prefix, takes.\<close>

definition utf8_step :: "bytes \<Rightarrow> bool \<times> nat" where
  "utf8_step bs =
     (let b = safe_get bs 0 in
      if b < 0x80 then (True, 1)
      else if 0xC2 \<le> b \<and> b \<le> 0xDF then
        if is_cont (safe_get bs 1) then (True, 2) else (False, 1)
      else if 0xE0 \<le> b \<and> b \<le> 0xEF then
        if \<not> second_ok3 b (safe_get bs 1) then (False, 1)
        else if is_cont (safe_get bs 2) then (True, 3) else (False, 2)
      else if 0xF0 \<le> b \<and> b \<le> 0xF4 then
        if \<not> second_ok4 b (safe_get bs 1) then (False, 1)
        else if \<not> is_cont (safe_get bs 2) then (False, 2)
        else if is_cont (safe_get bs 3) then (True, 4) else (False, 3)
      else (False, 1))"

lemma utf8_step_pos [simp]: "0 < snd (utf8_step bs)"
  by (auto simp: utf8_step_def Let_def)

definition replacement_char :: bytes where
  "replacement_char = [CHR 0xEF, CHR 0xBF, CHR 0xBD]"

function to_string_lossy :: "bytes \<Rightarrow> string" where
  "to_string_lossy bs =
     (if bs = [] then []
      else (if fst (utf8_step bs) then take (snd (utf8_step bs)) bs else replacement_char) @
           to_string_lossy (drop (snd (utf8_step bs)) bs))"
  by pat_completeness auto
termination
  by (relation "measure length") (auto simp: utf8_step_pos)

function valid_utf8 :: "bytes \<Rightarrow> bool" where
  "valid_utf8 bs =
     (if bs = [] then True
      else fst (utf8_step bs) \<and> valid_utf8 (drop (snd (utf8_step bs)) bs))"
  by pat_completeness auto
termination
  by (relation "measure length") (auto simp: utf8_step_pos)

declare to_string_lossy.simps [simp del] valid_utf8.simps [simp del]

subsection \<open>Paths\<close>

text \<open>
  \<open>Path::file_name\<close> on Unix: the last component when it is a normal one. Empty
  components and \<open>.\<close> are skipped, \<open>..\<close> gives \<open>None\<close>. The stem and extension
  are split at the last dot, unless the name starts with its only dot.
\<close>

fun split_on :: "char \<Rightarrow> string \<Rightarrow> string list" where
  "split_on d [] = [[]]"
| "split_on d (c # cs) =
     (if c = d then [] # split_on d cs
      else case split_on d cs of [] \<Rightarrow> [[c]] | p # ps \<Rightarrow> (c # p) # ps)"

definition path_file_name :: "string \<Rightarrow> string option" where
  "path_file_name p =
     (case rev (filter (\<lambda>c. c \<noteq> [] \<and> c \<noteq> ''.'') (split_on CHR ''/'' p)) of
        [] \<Rightarrow> None
      | c # _ \<Rightarrow> if c = ''..'' then None else Some c)"

text \<open>The part before and after the last occurrence of a character.\<close>

definition rsplit_at :: "char \<Rightarrow> string \<Rightarrow> (string \<times> string) option" where
  "rsplit_at d s =
     (if d \<in> set s then
        Some (rev (tl (dropWhile (\<lambda>c. c \<noteq> d) (rev s))), rev (takeWhile (\<lambda>c. c \<noteq> d) (rev s)))
      else None)"

definition stem_and_extension :: "string \<Rightarrow> string \<times> string option" where
  "stem_and_extension name =
     (case rsplit_at CHR ''.'' name of
        None \<Rightarrow> (name, None)
      | Some (before, after) \<Rightarrow> if before = [] then (name, None) else (before, Some after))"

subsection \<open>Integer formatting\<close>

function digits :: "nat \<Rightarrow> nat \<Rightarrow> nat list" where
  "digits b n = (if n < b \<or> b < 2 then [n] else digits b (n div b) @ [n mod b])"
  by pat_completeness auto
termination
  by (relation "measure snd") auto

declare digits.simps [simp del]

definition digit_char :: "nat \<Rightarrow> char" where
  "digit_char d = char_of (48 + d)"

definition fmt_dec :: "nat \<Rightarrow> string" where
  "fmt_dec n = map digit_char (digits 10 n)"

text \<open>\<open>{:04o}\<close>: octal, padded with zeroes to at least four digits.\<close>

definition fmt_04o :: "'l::len word \<Rightarrow> string" where
  "fmt_04o m =
     (let s = map digit_char (digits 8 (unat m)) in replicate (4 - length s) CHR ''0'' @ s)"

section \<open>Lemmas\<close>

lemma utf8_step_append:
  assumes "utf8_step bs = (True, n)" and "bs \<noteq> []"
  shows "n \<le> length bs \<and> utf8_step (take n bs @ ys) = (True, n)"
proof -
  have get: "0 < safe_get bs i \<Longrightarrow> i < length bs" for i
    by (simp add: safe_get_def split: if_splits)
  have cont: "is_cont (safe_get bs i) \<Longrightarrow> i < length bs" for i
    using get [of i] by (simp add: is_cont_def)
  have len: "n \<le> length bs"
    using assms cont [of 1] cont [of 2] cont [of 3] length_greater_0_conv [of bs]
    by (auto simp: utf8_step_def Let_def split: if_splits simp del: length_greater_0_conv)
  have same: "i < n \<Longrightarrow> safe_get (take n bs @ ys) i = safe_get bs i" for i
    using len by (auto simp: safe_get_def nth_append)
  have "utf8_step (take n bs @ ys) = (True, n)"
  proof -
    from assms(1) consider
        "n = 1" "safe_get bs 0 < 0x80"
      | "n = 2" "0xC2 \<le> safe_get bs 0" "safe_get bs 0 \<le> 0xDF" "is_cont (safe_get bs 1)"
      | "n = 3" "0xE0 \<le> safe_get bs 0" "safe_get bs 0 \<le> 0xEF"
          "second_ok3 (safe_get bs 0) (safe_get bs 1)" "is_cont (safe_get bs 2)"
      | "n = 4" "0xF0 \<le> safe_get bs 0" "safe_get bs 0 \<le> 0xF4"
          "second_ok4 (safe_get bs 0) (safe_get bs 1)" "is_cont (safe_get bs 2)"
          "is_cont (safe_get bs 3)"
      by (auto simp: utf8_step_def Let_def split: if_splits)
    then show ?thesis
      using same [of 0] same [of 1] same [of 2] same [of 3]
      by cases (simp_all add: utf8_step_def)
  qed
  with len show ?thesis by simp
qed

lemma valid_utf8_replacement: "valid_utf8 ys \<Longrightarrow> valid_utf8 (replacement_char @ ys)"
  by (subst valid_utf8.simps)
     (simp add: replacement_char_def utf8_step_def safe_get_def byte_val_def is_cont_def second_ok3_def)

lemma valid_utf8_lossy: "valid_utf8 (to_string_lossy bs)"
proof (induction bs rule: to_string_lossy.induct)
  case (1 bs)
  show ?case
  proof (cases "bs = []")
    case True
    then show ?thesis by (simp add: to_string_lossy.simps valid_utf8.simps)
  next
    case False
    let ?n = "snd (utf8_step bs)"
    have ih: "valid_utf8 (to_string_lossy (drop ?n bs))" by (rule 1) (rule False)
    show ?thesis
    proof (cases "fst (utf8_step bs)")
      case True
      then have st: "utf8_step bs = (True, ?n)" by (simp add: prod_eq_iff)
      note app = utf8_step_append [OF st False, of "to_string_lossy (drop ?n bs)"]
      then have "length (take ?n bs) = ?n" by simp
      with app ih have "valid_utf8 (take ?n bs @ to_string_lossy (drop ?n bs))"
        by (subst valid_utf8.simps) simp
      with True False show ?thesis by (subst to_string_lossy.simps) simp
    next
      case inv: False
      with ih False show ?thesis
        by (subst to_string_lossy.simps) (simp add: valid_utf8_replacement)
    qed
  qed
qed

lemma to_string_lossy_valid: "valid_utf8 bs \<Longrightarrow> to_string_lossy bs = bs"
proof (induction bs rule: valid_utf8.induct)
  case (1 bs)
  then show ?case
    by (subst to_string_lossy.simps) (auto simp: valid_utf8.simps [of bs])
qed

lemma digits_nonempty [simp]: "digits b n \<noteq> []"
  by (subst digits.simps) simp

lemma digits_less: "2 \<le> b \<Longrightarrow> d \<in> set (digits b n) \<Longrightarrow> d < b"
proof (induction b n rule: digits.induct)
  case (1 b n)
  then show ?case
    by (subst (asm) digits.simps) (auto split: if_splits)
qed

lemma foldl_digits: "2 \<le> b \<Longrightarrow> foldl (\<lambda>a d. a * b + d) 0 (digits b n) = n"
proof (induction b n rule: digits.induct)
  case (1 b n)
  show ?case
  proof (cases "n < b \<or> b < 2")
    case True
    then show ?thesis by (subst digits.simps) simp
  next
    case False
    then have "foldl (\<lambda>a d. a * b + d) 0 (digits b (n div b)) = n div b"
      using 1 by blast
    then have "foldl (\<lambda>a d. a * b + d) 0 (digits b (n div b) @ [n mod b]) = n"
      by (simp del: foldl_Cons add: foldl_append) simp
    moreover have "digits b n = digits b (n div b) @ [n mod b]"
      by (subst digits.simps) (use False in simp)
    ultimately show ?thesis by metis
  qed
qed

lemma digits_inject: "2 \<le> b \<Longrightarrow> digits b n = digits b m \<Longrightarrow> n = m"
  by (metis foldl_digits)

lemma digit_char_inject:
  "a < 10 \<Longrightarrow> b < 10 \<Longrightarrow> digit_char a = digit_char b \<Longrightarrow> a = b"
proof -
  assume "a < 10" "b < 10" "digit_char a = digit_char b"
  then have "of_char (digit_char a) = (of_char (digit_char b) :: nat)" by simp
  with \<open>a < 10\<close> \<open>b < 10\<close> show "a = b" by (simp add: digit_char_def)
qed

lemma fmt_dec_inject: "fmt_dec n = fmt_dec m \<Longrightarrow> n = m"
proof -
  assume eq: "fmt_dec n = fmt_dec m"
  have "inj_on digit_char {..<10}"
    by (rule inj_onI) (simp add: digit_char_inject)
  moreover have "set (digits 10 k) \<subseteq> {..<10}" for k
    using digits_less [of 10 _ k] by auto
  ultimately have "inj_on digit_char (set (digits 10 n) \<union> set (digits 10 m))"
    by (meson Un_least inj_on_subset)
  then have "digits 10 n = digits 10 m"
    using eq unfolding fmt_dec_def by (rule map_inj_on [rotated])
  then show "n = m" by (rule digits_inject [rotated]) simp
qed

lemma length_fmt_04o: "4 \<le> length (fmt_04o m)"
  by (simp add: fmt_04o_def Let_def)

end
