(* ===== verification/Rules_Engine.thy ===== *)
theory Rules_Engine
  imports Defs Rules_Defs Std_Text
begin

text \<open>
  The rules engine of \<open>src/rules/engine.rs\<close>, without its parser: conditions, rules and
  rule states, the interpreter \<open>apply_rules_impl\<close> with its recursion through
  \<open>include\<close>, and the three handles of the engine (\<open>DirEngine\<close>, \<open>FileEngine\<close>,
  \<open>DirEngineBuilder\<close>) the tree walk uses.

  Regular expressions come from the \<open>regex\<close> crate: their type is the type variable
  \<open>'rx\<close> and matching is the parameter \<open>rx_match\<close>.

  The interpreter recurses once per \<open>include\<close>; a state that is being evaluated is skipped,
  so the depth is at most the number of states. The model recurses on a fuel of one more than
  that number, and the totality lemma shows that it is enough on well-formed rules. The
  specification is a big-step reading of the README's actions, over the set of states being
  evaluated; the interpreter computes exactly it.
\<close>

section \<open>Definitions\<close>

subsection \<open>Rules\<close>

datatype 'rx condition =
    Name 'rx
  | Path 'rx
  | Permissions 'rx
  | Type 'rx
  | Target 'rx
  | Bigger file_size
  | Smaller file_size

fun type_letter :: "file_data \<Rightarrow> string option" where
  "type_letter (Regular _ _ _ _) = Some ''f''"
| "type_letter (Directory _) = Some ''d''"
| "type_letter (Symlink _) = Some ''s''"
| "type_letter Special = None"

fun condition_matches ::
  "('rx \<Rightarrow> string \<Rightarrow> bool) \<Rightarrow> 'rx condition \<Rightarrow> string \<Rightarrow> string \<Rightarrow> file_data \<Rightarrow> bool" where
  "condition_matches rx_match (Name rx) path name data = rx_match rx name"
| "condition_matches rx_match (Path rx) path name data = rx_match rx path"
| "condition_matches rx_match (Permissions rx) path name data =
     (case data of
        Regular mode _ _ _ \<Rightarrow> rx_match rx (fmt_04o mode)
      | Directory mode \<Rightarrow> rx_match rx (fmt_04o mode)
      | Symlink _ \<Rightarrow> False
      | Special \<Rightarrow> False)"
| "condition_matches rx_match (Type rx) path name data =
     (case type_letter data of None \<Rightarrow> False | Some s \<Rightarrow> rx_match rx s)"
| "condition_matches rx_match (Target rx) path name data =
     (case data of Symlink target \<Rightarrow> rx_match rx (to_string_lossy target) | _ \<Rightarrow> False)"
| "condition_matches rx_match (Bigger lo) path name data =
     (case data of Regular _ sz _ _ \<Rightarrow> sz > lo | _ \<Rightarrow> False)"
| "condition_matches rx_match (Smaller hi) path name data =
     (case data of Regular _ sz _ _ \<Rightarrow> sz < hi | _ \<Rightarrow> False)"

datatype stop_type = StopReturn | StopAll

datatype action =
    Mode sync_mode
  | TrustClientUnixMode bool
  | Include "nat list"
  | Switch nat
  | Stop stop_type

record 'rx rule =
  rule_conditions :: "'rx condition list"
  rule_actions :: "action list"

definition rule_matches ::
  "('rx \<Rightarrow> string \<Rightarrow> bool) \<Rightarrow> 'rx rule \<Rightarrow> string \<Rightarrow> string \<Rightarrow> file_data \<Rightarrow> bool" where
  "rule_matches rx_match r path name data =
     list_all (\<lambda>c. condition_matches rx_match c path name data) (rule_conditions r)"

record rule_state =
  st_files :: "nat list"
  st_siblings :: "nat list"

record 'rx sync_rules =
  sr_states :: "rule_state list"
  sr_rules :: "'rx rule list"
  sr_root_ix :: nat

definition single_mode :: "sync_mode \<Rightarrow> bool \<Rightarrow> 'rx sync_rules" where
  "single_mode mode trust =
     \<lparr>sr_states = [\<lparr>st_files = [0], st_siblings = []\<rparr>],
      sr_rules = [\<lparr>rule_conditions = [], rule_actions = [Mode mode, TrustClientUnixMode trust]\<rparr>],
      sr_root_ix = 0\<rparr>"

subsection \<open>Engine state\<close>

record engine_state =
  es_mode :: sync_mode
  es_trust :: bool
  es_state :: nat
  es_switch :: "nat option"
  es_path :: string

definition engine_state_new :: "nat \<Rightarrow> engine_state" where
  "engine_state_new init_state =
     \<lparr>es_mode = sync_mode_default, es_trust = True, es_state = init_state, es_switch = None, es_path = []\<rparr>"

definition apply_switch :: "engine_state \<Rightarrow> engine_state" where
  "apply_switch es =
     (case es_switch es of None \<Rightarrow> es | Some new \<Rightarrow> es\<lparr>es_state := new, es_switch := None\<rparr>)"

definition push_dir :: "string \<Rightarrow> engine_state \<Rightarrow> engine_state" where
  "push_dir sub es = es\<lparr>es_path := es_path es @ ''/'' @ sub\<rparr>"

subsection \<open>The interpreter\<close>

text \<open>
  \<open>include_loop\<close>, \<open>actions_loop\<close> and \<open>rules_loop\<close> are the three nested loops of
  \<open>apply_rules_impl\<close>; \<open>rec\<close> is the recursive call. A loop says how it was left: at
  its end, by \<open>break 'rules_loop\<close> with \<open>keep_going\<close> still set, or with it cleared.
  \<open>None\<close> is a panic, by an index out of range, or the end of the fuel.
\<close>

datatype loop_exit = LoopEnd | BreakReturn | BreakAll

type_synonym run_result = "(bool list \<times> engine_state \<times> bool) option"
type_synonym loop_result = "(bool list \<times> engine_state \<times> loop_exit) option"

fun include_loop ::
  "(bool list \<Rightarrow> nat \<Rightarrow> engine_state \<Rightarrow> run_result) \<Rightarrow> nat list \<Rightarrow> bool list \<Rightarrow> engine_state \<Rightarrow> run_result" where
  "include_loop rec [] occ es = Some (occ, es, True)"
| "include_loop rec (sub # subs) occ es =
     (case rec occ sub es of
        None \<Rightarrow> None
      | Some (occ', es', keep) \<Rightarrow>
          if \<not> keep then Some (occ', es', False) else include_loop rec subs occ' es')"

fun actions_loop ::
  "(bool list \<Rightarrow> nat \<Rightarrow> engine_state \<Rightarrow> run_result) \<Rightarrow> action list \<Rightarrow> bool list \<Rightarrow> engine_state \<Rightarrow> loop_result" where
  "actions_loop rec [] occ es = Some (occ, es, LoopEnd)"
| "actions_loop rec (Mode mode # acts) occ es = actions_loop rec acts occ (es\<lparr>es_mode := mode\<rparr>)"
| "actions_loop rec (TrustClientUnixMode trust # acts) occ es =
     actions_loop rec acts occ (es\<lparr>es_trust := trust\<rparr>)"
| "actions_loop rec (Include subs # acts) occ es =
     (case include_loop rec subs occ es of
        None \<Rightarrow> None
      | Some (occ', es', keep) \<Rightarrow>
          if \<not> keep then Some (occ', es', BreakAll) else actions_loop rec acts occ' es')"
| "actions_loop rec (Switch new # acts) occ es = actions_loop rec acts occ (es\<lparr>es_switch := Some new\<rparr>)"
| "actions_loop rec (Stop StopReturn # acts) occ es = Some (occ, es, BreakReturn)"
| "actions_loop rec (Stop StopAll # acts) occ es = Some (occ, es, BreakAll)"

fun rules_loop ::
  "(bool list \<Rightarrow> nat \<Rightarrow> engine_state \<Rightarrow> run_result) \<Rightarrow> 'rx sync_rules \<Rightarrow> (nat \<Rightarrow> bool option) \<Rightarrow> nat list \<Rightarrow>
   bool list \<Rightarrow> engine_state \<Rightarrow> loop_result" where
  "rules_loop rec sr matchp [] occ es = Some (occ, es, LoopEnd)"
| "rules_loop rec sr matchp (rule # rest) occ es =
     (case matchp rule of
        None \<Rightarrow> None
      | Some False \<Rightarrow> rules_loop rec sr matchp rest occ es
      | Some True \<Rightarrow>
          if rule \<ge> length (sr_rules sr) then None
          else
            case actions_loop rec (rule_actions (sr_rules sr ! rule)) occ es of
              None \<Rightarrow> None
            | Some (occ', es', LoopEnd) \<Rightarrow> rules_loop rec sr matchp rest occ' es'
            | Some (occ', es', ex) \<Rightarrow> Some (occ', es', ex))"

fun apply_rules_impl ::
  "nat \<Rightarrow> 'rx sync_rules \<Rightarrow> (rule_state \<Rightarrow> nat list) \<Rightarrow> (nat \<Rightarrow> bool option) \<Rightarrow>
   bool list \<Rightarrow> nat \<Rightarrow> engine_state \<Rightarrow> run_result" where
  "apply_rules_impl 0 sr grp matchp occ state_ix es = None"
| "apply_rules_impl (Suc fuel) sr grp matchp occ state_ix es =
     (if state_ix \<ge> length occ then None
      else if occ ! state_ix then Some (occ, es, True)
      else if state_ix \<ge> length (sr_states sr) then None
      else
        case rules_loop (apply_rules_impl fuel sr grp matchp) sr matchp
               (grp (sr_states sr ! state_ix)) (occ[state_ix := True]) es of
          None \<Rightarrow> None
        | Some (occ', es', ex) \<Rightarrow> Some (occ'[state_ix := False], es', ex \<noteq> BreakAll))"

definition apply_rules ::
  "'rx sync_rules \<Rightarrow> (rule_state \<Rightarrow> nat list) \<Rightarrow> (nat \<Rightarrow> bool option) \<Rightarrow> engine_state \<Rightarrow> engine_state option" where
  "apply_rules sr grp matchp es =
     (case apply_rules_impl (Suc (length (sr_states sr))) sr grp matchp
             (replicate (length (sr_states sr)) False) (es_state es) es of
        None \<Rightarrow> None
      | Some (_, es', _) \<Rightarrow> Some es')"

subsection \<open>The handles\<close>

record 'rx dir_engine =
  de_rules :: "'rx sync_rules"
  de_state :: engine_state

record 'rx file_engine =
  fe_rules :: "'rx sync_rules"
  fe_state :: engine_state

record 'rx dir_engine_builder =
  db_rules :: "'rx sync_rules"
  db_state :: engine_state
  db_rules_matched :: "bool list"

text \<open>\<open>self.rules.rules[r].matches(..)\<close>, with the panic of an index out of range.\<close>

definition file_rule_matches ::
  "('rx \<Rightarrow> string \<Rightarrow> bool) \<Rightarrow> 'rx sync_rules \<Rightarrow> string \<Rightarrow> string \<Rightarrow> file_data \<Rightarrow> nat \<Rightarrow> bool option" where
  "file_rule_matches rx_match sr path name data r =
     (if r < length (sr_rules sr) then Some (rule_matches rx_match (sr_rules sr ! r) path name data) else None)"

text \<open>The path is swapped out of the state while the rules run and swapped back after.\<close>

definition dir_engine_file ::
  "('rx \<Rightarrow> string \<Rightarrow> bool) \<Rightarrow> 'rx dir_engine \<Rightarrow> os_string \<times> file_data \<Rightarrow> 'rx file_engine option" where
  "dir_engine_file rx_match de file =
     (let name = to_string_lossy (fst file);
          new_state = apply_switch (push_dir name (de_state de));
          path = es_path new_state
      in case apply_rules (de_rules de) st_files (file_rule_matches rx_match (de_rules de) path name (snd file))
                (new_state\<lparr>es_path := []\<rparr>) of
           None \<Rightarrow> None
         | Some es \<Rightarrow> Some \<lparr>fe_rules = de_rules de, fe_state = es\<lparr>es_path := path\<rparr>\<rparr>)"

definition file_engine_new :: "'rx sync_rules \<Rightarrow> 'rx file_engine" where
  "file_engine_new sr = \<lparr>fe_rules = sr, fe_state = engine_state_new (sr_root_ix sr)\<rparr>"

definition fe_sync_mode :: "'rx file_engine \<Rightarrow> sync_mode" where
  "fe_sync_mode fe = es_mode (fe_state fe)"

definition fe_trust_client_unix_mode :: "'rx file_engine \<Rightarrow> bool" where
  "fe_trust_client_unix_mode fe = es_trust (fe_state fe)"

definition subdir :: "'rx file_engine \<Rightarrow> 'rx dir_engine_builder" where
  "subdir fe =
     \<lparr>db_rules = fe_rules fe, db_state = fe_state fe,
      db_rules_matched = replicate (length (sr_rules (fe_rules fe))) False\<rparr>"

definition builder_contains ::
  "('rx \<Rightarrow> string \<Rightarrow> bool) \<Rightarrow> os_string \<times> file_data \<Rightarrow> 'rx dir_engine_builder \<Rightarrow> 'rx dir_engine_builder option" where
  "builder_contains rx_match file db =
     (let name = to_string_lossy (fst file);
          path = es_path (db_state db) @ ''/'' @ name
      in if length (sr_rules (db_rules db)) \<le> length (db_rules_matched db) then
           Some (db\<lparr>db_rules_matched :=
             map2 (\<lambda>m r. m \<or> rule_matches rx_match r path name (snd file))
               (take (length (sr_rules (db_rules db))) (db_rules_matched db)) (sr_rules (db_rules db))
             @ drop (length (sr_rules (db_rules db))) (db_rules_matched db)\<rparr>)
         else None)"

definition matched_at :: "bool list \<Rightarrow> nat \<Rightarrow> bool option" where
  "matched_at ms r = (if r < length ms then Some (ms ! r) else None)"

definition builder_build :: "'rx dir_engine_builder \<Rightarrow> 'rx dir_engine option" where
  "builder_build db =
     (case apply_rules (db_rules db) st_siblings (matched_at (db_rules_matched db)) (db_state db) of
        None \<Rightarrow> None
      | Some es \<Rightarrow> Some \<lparr>de_rules = db_rules db, de_state = apply_switch es\<rparr>)"

subsection \<open>Well-formed rules\<close>

fun action_wf :: "nat \<Rightarrow> action \<Rightarrow> bool" where
  "action_wf n (Include subs) = list_all (\<lambda>s. s < n) subs"
| "action_wf n (Switch s) = (s < n)"
| "action_wf n _ = True"

definition rules_wf :: "'rx sync_rules \<Rightarrow> bool" where
  "rules_wf sr =
     (list_all (\<lambda>st. list_all (\<lambda>r. r < length (sr_rules sr)) (st_files st @ st_siblings st)) (sr_states sr) \<and>
      list_all (\<lambda>r. list_all (action_wf (length (sr_states sr))) (rule_actions r)) (sr_rules sr) \<and>
      sr_root_ix sr < length (sr_states sr))"

definition engine_wf :: "'rx sync_rules \<Rightarrow> engine_state \<Rightarrow> bool" where
  "engine_wf sr es =
     (es_state es < length (sr_states sr) \<and>
      (case es_switch es of None \<Rightarrow> True | Some s \<Rightarrow> s < length (sr_states sr)))"

subsection \<open>Specification: the README's actions\<close>

text \<open>
  The actions a state contributes are those of its matching rules, in order. The relation says
  how evaluating them changes the engine state while the states in \<open>A\<close> are being evaluated,
  and whether processing goes on in the including state.
\<close>

definition matched_actions :: "'rx sync_rules \<Rightarrow> (rule_state \<Rightarrow> nat list) \<Rightarrow> (nat \<Rightarrow> bool option) \<Rightarrow> nat \<Rightarrow> action list" where
  "matched_actions sr grp matchp ix =
     concat (map (\<lambda>r. rule_actions (sr_rules sr ! r))
       (filter (\<lambda>r. matchp r = Some True) (grp (sr_states sr ! ix))))"

inductive eval_state :: "(nat \<Rightarrow> action list) \<Rightarrow> nat set \<Rightarrow> nat \<Rightarrow> engine_state \<Rightarrow> engine_state \<Rightarrow> bool \<Rightarrow> bool"
  and eval_actions :: "(nat \<Rightarrow> action list) \<Rightarrow> nat set \<Rightarrow> action list \<Rightarrow> engine_state \<Rightarrow> engine_state \<Rightarrow> loop_exit \<Rightarrow> bool"
  and eval_includes :: "(nat \<Rightarrow> action list) \<Rightarrow> nat set \<Rightarrow> nat list \<Rightarrow> engine_state \<Rightarrow> engine_state \<Rightarrow> bool \<Rightarrow> bool"
  for acts :: "nat \<Rightarrow> action list" where
  already: "ix \<in> A \<Longrightarrow> eval_state acts A ix es es True"
| enter: "ix \<notin> A \<Longrightarrow> eval_actions acts (insert ix A) (acts ix) es es' ex \<Longrightarrow>
    eval_state acts A ix es es' (ex \<noteq> BreakAll)"
| finished: "eval_actions acts A [] es es LoopEnd"
| mode: "eval_actions acts A as (es\<lparr>es_mode := m\<rparr>) es' ex \<Longrightarrow> eval_actions acts A (Mode m # as) es es' ex"
| trust: "eval_actions acts A as (es\<lparr>es_trust := t\<rparr>) es' ex \<Longrightarrow>
    eval_actions acts A (TrustClientUnixMode t # as) es es' ex"
| switch: "eval_actions acts A as (es\<lparr>es_switch := Some s\<rparr>) es' ex \<Longrightarrow>
    eval_actions acts A (Switch s # as) es es' ex"
| stop_return: "eval_actions acts A (Stop StopReturn # as) es es BreakReturn"
| stop_all: "eval_actions acts A (Stop StopAll # as) es es BreakAll"
| incl_on: "eval_includes acts A subs es es1 True \<Longrightarrow> eval_actions acts A as es1 es' ex \<Longrightarrow>
    eval_actions acts A (Include subs # as) es es' ex"
| incl_stop: "eval_includes acts A subs es es' False \<Longrightarrow> eval_actions acts A (Include subs # as) es es' BreakAll"
| inc_done: "eval_includes acts A [] es es True"
| inc_next: "eval_state acts A s es es1 True \<Longrightarrow> eval_includes acts A subs es1 es' k \<Longrightarrow>
    eval_includes acts A (s # subs) es es' k"
| inc_stop: "eval_state acts A s es es' False \<Longrightarrow> eval_includes acts A (s # subs) es es' False"

inductive_cases eval_stateE: "eval_state acts A ix es es' k"
inductive_cases eval_actionsE:
  "eval_actions acts A [] es es' ex"
  "eval_actions acts A (Mode m # as) es es' ex"
  "eval_actions acts A (TrustClientUnixMode t # as) es es' ex"
  "eval_actions acts A (Switch s # as) es es' ex"
  "eval_actions acts A (Stop StopReturn # as) es es' ex"
  "eval_actions acts A (Stop StopAll # as) es es' ex"
  "eval_actions acts A (Include subs # as) es es' ex"
inductive_cases eval_includesE:
  "eval_includes acts A [] es es' k"
  "eval_includes acts A (s # subs) es es' k"

text \<open>What a run leaves alone, and the contract of the recursive call at given flags.\<close>

definition run_keeps :: "'rx sync_rules \<Rightarrow> engine_state \<Rightarrow> engine_state \<Rightarrow> bool" where
  "run_keeps sr es es' = (engine_wf sr es' \<and> es_state es' = es_state es \<and> es_path es' = es_path es)"

definition active :: "bool list \<Rightarrow> nat set" where
  "active occ = {i. i < length occ \<and> occ ! i}"

definition call_ok ::
  "'rx sync_rules \<Rightarrow> (nat \<Rightarrow> action list) \<Rightarrow> (bool list \<Rightarrow> nat \<Rightarrow> engine_state \<Rightarrow> run_result) \<Rightarrow> bool list \<Rightarrow> bool" where
  "call_ok sr acts rec occ =
     (\<forall>sub es. sub < length (sr_states sr) \<longrightarrow> engine_wf sr es \<longrightarrow>
        (\<exists>es' k. rec occ sub es = Some (occ, es', k) \<and>
           eval_state acts (active occ) sub es es' k \<and> run_keeps sr es es'))"

text \<open>The match function answers for every rule index.\<close>

definition match_total :: "'rx sync_rules \<Rightarrow> (nat \<Rightarrow> bool option) \<Rightarrow> bool" where
  "match_total sr matchp = (\<forall>r < length (sr_rules sr). matchp r \<noteq> None)"

text \<open>A selector of one of the two rule groups.\<close>

definition group_ok :: "(rule_state \<Rightarrow> nat list) \<Rightarrow> bool" where
  "group_ok grp = (\<forall>st. set (grp st) \<subseteq> set (st_files st @ st_siblings st))"

subsection \<open>Use of the handles\<close>

text \<open>The order of calls the tree walk makes for a directory: \<open>subdir\<close>, \<open>contains\<close> for
  every file seen on the client and the server, \<open>build\<close>, then \<open>file\<close> for an
  entry. \<open>walk_engine\<close> does so along a path of directories.\<close>

fun contains_all :: "('a \<Rightarrow> 'b \<Rightarrow> 'b option) \<Rightarrow> 'a list \<Rightarrow> 'b \<Rightarrow> 'b option" where
  "contains_all contains_of [] b = Some b"
| "contains_all contains_of (f # fs) b = Option.bind (contains_of f b) (contains_all contains_of fs)"

definition enter_dir ::
  "('rx \<Rightarrow> string \<Rightarrow> bool) \<Rightarrow> (os_string \<times> file_data) list \<Rightarrow> 'rx file_engine \<Rightarrow> 'rx dir_engine option" where
  "enter_dir rx_match fs fe =
     Option.bind (contains_all (builder_contains rx_match) fs (subdir fe)) builder_build"

fun walk_engine ::
  "('rx \<Rightarrow> string \<Rightarrow> bool) \<Rightarrow> ((os_string \<times> file_data) list \<times> os_string \<times> file_data) list \<Rightarrow>
   'rx file_engine \<Rightarrow> 'rx file_engine option" where
  "walk_engine rx_match [] fe = Some fe"
| "walk_engine rx_match ((fs, file) # levels) fe =
     Option.bind (enter_dir rx_match fs fe) (\<lambda>de.
     Option.bind (dir_engine_file rx_match de file) (walk_engine rx_match levels))"

definition file_engine_ok :: "'rx sync_rules \<Rightarrow> 'rx file_engine \<Rightarrow> bool" where
  "file_engine_ok sr fe = (rules_wf sr \<and> fe_rules fe = sr \<and> engine_wf sr (fe_state fe))"

definition dir_engine_ok :: "'rx sync_rules \<Rightarrow> 'rx dir_engine \<Rightarrow> bool" where
  "dir_engine_ok sr de = (rules_wf sr \<and> de_rules de = sr \<and> engine_wf sr (de_state de))"

definition builder_ok :: "'rx sync_rules \<Rightarrow> 'rx dir_engine_builder \<Rightarrow> bool" where
  "builder_ok sr db =
     (rules_wf sr \<and> db_rules db = sr \<and> engine_wf sr (db_state db) \<and>
      length (db_rules_matched db) = length (sr_rules sr))"

text \<open>A ruleset for the examples: the regular expressions are literal names.\<close>

definition demo_rules :: "string sync_rules" where
  "demo_rules =
     \<lparr>sr_states = [\<lparr>st_files = [0, 1], st_siblings = [2]\<rparr>, \<lparr>st_files = [3], st_siblings = []\<rparr>],
      sr_rules =
       [\<lparr>rule_conditions = [], rule_actions = [Mode \<lparr>inbound = half_all On, outbound = half_all On\<rparr>, Include [1]]\<rparr>,
        \<lparr>rule_conditions = [Name ''x''], rule_actions = [Mode sync_mode_default]\<rparr>,
        \<lparr>rule_conditions = [Name ''.git''], rule_actions = [Switch 1]\<rparr>,
        \<lparr>rule_conditions = [Name ''y''], rule_actions = [Include [0], TrustClientUnixMode False, Stop StopAll]\<rparr>],
      sr_root_ix = 0\<rparr>"

section \<open>Lemmas\<close>

lemma engine_wf_simps [simp]:
  "engine_wf sr (es\<lparr>es_mode := m\<rparr>) = engine_wf sr es"
  "engine_wf sr (es\<lparr>es_trust := t\<rparr>) = engine_wf sr es"
  "engine_wf sr (es\<lparr>es_path := p\<rparr>) = engine_wf sr es"
  "engine_wf sr es \<Longrightarrow> engine_wf sr (es\<lparr>es_switch := Some s\<rparr>) = (s < length (sr_states sr))"
  by (auto simp: engine_wf_def)

lemma apply_switch_wf [simp]: "engine_wf sr es \<Longrightarrow> engine_wf sr (apply_switch es)"
  by (auto simp: engine_wf_def apply_switch_def split: option.splits)

lemma push_dir_wf [simp]: "engine_wf sr (push_dir sub es) = engine_wf sr es"
  by (simp add: push_dir_def)

lemma rules_wf_rule:
  "rules_wf sr \<Longrightarrow> r < length (sr_rules sr) \<Longrightarrow>
   list_all (action_wf (length (sr_states sr))) (rule_actions (sr_rules sr ! r))"
  by (auto simp: rules_wf_def list_all_length)

lemma rules_wf_group:
  assumes "rules_wf sr" "ix < length (sr_states sr)" "r \<in> set (grp (sr_states sr ! ix))"
    "\<And>st. set (grp st) \<subseteq> set (st_files st @ st_siblings st)"
  shows "r < length (sr_rules sr)"
  using assms unfolding rules_wf_def list_all_iff by (metis nth_mem subsetD)

text \<open>The specification is deterministic.\<close>

lemma eval_deterministic:
  "eval_state acts A ix es es1 k1 \<Longrightarrow> eval_state acts A ix es es2 k2 \<Longrightarrow> es1 = es2 \<and> k1 = k2"
  "eval_actions acts A as es es1 x1 \<Longrightarrow> eval_actions acts A as es es2 x2 \<Longrightarrow> es1 = es2 \<and> x1 = x2"
  "eval_includes acts A subs es es1 k1 \<Longrightarrow> eval_includes acts A subs es es2 k2 \<Longrightarrow> es1 = es2 \<and> k1 = k2"
proof (induction arbitrary: es2 k2 and es2 x2 and es2 k2
    rule: eval_state_eval_actions_eval_includes.inducts)
qed (blast elim: eval_stateE eval_actionsE eval_includesE)+

lemma eval_actions_append:
  "eval_actions acts A xs es es1 LoopEnd \<Longrightarrow> eval_actions acts A ys es1 es' ex \<Longrightarrow>
   eval_actions acts A (xs @ ys) es es' ex"
proof (induction xs arbitrary: es)
  case (Cons a xs)
  show ?case
  proof (cases a)
    case (Stop t)
    with Cons.prems show ?thesis by (cases t) (auto elim!: eval_actionsE)
  qed (use Cons in \<open>auto elim!: eval_actionsE intro: eval_state_eval_actions_eval_includes.intros\<close>)
qed (auto elim: eval_actionsE)

lemma eval_actions_append_stop:
  "eval_actions acts A xs es es' ex \<Longrightarrow> ex \<noteq> LoopEnd \<Longrightarrow> eval_actions acts A (xs @ ys) es es' ex"
proof (induction xs arbitrary: es)
  case (Cons a xs)
  show ?case
  proof (cases a)
    case (Stop t)
    with Cons.prems show ?thesis
      by (cases t) (auto elim!: eval_actionsE intro: eval_state_eval_actions_eval_includes.intros)
  qed (use Cons in \<open>auto elim!: eval_actionsE intro: eval_state_eval_actions_eval_includes.intros\<close>)
qed (auto elim: eval_actionsE)

lemma run_keeps_trans: "run_keeps sr a b \<Longrightarrow> run_keeps sr b c \<Longrightarrow> run_keeps sr a c"
  by (simp add: run_keeps_def)

lemma run_keeps_wf: "run_keeps sr a b \<Longrightarrow> engine_wf sr b"
  by (simp add: run_keeps_def)

lemma run_keeps_refl: "engine_wf sr es \<Longrightarrow> run_keeps sr es es"
  by (simp add: run_keeps_def)

lemma run_keeps_upd:
  "run_keeps sr (es\<lparr>es_mode := m\<rparr>) b = run_keeps sr es b"
  "run_keeps sr (es\<lparr>es_trust := t\<rparr>) b = run_keeps sr es b"
  "run_keeps sr (es\<lparr>es_switch := s\<rparr>) b = run_keeps sr es b"
  by (simp_all add: run_keeps_def)

lemma include_loop_ok:
  assumes "call_ok sr acts rec occ" "list_all (\<lambda>s. s < length (sr_states sr)) subs" "engine_wf sr es"
  shows "\<exists>es' k. include_loop rec subs occ es = Some (occ, es', k) \<and>
    eval_includes acts (active occ) subs es es' k \<and> run_keeps sr es es'"
  using assms(2,3)
proof (induction subs arbitrary: es)
  case Nil
  then show ?case by (auto intro: inc_done run_keeps_refl)
next
  case (Cons s subs)
  with assms(1) obtain es1 k1 where r: "rec occ s es = Some (occ, es1, k1)"
    "eval_state acts (active occ) s es es1 k1" "run_keeps sr es es1"
    unfolding call_ok_def by force
  show ?case
  proof (cases k1)
    case True
    with r Cons.IH [of es1] Cons.prems run_keeps_wf obtain es' k where
      "include_loop rec subs occ es1 = Some (occ, es', k)"
      "eval_includes acts (active occ) subs es1 es' k" "run_keeps sr es1 es'"
      by force
    with True r show ?thesis by (auto intro: inc_next run_keeps_trans)
  next
    case False
    with r show ?thesis by (auto intro: inc_stop)
  qed
qed

lemma actions_loop_ok:
  assumes "call_ok sr acts rec occ" "list_all (action_wf (length (sr_states sr))) as" "engine_wf sr es"
  shows "\<exists>es' ex. actions_loop rec as occ es = Some (occ, es', ex) \<and>
    eval_actions acts (active occ) as es es' ex \<and> run_keeps sr es es'"
  using assms(2,3)
proof (induction as arbitrary: es)
  case Nil
  then show ?case by (auto intro: finished run_keeps_refl)
next
  case (Cons a as)
  show ?case
  proof (cases a)
    case (Mode m)
    with Cons.IH [of "es\<lparr>es_mode := m\<rparr>"] Cons.prems show ?thesis
      by (auto intro: eval_state_eval_actions_eval_includes.mode simp: run_keeps_upd)
  next
    case (TrustClientUnixMode t)
    with Cons.IH [of "es\<lparr>es_trust := t\<rparr>"] Cons.prems show ?thesis
      by (auto intro: eval_state_eval_actions_eval_includes.trust simp: run_keeps_upd)
  next
    case (Switch s)
    with Cons.IH [of "es\<lparr>es_switch := Some s\<rparr>"] Cons.prems show ?thesis
      by (auto intro: eval_state_eval_actions_eval_includes.switch simp: run_keeps_upd)
  next
    case (Stop t)
    with Cons.prems show ?thesis
      by (cases t) (auto intro: stop_return stop_all run_keeps_refl)
  next
    case (Include subs)
    with include_loop_ok [OF assms(1), of subs es] Cons.prems obtain es1 k where
      i: "include_loop rec subs occ es = Some (occ, es1, k)"
      "eval_includes acts (active occ) subs es es1 k" "run_keeps sr es es1"
      by auto
    show ?thesis
    proof (cases k)
      case True
      with i Cons.IH [of es1] Cons.prems run_keeps_wf obtain es' ex where
        "actions_loop rec as occ es1 = Some (occ, es', ex)"
        "eval_actions acts (active occ) as es1 es' ex" "run_keeps sr es1 es'"
        by force
      with True i Include show ?thesis by (auto intro: incl_on run_keeps_trans)
    next
      case False
      with i Include show ?thesis by (auto intro: incl_stop)
    qed
  qed
qed

lemma rules_loop_ok:
  assumes "call_ok sr acts rec occ" "rules_wf sr" "match_total sr matchp"
    "list_all (\<lambda>r. r < length (sr_rules sr)) rs" "engine_wf sr es"
  shows "\<exists>es' ex. rules_loop rec sr matchp rs occ es = Some (occ, es', ex) \<and>
    eval_actions acts (active occ)
      (concat (map (\<lambda>r. rule_actions (sr_rules sr ! r)) (filter (\<lambda>r. matchp r = Some True) rs))) es es' ex \<and>
    run_keeps sr es es'"
  using assms(4,5)
proof (induction rs arbitrary: es)
  case Nil
  then show ?case by (auto intro: finished run_keeps_refl)
next
  case (Cons r rs)
  then have r: "r < length (sr_rules sr)" by simp
  with assms(3) obtain b where "matchp r = Some b" unfolding match_total_def by auto
  then consider "matchp r = Some False" | "matchp r = Some True" by (cases b) auto
  then show ?case
  proof cases
    case 1
    with Cons show ?thesis by auto
  next
    case 2
    from actions_loop_ok [OF assms(1) rules_wf_rule [OF assms(2) r] Cons.prems(2)] obtain es1 ex1 where
      a: "actions_loop rec (rule_actions (sr_rules sr ! r)) occ es = Some (occ, es1, ex1)"
      "eval_actions acts (active occ) (rule_actions (sr_rules sr ! r)) es es1 ex1" "run_keeps sr es es1"
      by blast
    show ?thesis
    proof (cases ex1)
      case LoopEnd
      with a Cons.IH [of es1] Cons.prems run_keeps_wf obtain es' ex where
        "rules_loop rec sr matchp rs occ es1 = Some (occ, es', ex)"
        "eval_actions acts (active occ)
          (concat (map (\<lambda>r. rule_actions (sr_rules sr ! r)) (filter (\<lambda>r. matchp r = Some True) rs))) es1 es' ex"
        "run_keeps sr es1 es'"
        by force
      with LoopEnd a 2 r show ?thesis by (auto intro: eval_actions_append run_keeps_trans)
    qed (use a 2 r in \<open>auto intro: eval_actions_append_stop\<close>)
  qed
qed

lemma active_upd: "ix < length occ \<Longrightarrow> active (occ[ix := True]) = insert ix (active occ)"
  by (auto simp: active_def nth_list_update)

lemma count_False_upd:
  "ix < length occ \<Longrightarrow> \<not> occ ! ix \<Longrightarrow> count_list (occ[ix := True]) False < count_list occ False"
proof (induction occ arbitrary: ix)
  case (Cons b occ)
  then show ?case by (cases ix) auto
qed simp

lemma apply_rules_impl_ok:
  assumes "rules_wf sr" "group_ok grp" "match_total sr matchp"
    "length occ = length (sr_states sr)" "count_list occ False < fuel"
  shows "call_ok sr (matched_actions sr grp matchp) (apply_rules_impl fuel sr grp matchp) occ"
  using assms(4,5)
proof (induction fuel arbitrary: occ)
  case (Suc fuel)
  let ?acts = "matched_actions sr grp matchp"
  show ?case
    unfolding call_ok_def
  proof (intro allI impI)
    fix ix es
    assume ix: "ix < length (sr_states sr)" and es: "engine_wf sr es"
    show "\<exists>es' k. apply_rules_impl (Suc fuel) sr grp matchp occ ix es = Some (occ, es', k) \<and>
        eval_state ?acts (active occ) ix es es' k \<and> run_keeps sr es es'"
    proof (cases "occ ! ix")
      case True
      with ix es Suc.prems show ?thesis by (auto intro: already run_keeps_refl simp: active_def)
    next
      case False
      let ?occ = "occ[ix := True]"
      have "call_ok sr ?acts (apply_rules_impl fuel sr grp matchp) ?occ"
        using Suc.IH [of ?occ] count_False_upd [of ix occ] False ix Suc.prems by simp
      moreover have "list_all (\<lambda>r. r < length (sr_rules sr)) (grp (sr_states sr ! ix))"
        using rules_wf_group [OF assms(1) ix] assms(2) unfolding list_all_iff group_ok_def by blast
      ultimately obtain es' ex where
        "rules_loop (apply_rules_impl fuel sr grp matchp) sr matchp (grp (sr_states sr ! ix)) ?occ es =
           Some (?occ, es', ex)"
        "eval_actions ?acts (active ?occ) (?acts ix) es es' ex" "run_keeps sr es es'"
        using rules_loop_ok [OF _ assms(1,3) _ es] matched_actions_def [of sr grp matchp ix] by metis
      moreover have "occ[ix := False] = occ"
        using False ix Suc.prems list_update_id [of occ ix] by simp
      moreover have "ix \<notin> active occ"
        using False by (simp add: active_def)
      ultimately show ?thesis
        using False ix Suc.prems active_upd [of ix occ]
        by (auto intro!: enter)
    qed
  qed
qed simp

lemma count_list_replicate_le: "count_list (replicate n False) False < Suc n"
  by (induction n) auto

lemma apply_rules_eval:
  assumes "rules_wf sr" "group_ok grp" "match_total sr matchp" "engine_wf sr es"
  shows "\<exists>es' k. apply_rules sr grp matchp es = Some es' \<and>
    eval_state (matched_actions sr grp matchp) {} (es_state es) es es' k \<and> run_keeps sr es es'"
proof -
  let ?occ = "replicate (length (sr_states sr)) False"
  have "active ?occ = {}"
    by (auto simp: active_def)
  moreover have "call_ok sr (matched_actions sr grp matchp)
      (apply_rules_impl (Suc (length (sr_states sr))) sr grp matchp) ?occ"
    by (rule apply_rules_impl_ok [OF assms(1-3)]) (simp_all add: count_list_replicate_le)
  moreover have "es_state es < length (sr_states sr)"
    using assms(4) by (simp add: engine_wf_def)
  ultimately obtain es' k where
    "apply_rules_impl (Suc (length (sr_states sr))) sr grp matchp ?occ (es_state es) es = Some (?occ, es', k)"
    "eval_state (matched_actions sr grp matchp) {} (es_state es) es es' k" "run_keeps sr es es'"
    using assms(4) unfolding call_ok_def by metis
  then show ?thesis by (auto simp: apply_rules_def)
qed

lemma group_ok_simps [simp]: "group_ok st_files" "group_ok st_siblings"
  by (auto simp: group_ok_def)

lemma match_total_file [simp]: "match_total sr (file_rule_matches rx_match sr path name data)"
  by (simp add: match_total_def file_rule_matches_def)

lemma match_total_matched [simp]:
  "length (sr_rules sr) \<le> length ms \<Longrightarrow> match_total sr (matched_at ms)"
  by (simp add: match_total_def matched_at_def)

text \<open>The invariants of the three handles: well-formed rules, and indices in range.\<close>

lemma dir_engine_file_ok:
  assumes "rules_wf (de_rules de)" "engine_wf (de_rules de) (de_state de)"
  shows "\<exists>fe. dir_engine_file rx_match de file = Some fe \<and> fe_rules fe = de_rules de \<and>
    engine_wf (fe_rules fe) (fe_state fe) \<and>
    es_path (fe_state fe) = es_path (de_state de) @ ''/'' @ to_string_lossy (fst file)"
proof -
  let ?es = "apply_switch (push_dir (to_string_lossy (fst file)) (de_state de))"
  obtain es' k where "apply_rules (de_rules de) st_files
      (file_rule_matches rx_match (de_rules de) (es_path ?es) (to_string_lossy (fst file)) (snd file))
      (?es\<lparr>es_path := []\<rparr>) = Some es'" "run_keeps (de_rules de) (?es\<lparr>es_path := []\<rparr>) es'"
    using apply_rules_eval [OF assms(1) group_ok_simps(1) match_total_file] assms(2)
    by (metis apply_switch_wf engine_wf_simps(3) push_dir_wf)
  then show ?thesis
    by (auto simp: dir_engine_file_def run_keeps_def Let_def apply_switch_def push_dir_def split: option.splits)
qed

lemma builder_build_ok:
  assumes "rules_wf (db_rules db)" "engine_wf (db_rules db) (db_state db)"
    "length (db_rules_matched db) = length (sr_rules (db_rules db))"
  shows "\<exists>de. builder_build db = Some de \<and> de_rules de = db_rules db \<and>
    engine_wf (de_rules de) (de_state de) \<and> es_path (de_state de) = es_path (db_state db)"
proof -
  obtain es' k where "apply_rules (db_rules db) st_siblings (matched_at (db_rules_matched db)) (db_state db) = Some es'"
    "run_keeps (db_rules db) (db_state db) es'"
    using apply_rules_eval [OF assms(1) group_ok_simps(2) match_total_matched assms(2)] assms(3)
    by (metis order_refl)
  then show ?thesis
    by (auto simp: builder_build_def run_keeps_def apply_switch_wf apply_switch_def engine_wf_def split: option.splits)
qed

lemma builder_contains_nth:
  assumes "length (db_rules_matched db) = length (sr_rules (db_rules db))"
  shows "\<exists>db'. builder_contains rx_match file db = Some db' \<and> db_rules db' = db_rules db \<and>
    db_state db' = db_state db \<and> length (db_rules_matched db') = length (sr_rules (db_rules db)) \<and>
    (\<forall>i < length (sr_rules (db_rules db)).
      db_rules_matched db' ! i \<longleftrightarrow> db_rules_matched db ! i \<or>
        rule_matches rx_match (sr_rules (db_rules db) ! i)
          (es_path (db_state db) @ ''/'' @ to_string_lossy (fst file)) (to_string_lossy (fst file)) (snd file))"
  using assms by (auto simp: builder_contains_def Let_def)

section \<open>The interface of the engine\<close>

text \<open>
  What the tree walk relies on: each call succeeds on handles that satisfy their invariant and
  gives such a handle, whatever files are shown to the builder, and the path grows by the name
  of the file.
\<close>

locale rules_engine =
  fixes file_of :: "'d \<Rightarrow> os_string \<times> file_data \<Rightarrow> 'f option"
    and subdir_of :: "'f \<Rightarrow> 'b"
    and contains_of :: "os_string \<times> file_data \<Rightarrow> 'b \<Rightarrow> 'b option"
    and build_of :: "'b \<Rightarrow> 'd option"
    and ok_d :: "'d \<Rightarrow> bool" and ok_f :: "'f \<Rightarrow> bool" and ok_b :: "'b \<Rightarrow> bool"
    and path_d :: "'d \<Rightarrow> string" and path_f :: "'f \<Rightarrow> string" and path_b :: "'b \<Rightarrow> string"
  assumes file_law: "ok_d d \<Longrightarrow> \<exists>f. file_of d x = Some f \<and> ok_f f \<and>
      path_f f = path_d d @ ''/'' @ to_string_lossy (fst x)"
    and subdir_law: "ok_f f \<Longrightarrow> ok_b (subdir_of f) \<and> path_b (subdir_of f) = path_f f"
    and contains_law: "ok_b b \<Longrightarrow> \<exists>b'. contains_of x b = Some b' \<and> ok_b b' \<and> path_b b' = path_b b"
    and build_law: "ok_b b \<Longrightarrow> \<exists>d. build_of b = Some d \<and> ok_d d \<and> path_d d = path_b b"
begin

lemma contains_all_total:
  "ok_b b \<Longrightarrow> \<exists>b'. contains_all contains_of xs b = Some b' \<and> ok_b b' \<and> path_b b' = path_b b"
proof (induction xs arbitrary: b)
  case (Cons x xs)
  from contains_law [OF Cons.prems, of x] obtain b1 where
    "contains_of x b = Some b1" "ok_b b1" "path_b b1 = path_b b" by blast
  with Cons.IH [of b1] show ?case by auto
qed simp

lemma enter_total:
  "ok_f f \<Longrightarrow> \<exists>d. Option.bind (contains_all contains_of xs (subdir_of f)) build_of = Some d \<and>
     ok_d d \<and> path_d d = path_f f"
  using contains_all_total [of "subdir_of f" xs] subdir_law [of f] build_law by fastforce

lemma descend_total:
  "ok_f f \<Longrightarrow> \<exists>f'. Option.bind (Option.bind (contains_all contains_of xs (subdir_of f)) build_of)
       (\<lambda>d. file_of d x) = Some f' \<and> ok_f f' \<and> path_f f' = path_f f @ ''/'' @ to_string_lossy (fst x)"
  using enter_total [of f xs] file_law by fastforce

end

interpretation engine: rules_engine "dir_engine_file rx_match" subdir "builder_contains rx_match"
    builder_build "dir_engine_ok sr" "file_engine_ok sr" "builder_ok sr"
    "\<lambda>d. es_path (de_state d)" "\<lambda>f. es_path (fe_state f)" "\<lambda>b. es_path (db_state b)"
  for rx_match :: "'rx \<Rightarrow> string \<Rightarrow> bool" and sr :: "'rx sync_rules"
proof unfold_locales
  fix d :: "'rx dir_engine" and x
  assume "dir_engine_ok sr d"
  with dir_engine_file_ok [of d rx_match x]
  show "\<exists>f. dir_engine_file rx_match d x = Some f \<and> file_engine_ok sr f \<and>
      es_path (fe_state f) = es_path (de_state d) @ ''/'' @ to_string_lossy (fst x)"
    by (auto simp: dir_engine_ok_def file_engine_ok_def)
next
  fix f :: "'rx file_engine"
  assume "file_engine_ok sr f"
  then show "builder_ok sr (subdir f) \<and> es_path (db_state (subdir f)) = es_path (fe_state f)"
    by (auto simp: file_engine_ok_def builder_ok_def subdir_def)
next
  fix b :: "'rx dir_engine_builder" and x
  assume "builder_ok sr b"
  with builder_contains_nth [of b rx_match x]
  show "\<exists>b'. builder_contains rx_match x b = Some b' \<and> builder_ok sr b' \<and>
      es_path (db_state b') = es_path (db_state b)"
    by (auto simp: builder_ok_def)
next
  fix b :: "'rx dir_engine_builder"
  assume "builder_ok sr b"
  with builder_build_ok [of b]
  show "\<exists>d. builder_build b = Some d \<and> dir_engine_ok sr d \<and> es_path (de_state d) = es_path (db_state b)"
    by (auto simp: builder_ok_def dir_engine_ok_def)
qed

lemma file_engine_new_ok [simp]: "rules_wf sr \<Longrightarrow> file_engine_ok sr (file_engine_new sr)"
  by (simp add: file_engine_ok_def file_engine_new_def engine_state_new_def engine_wf_def rules_wf_def)

lemma walk_engine_ok:
  "file_engine_ok sr fe \<Longrightarrow> \<exists>fe'. walk_engine rx_match levels fe = Some fe' \<and> file_engine_ok sr fe' \<and>
     es_path (fe_state fe') =
       es_path (fe_state fe) @ concat (map (\<lambda>l. ''/'' @ to_string_lossy (fst (snd l))) levels)"
proof (induction levels arbitrary: fe)
  case (Cons l levels)
  obtain fs x where l: "l = (fs, x)" by (cases l)
  from engine.descend_total [OF Cons.prems, of rx_match fs x] obtain fe1 where
    "Option.bind (enter_dir rx_match fs fe) (\<lambda>d. dir_engine_file rx_match d x) = Some fe1"
    "file_engine_ok sr fe1" "es_path (fe_state fe1) = es_path (fe_state fe) @ ''/'' @ to_string_lossy (fst x)"
    unfolding enter_dir_def by blast
  with Cons.IH [of fe1] l show ?case by (fastforce simp: bind_eq_Some_conv)
qed simp

section \<open>Properties\<close>

text \<open>C7. The interpreter does what the README says of the actions: on well-formed rules it
  returns, and the engine state it leaves is the one the README's reading of
  the matching rules gives, where an included state that is being evaluated is ignored,
  \<open>stop = "return"\<close> ends the current state and \<open>stop = "all"\<close> all of them.\<close>

theorem apply_rules_refines_readme:
  assumes "rules_wf sr" "engine_wf sr es" "match_total sr matchp" "grp = st_files \<or> grp = st_siblings"
  shows "apply_rules sr grp matchp es = Some es' \<longleftrightarrow>
    (\<exists>k. eval_state (matched_actions sr grp matchp) {} (es_state es) es es' k)"
proof -
  have "group_ok grp" using assms(4) by auto
  from apply_rules_eval [OF assms(1) this assms(3,2)] obtain es1 k where
    "apply_rules sr grp matchp es = Some es1"
    "eval_state (matched_actions sr grp matchp) {} (es_state es) es es1 k" by blast
  then show ?thesis using eval_deterministic(1) by (metis option.inject)
qed

theorem apply_rules_refines_readme_witness:
  "\<exists>k. eval_state (matched_actions demo_rules st_files (\<lambda>r. Some (r = 0 \<or> r = 3))) {} 0 (engine_state_new 0)
     ((engine_state_new 0)\<lparr>es_mode := \<lparr>inbound = half_all On, outbound = half_all On\<rparr>, es_trust := False\<rparr>) k"
proof -
  have w: "rules_wf demo_rules" "engine_wf demo_rules (engine_state_new 0)"
    "match_total demo_rules (\<lambda>r. Some (r = 0 \<or> r = 3))"
    by (simp_all add: rules_wf_def demo_rules_def engine_wf_def engine_state_new_def match_total_def)
  have "apply_rules demo_rules st_files (\<lambda>r. Some (r = 0 \<or> r = 3)) (engine_state_new 0) =
    Some ((engine_state_new 0)\<lparr>es_mode := \<lparr>inbound = half_all On, outbound = half_all On\<rparr>, es_trust := False\<rparr>)"
    by (simp add: apply_rules_def demo_rules_def engine_state_new_def numeral_2_eq_2)
  with apply_rules_refines_readme [OF w disjI1 [OF refl]] show ?thesis
    by (simp add: engine_state_new_def)
qed

text \<open>C8. On well-formed rules no sequence of calls to the engine panics: descending from the root
  through any directories, with any files shown to the sibling rules on the way, gives an engine
  for the last file, whose path is the names on the way, each after a slash.\<close>

theorem engine_never_panics:
  assumes "rules_wf sr"
  shows "\<exists>fe. walk_engine rx_match levels (file_engine_new sr) = Some fe \<and>
    es_path (fe_state fe) = concat (map (\<lambda>l. ''/'' @ to_string_lossy (fst (snd l))) levels)"
  using walk_engine_ok [OF file_engine_new_ok [OF assms], of rx_match levels]
  by (auto simp: file_engine_new_def engine_state_new_def)

theorem engine_never_panics_witness:
  "rules_wf demo_rules \<and>
   (\<exists>fe. walk_engine (=) [([(''.git'', Directory 0)], ''y'', Directory 0), ([], ''x'', Special)]
      (file_engine_new demo_rules) = Some fe)"
  using engine_never_panics [of demo_rules "(=)" "[([(''.git'', Directory 0)], ''y'', Directory 0), ([], ''x'', Special)]"]
  by (auto simp: rules_wf_def demo_rules_def)

text \<open>C9. The sibling rules see the directory as a set: whatever the order in which the files are
  shown, a rule counts as matched iff one of the files satisfies all its conditions.\<close>

theorem siblings_matched_iff:
  assumes "contains_all (builder_contains rx_match) fs (subdir fe) = Some db" "i < length (sr_rules (fe_rules fe))"
  shows "db_rules_matched db ! i \<longleftrightarrow>
    (\<exists>f \<in> set fs. rule_matches rx_match (sr_rules (fe_rules fe) ! i)
       (es_path (fe_state fe) @ ''/'' @ to_string_lossy (fst f)) (to_string_lossy (fst f)) (snd f))"
proof -
  have "\<lbrakk>contains_all (builder_contains rx_match) fs b = Some db; db_rules b = fe_rules fe; db_state b = fe_state fe;
      length (db_rules_matched b) = length (sr_rules (fe_rules fe))\<rbrakk> \<Longrightarrow>
    db_rules_matched db ! i \<longleftrightarrow> db_rules_matched b ! i \<or>
    (\<exists>f \<in> set fs. rule_matches rx_match (sr_rules (fe_rules fe) ! i)
       (es_path (fe_state fe) @ ''/'' @ to_string_lossy (fst f)) (to_string_lossy (fst f)) (snd f))" for b
  proof (induction fs arbitrary: b)
    case (Cons f fs)
    with builder_contains_nth [of b rx_match f] assms(2) show ?case by (fastforce simp: bind_eq_Some_conv)
  qed simp
  from this [of "subdir fe"] assms show ?thesis by (simp add: subdir_def)
qed

theorem siblings_matched_iff_witness:
  "contains_all (builder_contains (=)) [(''a'', Special), (''.git'', Directory 0)] (subdir (file_engine_new demo_rules)) =
     Some \<lparr>db_rules = demo_rules, db_state = engine_state_new 0, db_rules_matched = [True, False, True, False]\<rparr> \<and>
   (\<exists>f \<in> set [(''a'', Special), (''.git'', Directory 0)]. rule_matches (=) (sr_rules demo_rules ! 2)
     (''/'' @ to_string_lossy (fst f)) (to_string_lossy (fst f)) (snd f))"
  (is "?run \<and> _")
proof -
  have r: ?run by code_simp
  have "sr_rules (fe_rules (file_engine_new demo_rules)) = sr_rules demo_rules"
    "es_path (fe_state (file_engine_new demo_rules)) = []"
    by (simp_all add: file_engine_new_def engine_state_new_def)
  with siblings_matched_iff [OF r, of 2] r show ?thesis
    by (simp add: demo_rules_def)
qed

end
