(* ===== verification/Rules_Parse.thy ===== *)
theory Rules_Parse
  imports Rules_Engine
begin

text \<open>
  The parser of the rules configuration, \<open>SyncRules::parse\<close> and its helpers in
  \<open>src/rules/engine.rs\<close>: it numbers the states, reads every rule with its conditions and
  actions, and rejects a configuration with a state that no rule leads to.

  The input is the value the \<open>toml\<close> crate gives; a table is the list of its entries in the
  table's order. Compiling a regular expression is the parameter \<open>regex_new\<close>, with the text
  of its error. The iteration over the hash map of state indices, whose order is unspecified, is
  the parameter \<open>hash_iter\<close>.

  The lemmas show that the parser never panics, that what it accepts is well-formed for the
  engine, and that its marking loop computes exactly the states reachable from the root.
\<close>

section \<open>Definitions\<close>

subsection \<open>Configuration values and errors\<close>

datatype toml =
    TString string
  | TInteger "64 word"
  | TFloat
  | TBoolean bool
  | TDatetime
  | TArray "toml list"
  | TTable "(string \<times> toml) list"

record error_location =
  el_section :: string
  el_ix :: nat
  el_field :: string

definition location_display :: "error_location \<Rightarrow> string" where
  "location_display loc =
     ''section '' @ el_section loc @ '', rule #'' @ fmt_dec (el_ix loc + 1) @ '', field '' @ el_field loc"

datatype rule_error =
    BadRegex error_location string
  | BadMode error_location string sync_mode_parse_error
  | BadStateReference error_location string
  | BadStopType error_location string
  | InvalidRuleConfig error_location string
  | NoRootState
  | NotATable string
  | NotAnArray string
  | WrongType error_location string
  | InvalidRulesGroup string string
  | FileSizeOutOfRange error_location "64 word"
  | UnreachableState string

definition quoted :: "string \<Rightarrow> string" where
  "quoted s = [CHR 0x27] @ s @ [CHR 0x27]"

definition fmt_i64 :: "64 word \<Rightarrow> string" where
  "fmt_i64 i = (if sint i < 0 then ''-'' @ fmt_dec (nat (- sint i)) else fmt_dec (nat (sint i)))"

fun rule_error_display :: "rule_error \<Rightarrow> string" where
  "rule_error_display (BadRegex loc e) = ''Bad regex in '' @ location_display loc @ '': '' @ e"
| "rule_error_display (BadMode loc orig e) =
     ''Invalid mode '' @ quoted orig @ '' in '' @ location_display loc @ '': '' @ parse_error_message e"
| "rule_error_display (BadStateReference loc target) =
     ''Bad reference to non-existent state '' @ quoted target @ '' in '' @ location_display loc"
| "rule_error_display (BadStopType loc what) =
     ''Bad '' @ quoted ''stop'' @ '' type '' @ quoted (location_display loc) @ '' in '' @ what"
| "rule_error_display (InvalidRuleConfig loc field) =
     ''Invalid field '' @ field @ '' in '' @ location_display loc"
| "rule_error_display NoRootState = ''No '' @ quoted ''root'' @ '' rules state defined''"
| "rule_error_display (NotATable key) =
     ''Config key '' @ quoted key @ '' should be a table, but isn'' @ [CHR 0x27] @ ''t''"
| "rule_error_display (NotAnArray key) =
     ''Config key '' @ quoted key @ '' should be a array, but isn'' @ [CHR 0x27] @ ''t''"
| "rule_error_display (WrongType loc expected) =
     ''Non-'' @ expected @ '' found where '' @ expected @ '' expected in '' @ location_display loc"
| "rule_error_display (InvalidRulesGroup st grp) =
     ''Invalid rules-group name in state '' @ quoted st @ '': '' @ quoted grp"
| "rule_error_display (FileSizeOutOfRange loc i) =
     ''Size '' @ fmt_i64 i @ '' is out of file size range, in '' @ location_display loc"
| "rule_error_display (UnreachableState path) =
     ''Unreachable state: '' @ path @
     '' (maybe a typo or you forgot to create a rule leading to this state?)''"

subsection \<open>Reading one field\<close>

type_synonym state_indices = "(string \<times> nat) list"

fun convert_bool :: "toml \<Rightarrow> error_location \<Rightarrow> rule_error + bool" where
  "convert_bool (TBoolean r) loc = Inr r"
| "convert_bool _ loc = Inl (WrongType loc ''boolean'')"

fun parse_regex :: "(string \<Rightarrow> string + 'rx) \<Rightarrow> toml \<Rightarrow> error_location \<Rightarrow> rule_error + 'rx" where
  "parse_regex regex_new (TString s) loc =
     (case regex_new s of Inl e \<Rightarrow> Inl (BadRegex loc e) | Inr rx \<Rightarrow> Inr rx)"
| "parse_regex regex_new _ loc = Inl (WrongType loc ''string'')"

text \<open>\<open>i as FileSize as i64\<close>: both casts keep the 64 bits.\<close>

fun parse_file_size :: "toml \<Rightarrow> error_location \<Rightarrow> rule_error + file_size" where
  "parse_file_size (TInteger i) loc =
     (if 0 \<le> sint i \<and> i = ucast (ucast i :: file_size) then Inr (ucast i)
      else Inl (FileSizeOutOfRange loc i))"
| "parse_file_size _ loc = Inl (WrongType loc ''integer'')"

fun parse_mode :: "toml \<Rightarrow> error_location \<Rightarrow> rule_error + sync_mode" where
  "parse_mode (TString s) loc =
     (case sync_mode_from_str s of Inl e \<Rightarrow> Inl (BadMode loc s e) | Inr m \<Rightarrow> Inr m)"
| "parse_mode _ loc = Inl (WrongType loc ''string'')"

fun parse_state_ref :: "toml \<Rightarrow> error_location \<Rightarrow> state_indices \<Rightarrow> rule_error + nat" where
  "parse_state_ref (TString s) loc ixs =
     (case map_of ixs s of Some ix \<Rightarrow> Inr ix | None \<Rightarrow> Inl (BadStateReference loc s))"
| "parse_state_ref _ loc ixs = Inl (WrongType loc ''string'')"

fun parse_state_ref_list :: "toml \<Rightarrow> error_location \<Rightarrow> state_indices \<Rightarrow> rule_error + nat list" where
  "parse_state_ref_list (TString s) loc ixs =
     result_bind (parse_state_ref (TString s) loc ixs) (\<lambda>i. Inr [i])"
| "parse_state_ref_list (TArray elts) loc ixs = result_map (\<lambda>elt. parse_state_ref elt loc ixs) elts"
| "parse_state_ref_list _ loc ixs = Inl (WrongType loc ''string-or-array'')"

fun parse_stop_type :: "toml \<Rightarrow> error_location \<Rightarrow> rule_error + stop_type" where
  "parse_stop_type (TString s) loc =
     (if s = ''all'' then Inr StopAll
      else if s = ''return'' then Inr StopReturn
      else Inl (BadStopType loc s))"
| "parse_stop_type _ loc = Inl (WrongType loc ''string'')"

subsection \<open>Reading a rule, a group, a state\<close>

fun action_key :: "action \<Rightarrow> nat" where
  "action_key (Mode _) = 0"
| "action_key (TrustClientUnixMode _) = 1"
| "action_key (Include _) = 2"
| "action_key (Switch _) = 3"
| "action_key (Stop _) = 4"

definition push_condition :: "'rx condition \<Rightarrow> 'rx rule \<Rightarrow> 'rx rule" where
  "push_condition c r = r\<lparr>rule_conditions := rule_conditions r @ [c]\<rparr>"

definition push_action :: "action \<Rightarrow> 'rx rule \<Rightarrow> 'rx rule" where
  "push_action a r = r\<lparr>rule_actions := rule_actions r @ [a]\<rparr>"

definition parse_element ::
  "(string \<Rightarrow> string + 'rx) \<Rightarrow> state_indices \<Rightarrow> nat \<Rightarrow> string \<Rightarrow> string \<Rightarrow> toml \<Rightarrow> 'rx rule \<Rightarrow> rule_error + 'rx rule" where
  "parse_element regex_new ixs ref_ix path e_name e_val r =
     (let loc = \<lparr>el_section = path, el_ix = ref_ix, el_field = e_name\<rparr>;
          rx = parse_regex regex_new e_val loc
      in if e_name = ''name'' then result_bind rx (\<lambda>x. Inr (push_condition (Name x) r))
         else if e_name = ''path'' then result_bind rx (\<lambda>x. Inr (push_condition (Path x) r))
         else if e_name = ''permissions'' then result_bind rx (\<lambda>x. Inr (push_condition (Permissions x) r))
         else if e_name = ''type'' then result_bind rx (\<lambda>x. Inr (push_condition (Type x) r))
         else if e_name = ''target'' then result_bind rx (\<lambda>x. Inr (push_condition (Target x) r))
         else if e_name = ''bigger'' then
           result_bind (parse_file_size e_val loc) (\<lambda>x. Inr (push_condition (Bigger x) r))
         else if e_name = ''smaller'' then
           result_bind (parse_file_size e_val loc) (\<lambda>x. Inr (push_condition (Smaller x) r))
         else if e_name = ''mode'' then
           result_bind (parse_mode e_val loc) (\<lambda>x. Inr (push_action (Mode x) r))
         else if e_name = ''trust_client_unix_mode'' then
           result_bind (convert_bool e_val loc) (\<lambda>x. Inr (push_action (TrustClientUnixMode x) r))
         else if e_name = ''include'' then
           result_bind (parse_state_ref_list e_val loc ixs) (\<lambda>x. Inr (push_action (Include x) r))
         else if e_name = ''switch'' then
           result_bind (parse_state_ref e_val loc ixs) (\<lambda>x. Inr (push_action (Switch x) r))
         else if e_name = ''stop'' then
           result_bind (parse_stop_type e_val loc) (\<lambda>x. Inr (push_action (Stop x) r))
         else Inl (InvalidRuleConfig loc e_name))"

fun parse_elements ::
  "(string \<Rightarrow> string + 'rx) \<Rightarrow> state_indices \<Rightarrow> nat \<Rightarrow> string \<Rightarrow> (string \<times> toml) list \<Rightarrow> 'rx rule \<Rightarrow> rule_error + 'rx rule" where
  "parse_elements regex_new ixs ref_ix path [] r = Inr r"
| "parse_elements regex_new ixs ref_ix path ((e_name, e_val) # es) r =
     result_bind (parse_element regex_new ixs ref_ix path e_name e_val r)
       (parse_elements regex_new ixs ref_ix path es)"

text \<open>\<open>self\<close> is threaded through; an error discards it.\<close>

fun parse_rule ::
  "(string \<Rightarrow> string + 'rx) \<Rightarrow> state_indices \<Rightarrow> toml \<Rightarrow> nat \<Rightarrow> string \<Rightarrow> 'rx sync_rules \<Rightarrow> rule_error + 'rx sync_rules \<times> nat" where
  "parse_rule regex_new ixs (TTable def) ref_ix path this =
     result_bind (parse_elements regex_new ixs ref_ix path def \<lparr>rule_conditions = [], rule_actions = []\<rparr>) (\<lambda>r.
       Inr (this\<lparr>sr_rules := sr_rules this @ [r\<lparr>rule_actions := sort_key action_key (rule_actions r)\<rparr>]\<rparr>,
            length (sr_rules this)))"
| "parse_rule regex_new ixs _ ref_ix path this =
     Inl (NotATable (path @ '' #'' @ fmt_dec (ref_ix + 1)))"

fun parse_rules ::
  "(string \<Rightarrow> string + 'rx) \<Rightarrow> state_indices \<Rightarrow> nat \<Rightarrow> toml list \<Rightarrow> string \<Rightarrow> 'rx sync_rules \<Rightarrow>
   rule_error + 'rx sync_rules \<times> nat list" where
  "parse_rules regex_new ixs r_ix [] path this = Inr (this, [])"
| "parse_rules regex_new ixs r_ix (def # defs) path this =
     result_bind (parse_rule regex_new ixs def r_ix path this) (\<lambda>(this1, i).
     result_bind (parse_rules regex_new ixs (Suc r_ix) defs path this1) (\<lambda>(this2, is).
       Inr (this2, i # is)))"

fun parse_group ::
  "(string \<Rightarrow> string + 'rx) \<Rightarrow> state_indices \<Rightarrow> toml \<Rightarrow> string \<Rightarrow> 'rx sync_rules \<Rightarrow>
   rule_error + 'rx sync_rules \<times> nat list" where
  "parse_group regex_new ixs (TArray defs) path this = parse_rules regex_new ixs 0 defs path this"
| "parse_group regex_new ixs _ path this = Inl (NotAnArray path)"

text \<open>\<open>self.states[ix].files = \<dots>\<close> panics when \<open>ix\<close> is out of range.\<close>

fun parse_groups ::
  "(string \<Rightarrow> string + 'rx) \<Rightarrow> state_indices \<Rightarrow> (string \<times> toml) list \<Rightarrow> nat \<Rightarrow> string \<Rightarrow> 'rx sync_rules \<Rightarrow>
   (rule_error + 'rx sync_rules) option" where
  "parse_groups regex_new ixs [] ix path this = Some (Inr this)"
| "parse_groups regex_new ixs ((group_name, group_def) # gs) ix path this =
     (if group_name = ''files'' then
        case parse_group regex_new ixs group_def (path @ ''.'' @ group_name) this of
          Inl e \<Rightarrow> Some (Inl e)
        | Inr (this1, rs) \<Rightarrow>
            if ix < length (sr_states this1) then
              parse_groups regex_new ixs gs ix path
                (this1\<lparr>sr_states := (sr_states this1)[ix := (sr_states this1 ! ix)\<lparr>st_files := rs\<rparr>]\<rparr>)
            else None
      else if group_name = ''siblings'' then
        case parse_group regex_new ixs group_def (path @ ''.'' @ group_name) this of
          Inl e \<Rightarrow> Some (Inl e)
        | Inr (this1, rs) \<Rightarrow>
            if ix < length (sr_states this1) then
              parse_groups regex_new ixs gs ix path
                (this1\<lparr>sr_states := (sr_states this1)[ix := (sr_states this1 ! ix)\<lparr>st_siblings := rs\<rparr>]\<rparr>)
            else None
      else Some (Inl (InvalidRulesGroup path group_name)))"

fun parse_state ::
  "(string \<Rightarrow> string + 'rx) \<Rightarrow> state_indices \<Rightarrow> toml \<Rightarrow> nat \<Rightarrow> string \<Rightarrow> 'rx sync_rules \<Rightarrow>
   (rule_error + 'rx sync_rules) option" where
  "parse_state regex_new ixs (TTable def) ix path this = parse_groups regex_new ixs def ix path this"
| "parse_state regex_new ixs _ ix path this = Some (Inl (NotATable path))"

fun parse_states ::
  "(string \<Rightarrow> string + 'rx) \<Rightarrow> state_indices \<Rightarrow> string \<Rightarrow> (string \<times> toml) list \<Rightarrow> 'rx sync_rules \<Rightarrow>
   (rule_error + 'rx sync_rules) option" where
  "parse_states regex_new ixs base_section [] this = Some (Inr this)"
| "parse_states regex_new ixs base_section ((state_name, state_def) # ss) this =
     (case map_of ixs state_name of
        None \<Rightarrow> None
      | Some ix \<Rightarrow>
          case parse_state regex_new ixs state_def ix (base_section @ ''.'' @ state_name) this of
            None \<Rightarrow> None
          | Some (Inl e) \<Rightarrow> Some (Inl e)
          | Some (Inr this1) \<Rightarrow> parse_states regex_new ixs base_section ss this1)"

subsection \<open>Reachability\<close>

fun action_targets :: "action \<Rightarrow> nat list" where
  "action_targets (Include reffed) = reffed"
| "action_targets (Switch reffed) = [reffed]"
| "action_targets _ = []"

fun mark_targets :: "nat list \<Rightarrow> bool list \<times> bool \<Rightarrow> (bool list \<times> bool) option" where
  "mark_targets [] (reachable, keep_going) = Some (reachable, keep_going)"
| "mark_targets (r # rs) (reachable, keep_going) =
     (if r < length reachable then
        mark_targets rs (reachable[r := True], keep_going \<or> \<not> reachable ! r)
      else None)"

fun mark_rules :: "'rx sync_rules \<Rightarrow> nat list \<Rightarrow> bool list \<times> bool \<Rightarrow> (bool list \<times> bool) option" where
  "mark_rules sr [] st = Some st"
| "mark_rules sr (r_ix # rs) st =
     (if r_ix < length (sr_rules sr) then
        Option.bind (mark_targets (concat (map action_targets (rule_actions (sr_rules sr ! r_ix)))) st)
          (mark_rules sr rs)
      else None)"

fun reach_pass :: "'rx sync_rules \<Rightarrow> nat list \<Rightarrow> bool list \<times> bool \<Rightarrow> (bool list \<times> bool) option" where
  "reach_pass sr [] st = Some st"
| "reach_pass sr (i # is) st =
     (if i < length (fst st) \<and> i < length (sr_states sr) then
        if \<not> fst st ! i then reach_pass sr is st
        else Option.bind (mark_rules sr (st_files (sr_states sr ! i) @ st_siblings (sr_states sr ! i)) st)
               (reach_pass sr is)
      else None)"

text \<open>A pass that keeps going has set a flag, so the loop ends.\<close>

lemma count_False_update_le: "count_list (xs[i := True]) False \<le> count_list xs False"
  by (induction xs arbitrary: i) (auto split: nat.splits simp: le_SucI)

lemma count_False_update_less:
  "i < length xs \<Longrightarrow> \<not> xs ! i \<Longrightarrow> count_list (xs[i := True]) False < count_list xs False"
  by (rule count_False_upd)

lemma mark_targets_count:
  "mark_targets rs st = Some st' \<Longrightarrow>
   count_list (fst st') False \<le> count_list (fst st) False \<and>
   (snd st' \<and> \<not> snd st \<longrightarrow> count_list (fst st') False < count_list (fst st) False)"
proof (induction rs st rule: mark_targets.induct)
  case (2 r rs reachable keep_going)
  then show ?case
    using count_False_update_le [of reachable r] count_False_update_less [of r reachable]
    by (fastforce split: if_splits)
qed auto

lemma mark_rules_count:
  "mark_rules sr rs st = Some st' \<Longrightarrow>
   count_list (fst st') False \<le> count_list (fst st) False \<and>
   (snd st' \<and> \<not> snd st \<longrightarrow> count_list (fst st') False < count_list (fst st) False)"
proof (induction sr rs st rule: mark_rules.induct)
  case (2 sr r_ix rs st)
  then obtain st1 where
    "mark_targets (concat (map action_targets (rule_actions (sr_rules sr ! r_ix)))) st = Some st1"
    "mark_rules sr rs st1 = Some st'" "r_ix < length (sr_rules sr)"
    by (auto split: if_splits simp: bind_eq_Some_conv)
  with 2 mark_targets_count show ?case by (smt (verit) le_less_trans less_le_trans order_trans)
qed simp

lemma reach_pass_count:
  "reach_pass sr is st = Some st' \<Longrightarrow>
   count_list (fst st') False \<le> count_list (fst st) False \<and>
   (snd st' \<and> \<not> snd st \<longrightarrow> count_list (fst st') False < count_list (fst st) False)"
proof (induction sr "is" st rule: reach_pass.induct)
  case (2 sr i "is" st)
  show ?case
  proof (cases "fst st ! i")
    case True
    with 2 obtain st1 where
      "mark_rules sr (st_files (sr_states sr ! i) @ st_siblings (sr_states sr ! i)) st = Some st1"
      "reach_pass sr is st1 = Some st'" "i < length (fst st)" "i < length (sr_states sr)"
      by (auto split: if_splits simp: bind_eq_Some_conv)
    with True 2 mark_rules_count show ?thesis by (smt (verit) le_less_trans less_le_trans order_trans)
  next
    case False
    with 2 show ?thesis by (auto split: if_splits)
  qed
qed simp

function reach_loop :: "'rx sync_rules \<Rightarrow> bool list \<Rightarrow> bool list option" where
  "reach_loop sr reachable =
     (case reach_pass sr [0..<length (sr_states sr)] (reachable, False) of
        None \<Rightarrow> None
      | Some (reachable', keep_going) \<Rightarrow>
          if keep_going then reach_loop sr reachable' else Some reachable')"
  by pat_completeness auto
termination
proof (relation "measure (\<lambda>(sr, reachable). count_list reachable False)", goal_cases)
  case (2 sr reachable p reachable' kg)
  then show ?case using reach_pass_count [of sr _ "(reachable, False)" p] by auto
qed simp

declare reach_loop.simps [simp del]

subsection \<open>The whole configuration\<close>

definition number_states :: "(string \<times> toml) list \<Rightarrow> state_indices" where
  "number_states rules = zip (map fst rules) [0..<length rules]"

definition parse ::
  "(string \<Rightarrow> string + 'rx) \<Rightarrow> (state_indices \<Rightarrow> state_indices) \<Rightarrow> (string \<times> toml) list \<Rightarrow> string \<Rightarrow>
   (rule_error + 'rx sync_rules) option" where
  "parse regex_new hash_iter rules base_section =
     (let ixs = number_states rules;
          states = replicate (length rules) \<lparr>st_files = [], st_siblings = []\<rparr>
      in case map_of ixs ''root'' of
           None \<Rightarrow> Some (Inl NoRootState)
         | Some root_ix \<Rightarrow>
             case parse_states regex_new ixs base_section rules
                    \<lparr>sr_states = states, sr_rules = [], sr_root_ix = root_ix\<rparr> of
               None \<Rightarrow> None
             | Some (Inl e) \<Rightarrow> Some (Inl e)
             | Some (Inr this) \<Rightarrow>
                 Option.bind (reach_loop this ((replicate (length (sr_states this)) False)[sr_root_ix this := True]))
                   (\<lambda>reachable.
                     case find (\<lambda>(name, ix). \<not> reachable ! ix) (hash_iter ixs) of
                       Some (name, _) \<Rightarrow> Some (Inl (UnreachableState (base_section @ ''.'' @ name)))
                     | None \<Rightarrow> Some (Inr this)))"

text \<open>The states a rule of state \<open>i\<close> refers to.\<close>

definition state_refs :: "'rx sync_rules \<Rightarrow> (nat \<times> nat) set" where
  "state_refs sr =
     {(i, j). i < length (sr_states sr) \<and>
        (\<exists>r \<in> set (st_files (sr_states sr ! i) @ st_siblings (sr_states sr ! i)).
         \<exists>a \<in> set (rule_actions (sr_rules sr ! r)). j \<in> set (action_targets a))}"

text \<open>What the parser keeps of the rules it has built: \<open>n\<close> states, references in range, and
  the actions of a rule in the order of evaluation.\<close>

definition ixs_ok :: "nat \<Rightarrow> state_indices \<Rightarrow> bool" where
  "ixs_ok n ixs = list_all (\<lambda>(name, i). i < n) ixs"

definition parse_inv :: "nat \<Rightarrow> nat \<Rightarrow> 'rx sync_rules \<Rightarrow> bool" where
  "parse_inv n ro this =
     (rules_wf this \<and> length (sr_states this) = n \<and> sr_root_ix this = ro \<and>
      list_all (\<lambda>r. sorted (map action_key (rule_actions r))) (sr_rules this))"

text \<open>The states that a list of rules refers to.\<close>

definition rules_targets :: "'rx sync_rules \<Rightarrow> nat list \<Rightarrow> nat set" where
  "rules_targets sr rs = (\<Union>r \<in> set rs. \<Union>a \<in> set (rule_actions (sr_rules sr ! r)). set (action_targets a))"

text \<open>A small configuration for the examples.\<close>

definition demo_config :: "(string \<times> toml) list" where
  "demo_config =
     [(''git'', TTable [(''files'', TArray [TTable [(''mode'', TString ''---/---'')]])]),
      (''root'', TTable
        [(''files'', TArray [TTable [(''stop'', TString ''return''), (''mode'', TString ''cud/cud''), (''bigger'', TInteger 10)]]),
         (''siblings'', TArray [TTable [(''name'', TString ''.git''), (''switch'', TString ''git'')]])])]"

section \<open>Lemmas\<close>

subsection \<open>Parsing builds well-formed rules\<close>

lemma ixs_okD: "ixs_ok n ixs \<Longrightarrow> map_of ixs s = Some i \<Longrightarrow> i < n"
  by (auto simp: ixs_ok_def list_all_iff dest: map_of_SomeD)

lemma parse_state_ref_wf: "parse_state_ref v loc ixs = Inr i \<Longrightarrow> ixs_ok n ixs \<Longrightarrow> i < n"
  by (cases v) (auto split: option.splits dest: ixs_okD)

lemma parse_state_ref_list_wf:
  assumes "parse_state_ref_list v loc ixs = Inr is" "ixs_ok n ixs"
  shows "list_all (\<lambda>i. i < n) is"
proof (cases v)
  case (TArray elts)
  with assms result_map_Inr_set [of "\<lambda>elt. parse_state_ref elt loc ixs" elts "is"] parse_state_ref_wf
  show ?thesis by (fastforce simp: list_all_iff)
qed (use assms parse_state_ref_wf in \<open>auto simp: result_bind_Inr_iff split: option.splits dest: ixs_okD\<close>)

lemma parse_element_wf:
  assumes "parse_element regex_new ixs ref_ix path e_name e_val r = Inr r'" "ixs_ok n ixs"
    "list_all (action_wf n) (rule_actions r)"
  shows "list_all (action_wf n) (rule_actions r')"
  using assms
  by (auto simp: parse_element_def Let_def push_condition_def push_action_def result_bind_Inr_iff
      parse_state_ref_wf parse_state_ref_list_wf split: if_splits)

lemma parse_elements_wf:
  "parse_elements regex_new ixs ref_ix path es r = Inr r' \<Longrightarrow> ixs_ok n ixs \<Longrightarrow>
   list_all (action_wf n) (rule_actions r) \<Longrightarrow> list_all (action_wf n) (rule_actions r')"
proof (induction es arbitrary: r)
  case (Cons e es)
  then show ?case by (cases e) (auto simp: result_bind_Inr_iff dest: parse_element_wf)
qed simp

lemma rules_wf_more_rules:
  "rules_wf this \<Longrightarrow> list_all (action_wf (length (sr_states this))) (rule_actions r) \<Longrightarrow>
   rules_wf (this\<lparr>sr_rules := sr_rules this @ [r]\<rparr>)"
  by (auto simp: rules_wf_def list_all_iff less_Suc_eq)

lemma parse_rule_inv:
  assumes "parse_rule regex_new ixs v ref_ix path this = Inr (this', i)" "ixs_ok n ixs" "parse_inv n ro this"
  shows "parse_inv n ro this' \<and> i < length (sr_rules this') \<and> length (sr_rules this) \<le> length (sr_rules this')"
proof (cases v)
  case (TTable def)
  with assms(1) obtain r where r:
    "parse_elements regex_new ixs ref_ix path def \<lparr>rule_conditions = [], rule_actions = []\<rparr> = Inr r"
    "this' = this\<lparr>sr_rules := sr_rules this @ [r\<lparr>rule_actions := sort_key action_key (rule_actions r)\<rparr>]\<rparr>"
    "i = length (sr_rules this)"
    by (auto simp: result_bind_Inr_iff)
  have "list_all (action_wf n) (rule_actions r)"
    using parse_elements_wf [OF r(1) assms(2)] by simp
  then have "list_all (action_wf n) (sort_key action_key (rule_actions r))"
    by (simp add: list_all_iff)
  with r assms(3) show ?thesis
    by (auto simp: parse_inv_def intro!: rules_wf_more_rules)
qed (use assms in auto)

lemma parse_rules_inv:
  "parse_rules regex_new ixs r_ix defs path this = Inr (this', is) \<Longrightarrow> ixs_ok n ixs \<Longrightarrow> parse_inv n ro this \<Longrightarrow>
   parse_inv n ro this' \<and> list_all (\<lambda>i. i < length (sr_rules this')) is \<and>
   length (sr_rules this) \<le> length (sr_rules this')"
proof (induction defs arbitrary: r_ix this "is")
  case (Cons d defs)
  then obtain this1 i is1 where s:
    "parse_rule regex_new ixs d r_ix path this = Inr (this1, i)"
    "parse_rules regex_new ixs (Suc r_ix) defs path this1 = Inr (this', is1)" "is = i # is1"
    by (auto simp: result_bind_Inr_iff)
  from parse_rule_inv [OF s(1) Cons.prems(2,3)] Cons.IH [OF s(2) Cons.prems(2)] s(3)
  show ?case by auto
qed simp

lemma parse_group_inv:
  "parse_group regex_new ixs v path this = Inr (this', is) \<Longrightarrow> ixs_ok n ixs \<Longrightarrow> parse_inv n ro this \<Longrightarrow>
   parse_inv n ro this' \<and> list_all (\<lambda>i. i < length (sr_rules this')) is"
  by (cases v) (auto dest: parse_rules_inv)

lemma parse_inv_state_upd:
  assumes "parse_inv n ro this" "list_all (\<lambda>i. i < length (sr_rules this)) (st_files st @ st_siblings st)"
  shows "parse_inv n ro (this\<lparr>sr_states := (sr_states this)[ix := st]\<rparr>)"
  using assms set_update_subset_insert [of "sr_states this" ix st]
  by (auto simp: parse_inv_def rules_wf_def list_all_iff)

lemma parse_inv_state:
  "parse_inv n ro this \<Longrightarrow> ix < n \<Longrightarrow>
   list_all (\<lambda>i. i < length (sr_rules this)) (st_files (sr_states this ! ix)) \<and>
   list_all (\<lambda>i. i < length (sr_rules this)) (st_siblings (sr_states this ! ix))"
  by (auto simp: parse_inv_def rules_wf_def list_all_iff)

lemma parse_groups_inv:
  "ixs_ok n ixs \<Longrightarrow> parse_inv n ro this \<Longrightarrow> ix < n \<Longrightarrow>
   (\<exists>e. parse_groups regex_new ixs gs ix path this = Some (Inl e)) \<or>
   (\<exists>this'. parse_groups regex_new ixs gs ix path this = Some (Inr this') \<and> parse_inv n ro this')"
proof (induction gs arbitrary: this)
  case (Cons g gs)
  obtain gn gd where g: "g = (gn, gd)" by (cases g)
  show ?case
  proof (cases "parse_group regex_new ixs gd (path @ ''.'' @ gn) this")
    case (Inl e)
    with g show ?thesis by auto
  next
    case (Inr r)
    obtain this1 rs where r: "r = (this1, rs)" by (cases r)
    from parse_group_inv [of regex_new ixs gd _ this this1 rs n ro] Inr r Cons.prems
    have i: "parse_inv n ro this1" "list_all (\<lambda>i. i < length (sr_rules this1)) rs" by auto
    then have ix: "ix < length (sr_states this1)" using Cons.prems by (simp add: parse_inv_def)
    have
      "parse_inv n ro (this1\<lparr>sr_states := (sr_states this1)[ix := (sr_states this1 ! ix)\<lparr>st_files := rs\<rparr>]\<rparr>)"
      "parse_inv n ro (this1\<lparr>sr_states := (sr_states this1)[ix := (sr_states this1 ! ix)\<lparr>st_siblings := rs\<rparr>]\<rparr>)"
      using i parse_inv_state [OF i(1) Cons.prems(3)] by (simp_all add: parse_inv_state_upd)
    from this [THEN Cons.IH [OF Cons.prems(1) _ Cons.prems(3)]] show ?thesis
      using g Inr r ix by (cases "gn = ''files''"; cases "gn = ''siblings''") auto
  qed
qed simp

lemma parse_states_inv:
  "ixs_ok n ixs \<Longrightarrow> parse_inv n ro this \<Longrightarrow> fst ` set ss \<subseteq> fst ` set ixs \<Longrightarrow>
   (\<exists>e. parse_states regex_new ixs base ss this = Some (Inl e)) \<or>
   (\<exists>this'. parse_states regex_new ixs base ss this = Some (Inr this') \<and> parse_inv n ro this')"
proof (induction ss arbitrary: this)
  case (Cons s ss)
  obtain sn sd where s: "s = (sn, sd)" by (cases s)
  with Cons.prems(3) have "map_of ixs sn \<noteq> None" by (auto simp: map_of_eq_None_iff)
  then obtain ix where ix: "map_of ixs sn = Some ix" by auto
  have "(\<exists>e. parse_state regex_new ixs sd ix (base @ ''.'' @ sn) this = Some (Inl e)) \<or>
    (\<exists>this'. parse_state regex_new ixs sd ix (base @ ''.'' @ sn) this = Some (Inr this') \<and> parse_inv n ro this')"
  proof (cases sd)
    case (TTable def)
    with parse_groups_inv [OF Cons.prems(1,2) ixs_okD [OF Cons.prems(1) ix]] show ?thesis by simp
  qed auto
  then show ?case
  proof (elim disjE exE conjE)
    fix this'
    assume "parse_state regex_new ixs sd ix (base @ ''.'' @ sn) this = Some (Inr this')" "parse_inv n ro this'"
    with Cons.IH [of this'] Cons.prems s ix show ?case by auto
  qed (use s ix in auto)
qed simp

lemma number_states_ok: "ixs_ok (length rules) (number_states rules)"
  by (auto simp: ixs_ok_def number_states_def list_all_iff dest: set_zip_rightD)

lemma fst_number_states: "map fst (number_states rules) = map fst rules"
  by (simp add: number_states_def)

lemma snd_number_states: "snd ` set (number_states rules) = {..<length rules}"
  using map_snd_zip [of "map fst rules" "[0..<length rules]"]
  by (metis atLeast_upt length_map length_upt list.set_map minus_nat.diff_0 number_states_def)

subsection \<open>The marking loop\<close>

lemma mark_targets_spec:
  assumes "list_all (\<lambda>r. r < length re) rs"
  shows "\<exists>re' kg'. mark_targets rs (re, kg) = Some (re', kg') \<and> length re' = length re \<and>
    active re' = active re \<union> set rs \<and> kg' = (kg \<or> \<not> set rs \<subseteq> active re)"
  using assms
proof (induction rs arbitrary: re kg)
  case (Cons r rs)
  then have r: "r < length re" by simp
  from Cons.IH [of "re[r := True]" "kg \<or> \<not> re ! r"] Cons.prems r obtain re' kg' where
    "mark_targets rs (re[r := True], kg \<or> \<not> re ! r) = Some (re', kg')" "length re' = length re"
    "active re' = insert r (active re) \<union> set rs"
    "kg' = (kg \<or> \<not> re ! r \<or> \<not> set rs \<subseteq> insert r (active re))"
    by (auto simp: active_upd)
  moreover have "re ! r \<longleftrightarrow> r \<in> active re" using r by (simp add: active_def)
  ultimately show ?case using r by auto
qed (auto simp: active_def)

lemma action_wf_targets: "action_wf n a \<longleftrightarrow> set (action_targets a) \<subseteq> {..<n}"
  by (cases a) (auto simp: list_all_iff)

lemma mark_rules_spec:
  assumes "rules_wf sr" "list_all (\<lambda>r. r < length (sr_rules sr)) rs" "length re = length (sr_states sr)"
  shows "\<exists>re' kg'. mark_rules sr rs (re, kg) = Some (re', kg') \<and> length re' = length re \<and>
    active re' = active re \<union> rules_targets sr rs \<and> kg' = (kg \<or> \<not> rules_targets sr rs \<subseteq> active re)"
  using assms(2,3)
proof (induction rs arbitrary: re kg)
  case Nil
  then show ?case by (auto simp: rules_targets_def)
next
  case (Cons r rs)
  let ?t = "concat (map action_targets (rule_actions (sr_rules sr ! r)))"
  have "list_all (\<lambda>j. j < length re) ?t"
    using rules_wf_rule [OF assms(1), of r] Cons.prems by (auto simp: list_all_iff action_wf_targets)
  from mark_targets_spec [OF this, of kg] obtain re1 kg1 where
    1: "mark_targets ?t (re, kg) = Some (re1, kg1)" "length re1 = length re"
    "active re1 = active re \<union> set ?t" "kg1 = (kg \<or> \<not> set ?t \<subseteq> active re)" by blast
  from Cons.IH [of re1 kg1] 1 Cons.prems obtain re' kg' where
    2: "mark_rules sr rs (re1, kg1) = Some (re', kg')" "length re' = length re"
    "active re' = active re1 \<union> rules_targets sr rs" "kg' = (kg1 \<or> \<not> rules_targets sr rs \<subseteq> active re1)" by auto
  have "rules_targets sr (r # rs) = set ?t \<union> rules_targets sr rs"
    by (auto simp: rules_targets_def)
  moreover have "mark_rules sr (r # rs) (re, kg) = Some (re', kg')"
    using 1(1) 2(1) Cons.prems by simp
  ultimately show ?case
    using 1(3,4) 2(2-4) by (intro exI [of _ re'] exI [of _ kg'] conjI) (simp_all add: Un_assoc, blast)
qed

lemma state_refs_iff:
  "i < length (sr_states sr) \<Longrightarrow>
   (i, j) \<in> state_refs sr \<longleftrightarrow> j \<in> rules_targets sr (st_files (sr_states sr ! i) @ st_siblings (sr_states sr ! i))"
  by (auto simp: state_refs_def rules_targets_def)

text \<open>One pass: it marks only referenced states, and if it marked none, the marked states among
  the visited ones are closed under references.\<close>

lemma reach_pass_spec:
  assumes "rules_wf sr" "length re = length (sr_states sr)" "list_all (\<lambda>i. i < length (sr_states sr)) is"
  shows "\<exists>re' kg'. reach_pass sr is (re, kg) = Some (re', kg') \<and> length re' = length re \<and>
    active re \<subseteq> active re' \<and> active re' \<subseteq> (state_refs sr)\<^sup>* `` active re \<and>
    (\<not> kg' \<longrightarrow> \<not> kg \<and> active re' = active re \<and> state_refs sr `` (active re \<inter> set is) \<subseteq> active re)"
  using assms(2,3)
proof (induction "is" arbitrary: re kg)
  case (Cons i "is")
  then have i: "i < length re" "i < length (sr_states sr)" by auto
  show ?case
  proof (cases "re ! i")
    case False
    with Cons.IH [of re kg] Cons.prems i show ?thesis by (auto simp: active_def)
  next
    case True
    let ?rs = "st_files (sr_states sr ! i) @ st_siblings (sr_states sr ! i)"
    have rs: "list_all (\<lambda>r. r < length (sr_rules sr)) ?rs"
      using assms(1) i by (auto simp: rules_wf_def list_all_iff)
    from mark_rules_spec [OF assms(1) rs Cons.prems(1), of kg] obtain re1 kg1 where
      1: "mark_rules sr ?rs (re, kg) = Some (re1, kg1)" "length re1 = length re"
      "active re1 = active re \<union> state_refs sr `` {i}" "kg1 = (kg \<or> \<not> state_refs sr `` {i} \<subseteq> active re)"
      using state_refs_iff [OF i(2)] by (metis Image_singleton_iff set_eqI)
    have ai: "i \<in> active re" using True i by (simp add: active_def)
    from Cons.IH [of re1 kg1] 1 Cons.prems obtain re' kg' where
      2: "reach_pass sr is (re1, kg1) = Some (re', kg')" "length re' = length re" "active re1 \<subseteq> active re'"
      "active re' \<subseteq> (state_refs sr)\<^sup>* `` active re1"
      "\<not> kg' \<longrightarrow> \<not> kg1 \<and> active re' = active re1 \<and> state_refs sr `` (active re1 \<inter> set is) \<subseteq> active re1"
      by auto
    have "(state_refs sr)\<^sup>* `` active re1 \<subseteq> (state_refs sr)\<^sup>* `` active re"
      using 1(3) ai by (auto intro: converse_rtrancl_into_rtrancl)
    with 1 2 True i ai show ?thesis by auto
  qed
qed auto

lemma active_upto: "length re = n \<Longrightarrow> active re \<inter> {0..<n} = active re"
  by (auto simp: active_def)

lemma rtrancl_Image_between:
  assumes "A \<subseteq> B" "B \<subseteq> R\<^sup>* `` A"
  shows "R\<^sup>* `` B = R\<^sup>* `` A"
proof
  have "R\<^sup>* `` B \<subseteq> R\<^sup>* `` (R\<^sup>* `` A)"
    using assms(2) by blast
  then show "R\<^sup>* `` B \<subseteq> R\<^sup>* `` A"
    by (simp add: relcomp_Image [symmetric])
qed (use assms(1) in blast)

lemma reach_loop_spec:
  assumes "rules_wf sr" "length re = length (sr_states sr)"
  shows "\<exists>re'. reach_loop sr re = Some re' \<and> length re' = length re \<and>
    active re' = (state_refs sr)\<^sup>* `` active re"
  using assms(2)
proof (induction "count_list re False" arbitrary: re rule: less_induct)
  case less
  let ?is = "[0..<length (sr_states sr)]"
  have "list_all (\<lambda>i. i < length (sr_states sr)) ?is" by (simp add: list_all_iff)
  from reach_pass_spec [OF assms(1) less.prems this, of False] obtain re1 kg where
    p: "reach_pass sr ?is (re, False) = Some (re1, kg)" "length re1 = length re" "active re \<subseteq> active re1"
    "active re1 \<subseteq> (state_refs sr)\<^sup>* `` active re"
    "\<not> kg \<longrightarrow> active re1 = active re \<and> state_refs sr `` (active re \<inter> set ?is) \<subseteq> active re" by blast
  show ?case
  proof (cases kg)
    case True
    with p(1) have "count_list re1 False < count_list re False"
      using reach_pass_count [OF p(1)] by simp
    from less.hyps [OF this] p less.prems obtain re' where
      "reach_loop sr re1 = Some re'" "length re' = length re" "active re' = (state_refs sr)\<^sup>* `` active re1"
      by auto
    moreover have "(state_refs sr)\<^sup>* `` active re1 = (state_refs sr)\<^sup>* `` active re"
      by (rule rtrancl_Image_between [OF p(3,4)])
    ultimately show ?thesis using True p(1) by (subst reach_loop.simps) simp
  next
    case False
    with p(5) less.prems have "state_refs sr `` active re \<subseteq> active re"
      by (simp add: active_upto)
    then have "(state_refs sr)\<^sup>* `` active re = active re"
      using Image_closed_trancl by blast
    with False p show ?thesis by (subst reach_loop.simps) simp
  qed
qed

subsection \<open>The whole parser\<close>

lemma active_root: "r < n \<Longrightarrow> active ((replicate n False)[r := True]) = {r}"
  by (auto simp: active_def nth_list_update)

text \<open>A parse that gets past the states has well-formed rules and the exact marking.\<close>

lemma parse_marking:
  assumes "map_of (number_states rules) ''root'' = Some root"
  shows "(\<exists>e. parse_states regex_new (number_states rules) base rules
        \<lparr>sr_states = replicate (length rules) \<lparr>st_files = [], st_siblings = []\<rparr>, sr_rules = [], sr_root_ix = root\<rparr>
        = Some (Inl e)) \<or>
    (\<exists>this re. parse_states regex_new (number_states rules) base rules
        \<lparr>sr_states = replicate (length rules) \<lparr>st_files = [], st_siblings = []\<rparr>, sr_rules = [], sr_root_ix = root\<rparr>
        = Some (Inr this) \<and> parse_inv (length rules) root this \<and>
      reach_loop this ((replicate (length (sr_states this)) False)[sr_root_ix this := True]) = Some re \<and>
      length re = length rules \<and> active re = (state_refs this)\<^sup>* `` {root})"
proof -
  let ?ini = "\<lparr>sr_states = replicate (length rules) \<lparr>st_files = [], st_siblings = []\<rparr>,
      sr_rules = [], sr_root_ix = root\<rparr> :: 'a sync_rules"
  have root: "root < length rules"
    using ixs_okD [OF number_states_ok assms] .
  then have inv: "parse_inv (length rules) root ?ini"
    by (auto simp: parse_inv_def rules_wf_def list_all_iff)
  have sub: "fst ` set rules \<subseteq> fst ` set (number_states rules)"
    by (metis fst_number_states list.set_map order_refl)
  from parse_states_inv [OF number_states_ok inv sub, of regex_new base] show ?thesis
  proof (elim disjE exE conjE)
    fix this'
    assume t: "parse_states regex_new (number_states rules) base rules ?ini = Some (Inr this')"
      "parse_inv (length rules) root this'"
    then have l: "length (sr_states this') = length rules" "sr_root_ix this' = root" "rules_wf this'"
      by (auto simp: parse_inv_def)
    from reach_loop_spec [OF l(3), of "(replicate (length (sr_states this')) False)[sr_root_ix this' := True]"] l root
    obtain re where "reach_loop this' ((replicate (length (sr_states this')) False)[sr_root_ix this' := True]) = Some re"
      "length re = length rules" "active re = (state_refs this')\<^sup>* `` {root}"
      by (auto simp: active_root)
    with t show ?thesis by blast
  qed blast
qed

lemma find_unreached:
  assumes "set xs = set ixs" "length re = n" "snd ` set ixs = {..<n}"
  shows "(find (\<lambda>(name, ix). \<not> re ! ix) xs = None) = (active re = {..<n})"
proof -
  have "(find (\<lambda>(name, ix). \<not> re ! ix) xs = None) = (\<forall>ix \<in> snd ` set ixs. re ! ix)"
    using assms(1) by (force simp: find_None_iff)
  also have "\<dots> = (active re = {..<n})"
    using assms(2,3) by (auto simp: active_def)
  finally show ?thesis .
qed

section \<open>Properties\<close>

text \<open>C10. The parser never panics, and the rules it accepts are well-formed for the engine: all
  references are in range, the actions of every rule are in the order of evaluation, the initial
  state is the one named \<open>root\<close>, and every state is reachable from it.\<close>

theorem parse_total_and_sound:
  assumes "set (hash_iter (number_states rules)) = set (number_states rules)"
  shows "(\<exists>e. parse regex_new hash_iter rules base = Some (Inl e)) \<or>
    (\<exists>sr. parse regex_new hash_iter rules base = Some (Inr sr) \<and> rules_wf sr \<and>
      length (sr_states sr) = length rules \<and>
      map_of (number_states rules) ''root'' = Some (sr_root_ix sr) \<and>
      list_all (\<lambda>r. sorted (map action_key (rule_actions r))) (sr_rules sr) \<and>
      (state_refs sr)\<^sup>* `` {sr_root_ix sr} = {..<length (sr_states sr)})"
proof (cases "map_of (number_states rules) ''root''")
  case None
  then show ?thesis by (simp add: parse_def Let_def)
next
  case (Some root)
  from parse_marking [OF Some, of regex_new base] show ?thesis
  proof (elim disjE exE conjE)
    fix this' re
    assume a: "parse_states regex_new (number_states rules) base rules
        \<lparr>sr_states = replicate (length rules) \<lparr>st_files = [], st_siblings = []\<rparr>, sr_rules = [], sr_root_ix = root\<rparr>
        = Some (Inr this')" "parse_inv (length rules) root this'"
      "reach_loop this' ((replicate (length (sr_states this')) False)[sr_root_ix this' := True]) = Some re"
      "length re = length rules" "active re = (state_refs this')\<^sup>* `` {root}"
    note f = find_unreached [OF assms a(4) snd_number_states [of rules]]
    show ?thesis
      using a f Some
      by (cases "find (\<lambda>(name, ix). \<not> re ! ix) (hash_iter (number_states rules))")
        (auto simp: parse_def Let_def parse_inv_def)
  qed (simp add: parse_def Let_def Some)
qed

theorem parse_total_and_sound_witness:
  "set (rev (number_states demo_config)) = set (number_states demo_config) \<and>
   (\<exists>sr. parse Inr rev demo_config ''rules'' = Some (Inr sr) \<and> rules_wf (sr :: string sync_rules) \<and>
      (state_refs sr)\<^sup>* `` {sr_root_ix sr} = {..<2})"
proof -
  have "\<not> Option.is_none (parse Inr rev demo_config ''rules'' :: (rule_error + string sync_rules) option)"
    "is_ok (the (parse Inr rev demo_config ''rules'' :: (rule_error + string sync_rules) option))"
    by code_simp+
  moreover have "length demo_config = 2" by (simp add: demo_config_def)
  ultimately show ?thesis
    using parse_total_and_sound [of rev demo_config "Inr :: string \<Rightarrow> string + string" "''rules''"] by auto
qed

text \<open>C11. A configuration is rejected for an unreachable state only if it has one: the named state
  exists and no chain of \<open>include\<close> and \<open>switch\<close> actions of the configured rules leads to
  it from the root.\<close>

theorem unreachable_reported_iff:
  assumes "set (hash_iter (number_states rules)) = set (number_states rules)"
    and "map_of (number_states rules) ''root'' = Some root"
    and "parse_states regex_new (number_states rules) base rules
        \<lparr>sr_states = replicate (length rules) \<lparr>st_files = [], st_siblings = []\<rparr>, sr_rules = [], sr_root_ix = root\<rparr>
        = Some (Inr sr)"
  shows "(\<exists>p. parse regex_new hash_iter rules base = Some (Inl (UnreachableState p))) \<longleftrightarrow>
    (\<exists>i < length rules. (root, i) \<notin> (state_refs sr)\<^sup>*)"
proof -
  from parse_marking [OF assms(2), of regex_new base] assms(3) obtain re where
    r: "parse_inv (length rules) root sr"
    "reach_loop sr ((replicate (length (sr_states sr)) False)[sr_root_ix sr := True]) = Some re"
    "length re = length rules" "active re = (state_refs sr)\<^sup>* `` {root}"
    by auto
  have sub: "active re \<subseteq> {..<length rules}"
    using r(3) by (auto simp: active_def)
  then have "(active re = {..<length rules}) = (\<forall>i < length rules. (root, i) \<in> (state_refs sr)\<^sup>*)"
    using r(4) by auto
  with find_unreached [OF assms(1) r(3) snd_number_states [of rules]] r assms show ?thesis
    by (cases "find (\<lambda>(name, ix). \<not> re ! ix) (hash_iter (number_states rules))")
      (auto simp: parse_def Let_def)
qed

theorem unreachable_reported_iff_witness:
  "parse Inr rev (demo_config @ [(''orphan'', TTable [])]) ''rules'' =
     (Some (Inl (UnreachableState ''rules.orphan'')) :: (rule_error + string sync_rules) option) \<and>
   (\<exists>sr :: string sync_rules. \<exists>i < 3. (1, i) \<notin> (state_refs sr)\<^sup>*)"
  (is "?p \<and> _")
proof -
  let ?c = "demo_config @ [(''orphan'', TTable [])]"
  let ?ps = "parse_states Inr (number_states ?c) ''rules'' ?c
    \<lparr>sr_states = replicate (length ?c) \<lparr>st_files = [], st_siblings = []\<rparr>, sr_rules = [], sr_root_ix = 1\<rparr> ::
      (rule_error + string sync_rules) option"
  have p: ?p by code_simp
  have "\<not> Option.is_none ?ps" "is_ok (the ?ps)" by code_simp+
  then obtain sr where s: "?ps = Some (Inr sr)" by (cases ?ps; cases "the ?ps") auto
  have r: "map_of (number_states ?c) ''root'' = Some 1" by code_simp
  have "length ?c = 3" by (simp add: demo_config_def)
  with unreachable_reported_iff [of rev ?c 1 Inr "''rules''" sr] p s r show ?thesis by auto
qed

end
