(* ===== verification/Work_Stack.thy ===== *)
theory Work_Stack
  imports Ensync_Prelude "HOL-Library.Multiset"
begin

text \<open>
  The work stack of \<open>src/work_stack.rs\<close>: a lock, a condition variable and a LIFO of tasks
  that several threads donate themselves to with \<open>run\<close>. The state is the locked data with
  the program counter of every thread inside \<open>run\<close>; a step is one critical section, so the
  step relation has every interleaving of the threads, including spurious wake-ups of the
  condition variable. Two ghost fields count the tasks that were pushed and that completed.

  The invariant gives the two facts the reconciler needs: \<open>run\<close> returns only when every task
  ever pushed has completed, and the threads never deadlock.
\<close>

section \<open>Definitions\<close>

record 't work_stack_data =
  ws_tasks :: "'t list"
  ws_in_flight :: nat

definition work_stack_new :: "'t work_stack_data" where
  "work_stack_new = \<lparr>ws_tasks = [], ws_in_flight = 0\<rparr>"

text \<open>A thread inside \<open>run\<close>: about to examine the data, calling \<open>f(task)\<close>, waiting on
  the condition variable, or returned.\<close>

datatype 't run_pc = Looping | Running 't | Waiting | Returned

record 't system =
  sys_data :: "'t work_stack_data"
  sys_threads :: "'t run_pc list"
  sys_pushed :: "'t multiset"
  sys_finished :: "'t multiset"

fun wake :: "'t run_pc \<Rightarrow> 't run_pc" where
  "wake Waiting = Looping"
| "wake pc = pc"

text \<open>\<open>push\<close>: the task goes to the end of the vector; \<open>notify_one\<close> wakes a waiting thread
  if there is one, given as \<open>j\<close>.\<close>

definition push :: "'t \<Rightarrow> nat option \<Rightarrow> 't system \<Rightarrow> 't system" where
  "push t j s =
     s\<lparr>sys_data := (sys_data s)\<lparr>ws_tasks := ws_tasks (sys_data s) @ [t]\<rparr>,
       sys_threads := (case j of None \<Rightarrow> sys_threads s | Some j \<Rightarrow> (sys_threads s)[j := Looping]),
       sys_pushed := add_mset t (sys_pushed s)\<rparr>"

text \<open>One pass of the loop of \<open>run\<close> by thread \<open>i\<close>, with the lock held.\<close>

definition run_loop :: "nat \<Rightarrow> 't system \<Rightarrow> 't system" where
  "run_loop i s =
     (let d = sys_data s in
      if ws_tasks d \<noteq> [] then
        s\<lparr>sys_data := \<lparr>ws_tasks = butlast (ws_tasks d), ws_in_flight = ws_in_flight d + 1\<rparr>,
          sys_threads := (sys_threads s)[i := Running (last (ws_tasks d))]\<rparr>
      else if ws_in_flight d > 0 then
        s\<lparr>sys_threads := (sys_threads s)[i := Waiting]\<rparr>
      else
        s\<lparr>sys_threads := map wake ((sys_threads s)[i := Returned])\<rparr>)"

text \<open>\<open>f(task)\<close> has returned: the lock is taken again, the counter decremented and the loop
  goes on.\<close>

definition run_finish :: "nat \<Rightarrow> 't \<Rightarrow> 't system \<Rightarrow> 't system" where
  "run_finish i t s =
     run_loop i
       (s\<lparr>sys_data := (sys_data s)\<lparr>ws_in_flight := ws_in_flight (sys_data s) - 1\<rparr>,
          sys_threads := (sys_threads s)[i := Looping],
          sys_finished := add_mset t (sys_finished s)\<rparr>)"

inductive ws_step :: "'t system \<Rightarrow> 't system \<Rightarrow> bool" where
  loop: "i < length (sys_threads s) \<Longrightarrow> sys_threads s ! i = Looping \<Longrightarrow> ws_step s (run_loop i s)"
| finish: "i < length (sys_threads s) \<Longrightarrow> sys_threads s ! i = Running t \<Longrightarrow> ws_step s (run_finish i t s)"
| push_notify: "i < length (sys_threads s) \<Longrightarrow> sys_threads s ! i = Running t \<Longrightarrow>
    j < length (sys_threads s) \<Longrightarrow> sys_threads s ! j = Waiting \<Longrightarrow> ws_step s (push u (Some j) s)"
| push_quiet: "i < length (sys_threads s) \<Longrightarrow> sys_threads s ! i = Running t \<Longrightarrow>
    Waiting \<notin> set (sys_threads s) \<Longrightarrow> ws_step s (push u None s)"
| spurious: "i < length (sys_threads s) \<Longrightarrow> sys_threads s ! i = Waiting \<Longrightarrow>
    ws_step s (s\<lparr>sys_threads := (sys_threads s)[i := Looping]\<rparr>)"

text \<open>The tasks pushed before \<open>n\<close> threads enter \<open>run\<close>.\<close>

definition ws_start :: "'t list \<Rightarrow> nat \<Rightarrow> 't system" where
  "ws_start ts n =
     \<lparr>sys_data = work_stack_new\<lparr>ws_tasks := ts\<rparr>, sys_threads = replicate n Looping,
      sys_pushed = mset ts, sys_finished = {#}\<rparr>"

text \<open>The tasks being run, and how many threads run one.\<close>

fun pc_task :: "'t run_pc \<Rightarrow> 't multiset" where
  "pc_task (Running t) = {#t#}"
| "pc_task _ = {#}"

definition running :: "'t system \<Rightarrow> 't multiset" where
  "running s = sum_list (map pc_task (sys_threads s))"

definition ws_inv :: "'t system \<Rightarrow> bool" where
  "ws_inv s =
     (ws_in_flight (sys_data s) = size (running s) \<and>
      sys_pushed s = mset (ws_tasks (sys_data s)) + running s + sys_finished s \<and>
      (Returned \<in> set (sys_threads s) \<longrightarrow> ws_tasks (sys_data s) = [] \<and> running s = {#}) \<and>
      (Waiting \<in> set (sys_threads s) \<longrightarrow> running s \<noteq> {#} \<or> Looping \<in> set (sys_threads s)))"

text \<open>Two threads, one running the only task and one waiting for it.\<close>

definition demo_ws :: "nat system" where
  "demo_ws = run_loop 0 (run_loop 1 (ws_start [7] 2))"

section \<open>Lemmas\<close>

lemma demo_ws_simps:
  "sys_threads demo_ws = [Waiting, Running 7]" "sys_data demo_ws = \<lparr>ws_tasks = [], ws_in_flight = 1\<rparr>"
  "sys_pushed demo_ws = {#7#}" "sys_finished demo_ws = {#}"
  by (simp_all add: demo_ws_def ws_start_def run_loop_def work_stack_new_def numeral_2_eq_2)

lemma demo_ws_reachable: "ws_step\<^sup>*\<^sup>* (ws_start [7] 2) demo_ws"
proof -
  have "ws_step (ws_start [7] 2) (run_loop 1 (ws_start [7] 2))"
    by (rule ws_step.loop) (simp_all add: ws_start_def)
  moreover have "ws_step (run_loop 1 (ws_start [7] 2)) demo_ws"
    unfolding demo_ws_def
    by (rule ws_step.loop) (simp_all add: ws_start_def run_loop_def work_stack_new_def numeral_2_eq_2)
  ultimately show ?thesis by (meson converse_rtranclp_into_rtranclp rtranclp.rtrancl_refl)
qed


lemma wake_simps [simp]:
  "pc_task (wake pc) = pc_task pc" "wake pc \<noteq> Waiting" "wake pc = Returned \<longleftrightarrow> pc = Returned"
  by (cases pc; simp)+

lemma running_upd:
  assumes "i < length ts"
  shows "sum_list (map pc_task (ts[i := pc])) + pc_task (ts ! i) = sum_list (map pc_task ts) + pc_task pc"
  using assms
proof (induction ts arbitrary: i)
  case (Cons t ts)
  then show ?case by (cases i) (auto simp: ac_simps)
qed simp

lemma pc_task_in: "i < length ts \<Longrightarrow> pc_task (ts ! i) \<subseteq># sum_list (map pc_task ts)"
proof (induction ts arbitrary: i)
  case (Cons t ts)
  then show ?case
    by (cases i) (auto intro: subset_mset.order_trans [OF _ mset_subset_eq_add_right])
qed simp

text \<open>A change of one thread's program counter.\<close>

lemma set_thread:
  assumes "i < length (sys_threads s)" "ws_inv s"
  shows "running (s\<lparr>sys_threads := (sys_threads s)[i := pc]\<rparr>) + pc_task (sys_threads s ! i) = running s + pc_task pc"
    "pc \<in> set ((sys_threads s)[i := pc])"
    "pc' \<in> set ((sys_threads s)[i := pc]) \<Longrightarrow> pc' = pc \<or> pc' \<in> set (sys_threads s)"
  using running_upd [OF assms(1), of pc] set_update_subset_insert [of "sys_threads s" i pc] assms(1)
  by (auto simp: running_def intro: set_update_memI)

lemma running_data [simp]:
  "running (s\<lparr>sys_data := d\<rparr>) = running s" "running (s\<lparr>sys_finished := f\<rparr>) = running s"
  "running (s\<lparr>sys_pushed := p\<rparr>) = running s"
  "running (s\<lparr>sys_data := d, sys_threads := ts\<rparr>) = running (s\<lparr>sys_threads := ts\<rparr>)"
  "running (s\<lparr>sys_data := d, sys_threads := ts, sys_finished := f\<rparr>) = running (s\<lparr>sys_threads := ts\<rparr>)"
  "running (s\<lparr>sys_data := d, sys_threads := ts, sys_pushed := f\<rparr>) = running (s\<lparr>sys_threads := ts\<rparr>)"
  "running (s\<lparr>sys_threads := map wake ts\<rparr>) = running (s\<lparr>sys_threads := ts\<rparr>)"
  by (simp_all add: running_def comp_def)

lemma running_at: "i < length (sys_threads s) \<Longrightarrow> sys_threads s ! i = Running t \<Longrightarrow> t \<in># running s"
  using pc_task_in [of i "sys_threads s"] by (simp add: running_def)

lemma waiting_wake: "Waiting \<notin> set (map wake ts)"
  by (metis ex_map_conv wake_simps(2))

lemma run_loop_inv:
  assumes "ws_inv s" "i < length (sys_threads s)" "sys_threads s ! i = Looping"
  shows "ws_inv (run_loop i s)"
proof -
  note st = set_thread [OF assms(2,1)]
  have r: "running (s\<lparr>sys_threads := (sys_threads s)[i := pc]\<rparr>) = running s + pc_task pc" for pc
    using st(1) assms(3) by simp
  consider "ws_tasks (sys_data s) \<noteq> []" | "ws_tasks (sys_data s) = []" "ws_in_flight (sys_data s) > 0"
    | "ws_tasks (sys_data s) = []" "ws_in_flight (sys_data s) = 0" by auto
  then show ?thesis
  proof cases
    case 1
    then have "Returned \<notin> set (sys_threads s)" using assms(1) by (auto simp: ws_inv_def)
    with st(3) have n: "Returned \<notin> set ((sys_threads s)[i := Running t])" for t by blast
    have m: "mset (ws_tasks (sys_data s)) =
        add_mset (last (ws_tasks (sys_data s))) (mset (butlast (ws_tasks (sys_data s))))"
      using 1 append_butlast_last_id [of "ws_tasks (sys_data s)"]
      by (metis mset.simps(1,2) mset_append union_commute add_mset_add_single)
    show ?thesis
      using 1 assms(1) n m by (simp add: run_loop_def Let_def ws_inv_def r)
  next
    case 2
    then have "running s \<noteq> {#}" using assms(1) by (auto simp: ws_inv_def)
    with 2 assms(1) st(3) show ?thesis
      by (fastforce simp: run_loop_def Let_def ws_inv_def r)
  next
    case 3
    then have "running s = {#}" using assms(1) by (simp add: ws_inv_def)
    with 3 assms(1) show ?thesis
      using waiting_wake [of "(sys_threads s)[i := Returned]"]
      by (simp add: run_loop_def Let_def ws_inv_def r)
  qed
qed

lemma finish_inv:
  assumes "ws_inv s" "i < length (sys_threads s)" "sys_threads s ! i = Running t"
  shows "ws_inv (run_finish i t s)"
proof -
  let ?s = "s\<lparr>sys_data := (sys_data s)\<lparr>ws_in_flight := ws_in_flight (sys_data s) - 1\<rparr>,
      sys_threads := (sys_threads s)[i := Looping], sys_finished := add_mset t (sys_finished s)\<rparr>"
  note st = set_thread [OF assms(2,1), where pc = Looping]
  have t: "t \<in># running s" using running_at [OF assms(2,3)] .
  then have "Returned \<notin> set (sys_threads s)" using assms(1) by (auto simp: ws_inv_def)
  with st(3) have n: "Returned \<notin> set ((sys_threads s)[i := Looping])" by blast
  have r: "running s = add_mset t (running (s\<lparr>sys_threads := (sys_threads s)[i := Looping]\<rparr>))"
    using st(1) assms(3) by simp
  have "ws_inv ?s"
    using assms(1) n st(2) by (simp add: ws_inv_def r)
  then show ?thesis
    unfolding run_finish_def by (rule run_loop_inv) (use assms(2) in simp_all)
qed

lemma push_inv:
  assumes "ws_inv s" "i < length (sys_threads s)" "sys_threads s ! i = Running t"
    "\<And>k. j = Some k \<Longrightarrow> k < length (sys_threads s) \<and> sys_threads s ! k = Waiting"
  shows "ws_inv (push u j s)"
proof -
  have t: "t \<in># running s" using running_at [OF assms(2,3)] .
  then have nr: "Returned \<notin> set (sys_threads s)" "running s \<noteq> {#}" using assms(1) by (auto simp: ws_inv_def)
  show ?thesis
  proof (cases j)
    case None
    with assms(1) nr show ?thesis by (simp add: ws_inv_def push_def)
  next
    case (Some k)
    with assms(4) have k: "k < length (sys_threads s)" "sys_threads s ! k = Waiting" by auto
    note st = set_thread [OF k(1) assms(1), where pc = Looping]
    from st(1) k(2) have r: "running (s\<lparr>sys_threads := (sys_threads s)[k := Looping]\<rparr>) = running s" by simp
    from st(3) nr have "Returned \<notin> set ((sys_threads s)[k := Looping])" by blast
    with Some assms(1) nr r st(2) show ?thesis by (simp add: ws_inv_def push_def)
  qed
qed

lemma spurious_inv:
  assumes "ws_inv s" "i < length (sys_threads s)" "sys_threads s ! i = Waiting"
  shows "ws_inv (s\<lparr>sys_threads := (sys_threads s)[i := Looping]\<rparr>)"
proof -
  note st = set_thread [OF assms(2,1), where pc = Looping]
  from st(1) assms(3) have "running (s\<lparr>sys_threads := (sys_threads s)[i := Looping]\<rparr>) = running s" by simp
  with assms(1) st(2,3) show ?thesis by (auto simp: ws_inv_def)
qed

lemma ws_inv_start: "ws_inv (ws_start ts n)"
proof -
  have "sum_list (map pc_task (replicate n Looping)) = {#}"
    by (induction n) auto
  then show ?thesis
    by (auto simp: ws_inv_def ws_start_def running_def work_stack_new_def)
qed

lemma ws_step_inv: "ws_step s s' \<Longrightarrow> ws_inv s \<Longrightarrow> ws_inv s'"
  by (induction rule: ws_step.induct) (auto intro: run_loop_inv finish_inv push_inv spurious_inv)

lemma ws_reachable_inv: "ws_step\<^sup>*\<^sup>* (ws_start ts n) s \<Longrightarrow> ws_inv s"
  by (induction rule: rtranclp_induct) (auto intro: ws_inv_start ws_step_inv)

lemma ws_step_threads: "ws_step s s' \<Longrightarrow> length (sys_threads s') = length (sys_threads s)"
  by (induction rule: ws_step.induct)
    (auto simp: run_loop_def run_finish_def push_def Let_def split: option.splits)

lemma ws_reachable_threads: "ws_step\<^sup>*\<^sup>* (ws_start ts n) s \<Longrightarrow> length (sys_threads s) = n"
  by (induction rule: rtranclp_induct) (auto simp: ws_start_def dest: ws_step_threads)

lemma size_running_le: "size (sum_list (map pc_task ts)) \<le> length ts"
proof (induction ts)
  case (Cons t ts)
  then show ?case by (cases t) auto
qed simp

lemma running_ex: "running s \<noteq> {#} \<Longrightarrow> \<exists>i t. i < length (sys_threads s) \<and> sys_threads s ! i = Running t"
proof -
  have "sum_list (map pc_task ts) \<noteq> {#} \<Longrightarrow> \<exists>pc \<in> set ts. \<exists>t. pc = Running t" for ts :: "'a run_pc list"
  proof (induction ts)
    case (Cons t ts)
    then show ?case by (cases t) auto
  qed simp
  then show "running s \<noteq> {#} \<Longrightarrow> ?thesis" by (metis in_set_conv_nth running_def)
qed

section \<open>Properties\<close>



text \<open>C13. The threads do not deadlock, and the in-flight counter stays within the number of
  threads: in every reachable state in which some thread is still inside \<open>run\<close>, some thread can
  take a step that is not a spurious wake-up, because it is about to examine the data or
  is running a task.\<close>

theorem work_stack_progress:
  assumes "ws_step\<^sup>*\<^sup>* (ws_start ts n) s" "\<exists>pc \<in> set (sys_threads s). pc \<noteq> Returned"
  shows "ws_in_flight (sys_data s) \<le> n \<and>
    (\<exists>i < n. sys_threads s ! i = Looping \<and> ws_step s (run_loop i s) \<or>
       (\<exists>t. sys_threads s ! i = Running t \<and> ws_step s (run_finish i t s)))"
proof -
  note inv = ws_reachable_inv [OF assms(1)]
  have n: "length (sys_threads s) = n" using ws_reachable_threads [OF assms(1)] .
  have "ws_in_flight (sys_data s) \<le> n"
    using inv size_running_le [of "sys_threads s"] n by (simp add: ws_inv_def running_def)
  moreover from assms(2) obtain pc where pc: "pc \<in> set (sys_threads s)" "pc \<noteq> Returned" by blast
  have "Looping \<in> set (sys_threads s) \<or> running s \<noteq> {#}"
  proof (cases pc)
    case Waiting
    with inv pc show ?thesis by (auto simp: ws_inv_def)
  next
    case (Running t)
    with pc running_at show ?thesis by (fastforce simp: in_set_conv_nth)
  qed (use pc in auto)
  ultimately show ?thesis
    using running_ex [of s] n by (auto simp: in_set_conv_nth intro: ws_step.loop ws_step.finish)
qed

theorem work_stack_progress_witness:
  "ws_step\<^sup>*\<^sup>* (ws_start [7] 2) demo_ws \<and> sys_threads demo_ws = [Waiting, Running 7] \<and>
   ws_step demo_ws (run_finish 1 7 demo_ws)"
proof -
  have "\<exists>pc \<in> set (sys_threads demo_ws). pc \<noteq> Returned" by (simp add: demo_ws_simps)
  from work_stack_progress [OF demo_ws_reachable this] demo_ws_reachable show ?thesis
    by (auto simp: demo_ws_simps less_Suc_eq numeral_2_eq_2)
qed

end
