(* ===== verification/Reconcile_Compute.thy ===== *)
theory Reconcile_Compute
  imports Defs Rules_Defs Std_Text
begin

text \<open>
  The decision procedure of \<open>src/reconcile/compute.rs\<close>: \<open>gen_alternate_name\<close>, which
  makes an unused name for the file that is renamed out of the way, and
  \<open>choose_reconciliation\<close>, which maps the client, ancestor and server versions of one name
  and the sync mode to a reconciliation and a conflict report. \<open>readme_action\<close> is the
  abstract specification: the tables of the README's sync model. The properties state that the
  decision refines the tables, respects the mode's permissions, never overwrites unseen content
  without a force setting, and never replaces a directory by a non-directory.
\<close>

section \<open>Definitions\<close>

subsection \<open>Alternate names\<close>

text \<open>The loop \<open>for n in 1u64..\<close>; \<open>None\<close> is the panic after the last \<open>u64\<close>.\<close>

function gen_alternate_loop :: "(os_string \<Rightarrow> bool) \<Rightarrow> string \<Rightarrow> string \<Rightarrow> nat \<Rightarrow> os_string option" where
  "gen_alternate_loop in_use base extension n =
     (if n < 2 ^ 64 then
        if \<not> in_use (base @ fmt_dec n @ extension) then Some (base @ fmt_dec n @ extension)
        else gen_alternate_loop in_use base extension (Suc n)
      else None)"
  by pat_completeness auto
termination
  by (relation "measure (\<lambda>(in_use, base, extension, n). 2 ^ 64 - n)") auto

declare gen_alternate_loop.simps [simp del]

text \<open>The stem truncated after its last tilde, or with a tilde appended.\<close>

definition alternate_base :: "string \<Rightarrow> string" where
  "alternate_base stem =
     (case rsplit_at CHR ''~'' stem of
        Some (before, _) \<Rightarrow> before @ ''~''
      | None \<Rightarrow> stem @ ''~'')"

definition gen_alternate_name :: "os_string \<Rightarrow> (os_string \<Rightarrow> bool) \<Rightarrow> os_string option" where
  "gen_alternate_name orig in_use =
     (case path_file_name (to_string_lossy orig) of
        None \<Rightarrow> None
      | Some name \<Rightarrow>
          let (stem, ext) = stem_and_extension name;
              extension = (case ext of None \<Rightarrow> [] | Some x \<Rightarrow> ''.'' @ x)
          in gen_alternate_loop in_use (alternate_base stem) extension 1)"

subsection \<open>Reconciliations\<close>

datatype reconciliation_side = Client | Server

fun rev_side :: "reconciliation_side \<Rightarrow> reconciliation_side" where
  "rev_side Client = Server"
| "rev_side Server = Client"

datatype split_ancestor_state = Move | Delete

datatype reconciliation =
    InSync
  | Unsync
  | Irreconcilable
  | Use reconciliation_side
  | Split reconciliation_side split_ancestor_state

datatype conflicting_edit = EditMode | EditContent

datatype conflict =
    NoConflict
  | EditDelete reconciliation_side
  | EditEdit conflicting_edit conflicting_edit

text \<open>The nested functions of \<open>choose_reconciliation\<close>.\<close>

fun choose_replace ::
  "file_data option \<Rightarrow> reconciliation_side \<Rightarrow> file_data option \<Rightarrow> reconciliation_side \<Rightarrow> reconciliation" where
  "choose_replace None dst_side src_file src_side = Use src_side"
| "choose_replace dst_file dst_side None src_side = Use src_side"
| "choose_replace (Some _) dst_side (Some (Directory _)) src_side = Use src_side"
| "choose_replace (Some (Directory _)) dst_side (Some _) src_side = Split dst_side Move"
| "choose_replace (Some _) dst_side (Some _) src_side = Use src_side"

definition choose_create ::
  "half_sync_mode \<Rightarrow> half_sync_mode \<Rightarrow> reconciliation \<Rightarrow> reconciliation \<Rightarrow> reconciliation \<times> conflict" where
  "choose_create away toward propagate revert =
     (if on (create away) then (propagate, NoConflict)
      else if force (delete toward) then (revert, NoConflict)
      else (Unsync, NoConflict))"

definition choose_delete ::
  "file_data \<Rightarrow> file_data \<Rightarrow> reconciliation_side \<Rightarrow> half_sync_mode \<Rightarrow> half_sync_mode \<Rightarrow>
   reconciliation \<Rightarrow> reconciliation \<Rightarrow> reconciliation \<times> conflict" where
  "choose_delete anc file deleted_side away toward propagate revert =
     (if matches_content anc file then
        (if on (delete away) then propagate
         else if force (create toward) then revert
         else Unsync, NoConflict)
      else
        (if on (create toward) then revert
         else if force (delete away) then propagate
         else if on (delete away) \<or> on (update toward) then Irreconcilable
         else Unsync, EditDelete deleted_side))"

definition need_split :: "sync_mode \<Rightarrow> reconciliation" where
  "need_split mode =
     (if on (update (inbound mode)) \<or> on (update (outbound mode)) then
        if on (create (inbound mode)) \<and> on (create (outbound mode)) then Split Server Delete
        else Irreconcilable
      else Unsync)"

definition anc_is :: "(file_data \<Rightarrow> bool) \<Rightarrow> file_data option \<Rightarrow> bool" where
  "anc_is p a = (case a of None \<Rightarrow> False | Some x \<Rightarrow> p x)"

text \<open>The three \<open>match (mode.inbound.update, mode.outbound.update)\<close> tables.\<close>

fun mode_mode_table ::
  "sync_mode_setting \<Rightarrow> sync_mode_setting \<Rightarrow> reconciliation \<Rightarrow> reconciliation \<Rightarrow> reconciliation" where
  "mode_mode_table _ Force use_client use_server = use_client"
| "mode_mode_table Force _ use_client use_server = use_server"
| "mode_mode_table _ On use_client use_server = use_client"
| "mode_mode_table On _ use_client use_server = use_server"
| "mode_mode_table _ _ use_client use_server = Unsync"

fun mode_content_table ::
  "sync_mode_setting \<Rightarrow> sync_mode_setting \<Rightarrow> reconciliation \<Rightarrow> reconciliation \<Rightarrow> reconciliation \<Rightarrow> reconciliation" where
  "mode_content_table Force _ use_client use_server split = use_server"
| "mode_content_table On _ use_client use_server split = use_server"
| "mode_content_table _ Force use_client use_server split = use_client"
| "mode_content_table _ _ use_client use_server split = split"

fun content_mode_table ::
  "sync_mode_setting \<Rightarrow> sync_mode_setting \<Rightarrow> reconciliation \<Rightarrow> reconciliation \<Rightarrow> reconciliation \<Rightarrow> reconciliation" where
  "content_mode_table _ Force use_client use_server split = use_client"
| "content_mode_table _ On use_client use_server split = use_client"
| "content_mode_table Force _ use_client use_server split = use_server"
| "content_mode_table _ _ use_client use_server split = split"

fun content_content_table ::
  "sync_mode_setting \<Rightarrow> sync_mode_setting \<Rightarrow> bool \<Rightarrow> reconciliation \<Rightarrow> reconciliation \<Rightarrow> reconciliation \<Rightarrow> reconciliation" where
  "content_content_table Force Force server_newer use_client use_server split =
     (if server_newer then use_server else use_client)"
| "content_content_table Force _ server_newer use_client use_server split = use_server"
| "content_content_table _ Force server_newer use_client use_server split = use_client"
| "content_content_table _ _ server_newer use_client use_server split = split"

definition choose_update ::
  "file_data \<Rightarrow> file_data option \<Rightarrow> file_data \<Rightarrow> sync_mode \<Rightarrow> reconciliation \<Rightarrow> reconciliation \<Rightarrow>
   reconciliation \<times> conflict" where
  "choose_update c a s mode use_client use_server =
     (let iu = update (inbound mode); ou = update (outbound mode); split = need_split mode in
      if \<not> matches c s \<and> matches_data c s then
        let server_wins = (if anc_is (\<lambda>a. matches c a) a then True
                           else if anc_is (\<lambda>a. matches s a) a then False
                           else newer_than s c)
        in (if server_wins then
              if on iu then use_server else if force ou then use_client else InSync
            else
              if on ou then use_client else if force iu then use_server else InSync, NoConflict)
      else if anc_is (\<lambda>a. matches a c) a then
        (if on iu then use_server else if force ou then use_client else Unsync, NoConflict)
      else if anc_is (\<lambda>a. matches a s) a then
        (if on ou then use_client else if force iu then use_server else Unsync, NoConflict)
      else if anc_is (\<lambda>a. matches_content a c \<and> matches_content a s) a then
        (mode_mode_table iu ou use_client use_server, EditEdit EditMode EditMode)
      else if anc_is (\<lambda>a. matches_content a c) a then
        (mode_content_table iu ou use_client use_server split, EditEdit EditMode EditContent)
      else if anc_is (\<lambda>a. matches_content a s) a then
        (content_mode_table iu ou use_client use_server split, EditEdit EditContent EditMode)
      else
        (content_content_table iu ou (newer_than s c) use_client use_server split,
         EditEdit EditContent EditContent))"

definition choose_reconciliation ::
  "file_data option \<Rightarrow> file_data option \<Rightarrow> file_data option \<Rightarrow> sync_mode \<Rightarrow> reconciliation \<times> conflict" where
  "choose_reconciliation cli anc srv mode =
     (let use_server = choose_replace cli Client srv Server;
          use_client = choose_replace srv Server cli Client in
      case (cli, anc, srv) of
        (None, _, None) \<Rightarrow> (InSync, NoConflict)
      | (Some c, _, Some s) \<Rightarrow>
          if matches c s then (InSync, NoConflict)
          else if c = Special \<or> s = Special then (Unsync, NoConflict)
          else choose_update c anc s mode use_client use_server
      | (Some c, None, None) \<Rightarrow>
          if c = Special then (Unsync, NoConflict)
          else choose_create (outbound mode) (inbound mode) use_client use_server
      | (None, None, Some s) \<Rightarrow>
          if s = Special then (Unsync, NoConflict)
          else choose_create (inbound mode) (outbound mode) use_server use_client
      | (Some c, Some a, None) \<Rightarrow>
          if c = Special then (Unsync, NoConflict)
          else choose_delete a c Server (inbound mode) (outbound mode) use_server use_client
      | (None, Some a, Some s) \<Rightarrow>
          if s = Special then (Unsync, NoConflict)
          else choose_delete a s Client (outbound mode) (inbound mode) use_client use_server)"

subsection \<open>The README's tables as an abstract specification\<close>

text \<open>
  What the documentation promises for one name: nothing, take one side's version, keep both by
  renaming, or leave the replicas out of sync. The tables compare contents only.
\<close>

datatype doc_action = DocNone | DocUse reconciliation_side | DocKeepBoth | DocLeave

fun doc_of :: "reconciliation \<Rightarrow> doc_action" where
  "doc_of InSync = DocNone"
| "doc_of Unsync = DocLeave"
| "doc_of Irreconcilable = DocLeave"
| "doc_of (Use side) = DocUse side"
| "doc_of (Split side st) = DocKeepBoth"

definition readme_edit_edit :: "file_data \<Rightarrow> file_data \<Rightarrow> sync_mode \<Rightarrow> doc_action" where
  "readme_edit_edit c s mode =
     (let iu = update (inbound mode); ou = update (outbound mode) in
      if force iu \<and> force ou then if newer_than s c then DocUse Server else DocUse Client
      else if force iu then DocUse Server
      else if force ou then DocUse Client
      else if \<not> on iu \<and> \<not> on ou then DocLeave
      else if on (create (inbound mode)) \<and> on (create (outbound mode)) then DocKeepBoth
      else DocLeave)"

definition readme_action ::
  "file_data option \<Rightarrow> file_data option \<Rightarrow> file_data option \<Rightarrow> sync_mode \<Rightarrow> doc_action" where
  "readme_action cli anc srv mode =
     (let i = inbound mode; ob = outbound mode in
      case (cli, anc, srv) of
        (None, _, None) \<Rightarrow> DocNone
      | (None, None, Some s) \<Rightarrow>
          if on (create i) then DocUse Server
          else if force (delete ob) then DocUse Client else DocLeave
      | (None, Some a, Some s) \<Rightarrow>
          if matches_content a s then
            if on (delete ob) then DocUse Client
            else if force (create i) then DocUse Server else DocLeave
          else
            if on (create i) then DocUse Server
            else if force (delete ob) then DocUse Client else DocLeave
      | (Some c, None, None) \<Rightarrow>
          if on (create ob) then DocUse Client
          else if force (delete i) then DocUse Server else DocLeave
      | (Some c, Some a, None) \<Rightarrow>
          if matches_content a c then
            if on (delete i) then DocUse Server
            else if force (create ob) then DocUse Client else DocLeave
          else
            if on (create ob) then DocUse Client
            else if force (delete i) then DocUse Server else DocLeave
      | (Some c, a, Some s) \<Rightarrow>
          if matches_content c s then DocNone
          else if anc_is (\<lambda>a. matches_content a c) a then
            if on (update i) then DocUse Server
            else if force (update ob) then DocUse Client else DocLeave
          else if anc_is (\<lambda>a. matches_content a s) a then
            if on (update ob) then DocUse Client
            else if force (update i) then DocUse Server else DocLeave
          else readme_edit_edit c s mode)"

text \<open>The tables speak of plain files whose versions differ in content or not at all: no
  directories, no special files, and no two versions that agree on content but not on mode or
  time.\<close>

definition content_only :: "file_data option \<Rightarrow> file_data option \<Rightarrow> file_data option \<Rightarrow> bool" where
  "content_only cli anc srv =
     (let vs = List.map_filter id [cli, anc, srv] in
      list_all (\<lambda>x. \<not> fd_is_dir x \<and> x \<noteq> Special \<and>
        list_all (\<lambda>y. matches_content x y \<longrightarrow> matches x y) vs) vs)"

text \<open>The version on a side, and the half mode that governs edits made by taking a side's
  version (they land on the other side).\<close>

fun on_side :: "reconciliation_side \<Rightarrow> 'a \<Rightarrow> 'a \<Rightarrow> 'a" where
  "on_side Client c s = c"
| "on_side Server c s = s"

fun half_for :: "reconciliation_side \<Rightarrow> sync_mode \<Rightarrow> half_sync_mode" where
  "half_for Server mode = inbound mode"
| "half_for Client mode = outbound mode"

text \<open>Client and server already agree.\<close>

fun in_agreement :: "file_data option \<Rightarrow> file_data option \<Rightarrow> bool" where
  "in_agreement None None = True"
| "in_agreement (Some c) (Some s) = matches c s"
| "in_agreement _ _ = False"

section \<open>Lemmas\<close>

lemma anc_is_simps [simp]: "anc_is p None = False" "anc_is p (Some x) = p x"
  by (simp_all add: anc_is_def)

lemma choose_replace_eq:
  "choose_replace d ds s ss = (if is_dir d \<and> s \<noteq> None \<and> \<not> is_dir s then Split ds Move else Use ss)"
  by (cases "(d, ds, s, ss)" rule: choose_replace.cases) auto

lemmas choose_defs = choose_reconciliation_def choose_create_def choose_delete_def Let_def

lemma mode_mode_table_cases:
  "mode_mode_table i ob uc us \<in> {Unsync} \<union> (if on ob then {uc} else {}) \<union> (if on i then {us} else {})"
  by (cases i; cases ob) auto

lemma mode_content_table_cases:
  "mode_content_table i ob uc us sp \<in>
     {sp} \<union> (if force ob then {uc} else {}) \<union> (if on i then {us} else {})"
  by (cases i; cases ob) auto

lemma content_mode_table_cases:
  "content_mode_table i ob uc us sp \<in>
     {sp} \<union> (if on ob then {uc} else {}) \<union> (if force i then {us} else {})"
  by (cases i; cases ob) auto

lemma content_content_table_cases:
  "content_content_table i ob b uc us sp \<in>
     {sp} \<union> (if force ob then {uc} else {}) \<union> (if force i then {us} else {})"
  by (cases i; cases ob) auto

text \<open>Every result of the update branch, with what licenses it.\<close>

lemma choose_update_result:
  assumes "choose_update c a s mode uc us = (r, k)"
  shows "r \<in> {InSync, Unsync, need_split mode} \<or>
    r = uc \<and> on (update (outbound mode)) \<and>
      (force (update (outbound mode)) \<or> anc_is (\<lambda>a. matches_content a s) a \<or> matches_content c s) \<or>
    r = us \<and> on (update (inbound mode)) \<and>
      (force (update (inbound mode)) \<or> anc_is (\<lambda>a. matches_content a c) a \<or> matches_content c s)"
    (is "?goal")
proof -
  let ?i = "update (inbound mode)" and ?o = "update (outbound mode)"
  note T = mode_mode_table_cases [of ?i ?o uc us] mode_content_table_cases [of ?i ?o uc us "need_split mode"]
    content_mode_table_cases [of ?i ?o uc us "need_split mode"]
    content_content_table_cases [of ?i ?o "newer_than s c" uc us "need_split mode"]
  have m: "matches x y \<Longrightarrow> matches_content x y" for x y
    using matches_imp_data matches_data_imp_content by blast
  have f: "force x \<Longrightarrow> on x" for x by (rule force_imp_on)
  show ?thesis
  proof (cases a)
    case None
    with assms T(4) show ?thesis
      by (auto simp: choose_update_def Let_def f split: if_splits dest: matches_data_imp_content)
  next
    case (Some x)
    consider "\<not> matches c s" "matches_data c s" | "matches c s \<or> \<not> matches_data c s" by blast
    then show ?thesis
    proof cases
      case 1
      with assms Some show ?thesis
        by (auto simp: choose_update_def Let_def f split: if_splits dest: matches_data_imp_content)
    next
      case 2
      then have n: "\<not> (\<not> matches c s \<and> matches_data c s)" by blast
      show ?thesis
        using assms Some T m [of x c] m [of x s]
        by (auto simp: choose_update_def Let_def n f split: if_splits)
    qed
  qed
qed

text \<open>What licenses an edit of the client (\<open>Use Server\<close>) or of the server
  (\<open>Use Client\<close>): the half mode towards the edited side.\<close>

lemma choose_use_licence:
  assumes "choose_reconciliation cli anc srv mode = (Use side, k)"
  shows "(case (on_side (rev_side side) cli srv, on_side side cli srv) of
      (None, Some x) \<Rightarrow> on (create (half_for side mode))
    | (Some x, None) \<Rightarrow> on (delete (half_for side mode)) \<and>
        (force (delete (half_for side mode)) \<or> anc_is (\<lambda>a. matches_content a x) anc)
    | (Some x, Some y) \<Rightarrow> on (update (half_for side mode)) \<and>
        (force (update (half_for side mode)) \<or> anc_is (\<lambda>a. matches_content a x) anc \<or> matches_content x y)
    | (None, None) \<Rightarrow> False)"
proof (cases cli)
  case None
  show ?thesis
  proof (cases srv)
    case None
    with \<open>cli = None\<close> assms(1) show ?thesis by (auto simp: choose_defs split: option.splits)
  next
    case (Some s)
    with None assms show ?thesis
      by (cases anc; cases side)
        (auto simp: choose_defs choose_replace_eq force_imp_on split: if_splits)
  qed
next
  case (Some c)
  show ?thesis
  proof (cases srv)
    case None
    with Some assms show ?thesis
      by (cases anc; cases side)
        (auto simp: choose_defs choose_replace_eq force_imp_on split: if_splits)
  next
    case (Some s)
    have sp: "need_split mode \<noteq> Use side" by (simp add: need_split_def)
    from \<open>cli = Some c\<close> Some assms(1) obtain
      u: "choose_update c anc s mode (choose_replace srv Server cli Client) (choose_replace cli Client srv Server)
        = (Use side, k)"
      by (cases anc) (auto simp: choose_reconciliation_def Let_def split: if_splits)
    from choose_update_result [OF u] sp \<open>cli = Some c\<close> Some show ?thesis
      by (cases side) (auto simp: choose_replace_eq matches_content_sym split: if_splits)
  qed
qed

lemma choose_use_dir:
  assumes "choose_reconciliation cli anc srv mode = (Use side, k)"
    and "is_dir (on_side (rev_side side) cli srv)"
  shows "on_side side cli srv = None \<or> is_dir (on_side side cli srv)"
proof (cases "cli \<noteq> None \<and> srv \<noteq> None")
  case False
  with assms(2) show ?thesis by (cases side) auto
next
  case True
  then obtain c s where cs: "cli = Some c" "srv = Some s" by auto
  have sp: "need_split mode \<noteq> Use side" by (simp add: need_split_def)
  from cs assms obtain
    u: "choose_update c anc s mode (choose_replace srv Server cli Client) (choose_replace cli Client srv Server)
      = (Use side, k)"
    by (cases anc) (auto simp: choose_reconciliation_def Let_def split: if_splits)
  from choose_update_result [OF u] sp cs assms(2) show ?thesis
    by (cases side) (auto simp: choose_replace_eq split: if_splits)
qed

lemma content_onlyD:
  assumes "content_only cli anc srv" and "Some x \<in> {cli, anc, srv}"
  shows "\<not> fd_is_dir x" "x \<noteq> Special"
    and "Some y \<in> {cli, anc, srv} \<Longrightarrow> matches x y = matches_content x y"
proof -
  have set: "set (List.map_filter id [cli, anc, srv]) = {x. Some x \<in> {cli, anc, srv}}"
    by (cases cli; cases anc; cases srv) (auto simp: List.map_filter_def)
  from assms show "\<not> fd_is_dir x" "x \<noteq> Special"
    unfolding content_only_def Let_def list_all_iff set by blast+
  assume "Some y \<in> {cli, anc, srv}"
  with assms have "matches_content x y \<longrightarrow> matches x y"
    unfolding content_only_def Let_def list_all_iff set by blast
  then show "matches x y = matches_content x y"
    using matches_imp_data matches_data_imp_content by blast
qed

lemma gen_alternate_loop_Some:
  assumes "gen_alternate_loop in_use base ext n = Some new"
  shows "\<exists>m \<ge> n. m < 2 ^ 64 \<and> new = base @ fmt_dec m @ ext \<and> \<not> in_use new \<and>
    (\<forall>k. n \<le> k \<and> k < m \<longrightarrow> in_use (base @ fmt_dec k @ ext))"
  using assms
proof (induction in_use base ext n rule: gen_alternate_loop.induct)
  case (1 in_use base ext n)
  show ?case
  proof (cases "n < 2 ^ 64 \<and> in_use (base @ fmt_dec n @ ext)")
    case True
    with 1 have "gen_alternate_loop in_use base ext (Suc n) = Some new"
      by (subst (asm) gen_alternate_loop.simps) simp
    with 1 True obtain m where m: "Suc n \<le> m" "m < 2 ^ 64" "new = base @ fmt_dec m @ ext" "\<not> in_use new"
      "\<forall>k. Suc n \<le> k \<and> k < m \<longrightarrow> in_use (base @ fmt_dec k @ ext)"
      by blast
    then have "\<forall>k. n \<le> k \<and> k < m \<longrightarrow> in_use (base @ fmt_dec k @ ext)"
      using True Suc_le_eq le_neq_implies_less by metis
    with m show ?thesis using Suc_leD by blast
  next
    case False
    with 1(2) show ?thesis
      by (intro exI [of _ n]) (auto simp: gen_alternate_loop.simps [of in_use base ext n] split: if_splits)
  qed
qed

lemma gen_alternate_loop_None:
  assumes "gen_alternate_loop in_use base ext n = None" and "n \<le> k" and "k < 2 ^ 64"
  shows "in_use (base @ fmt_dec k @ ext)"
  using assms
proof (induction in_use base ext n rule: gen_alternate_loop.induct)
  case (1 in_use base ext n)
  have n: "n < 2 ^ 64" using "1.prems" by simp
  with "1.prems"(1) have u: "in_use (base @ fmt_dec n @ ext)"
    and l: "gen_alternate_loop in_use base ext (Suc n) = None"
    by (simp_all add: gen_alternate_loop.simps [of in_use base ext n] split: if_splits)
  show ?case
  proof (cases "n = k")
    case False
    with n u l 1 show ?thesis by (simp add: Suc_le_eq)
  qed (use u in simp)
qed

section \<open>Properties\<close>

text \<open>C1. Without a force setting nothing unseen is lost: when the decision is to make one
  side like the other and the edited side has a file, that file's content is the ancestor's
  content (it was in sync before) or the content it is replaced with. So content changed on a
  replica since the last sync is overwritten or deleted there only if the mode has a
  \<open>Force\<close>.\<close>

theorem no_force_no_loss:
  assumes "choose_reconciliation cli anc srv mode = (Use side, k)"
    and "\<not> force (update (inbound mode))" and "\<not> force (delete (inbound mode))"
    and "\<not> force (update (outbound mode))" and "\<not> force (delete (outbound mode))"
    and "on_side (rev_side side) cli srv = Some x"
  shows "(\<exists>a. anc = Some a \<and> matches_content a x) \<or>
    (\<exists>y. on_side side cli srv = Some y \<and> matches_content x y)"
  using choose_use_licence [OF assms(1)] assms(2-6)
  by (cases side; cases anc) (auto split: option.splits)

theorem no_force_no_loss_witness:
  "let mode = \<lparr>inbound = half_all On, outbound = half_all On\<rparr>; c = Symlink ''a'' in
   choose_reconciliation (Some c) (Some c) None mode = (Use Server, NoConflict) \<and>
   (\<exists>a. Some c = Some a \<and> matches_content a c)"
proof -
  let ?m = "\<lparr>inbound = half_all On, outbound = half_all On\<rparr>" and ?c = "Symlink ''a''"
  have h: "choose_reconciliation (Some ?c) (Some ?c) None ?m = (Use Server, NoConflict)"
    by (simp add: choose_defs choose_replace_eq)
  from no_force_no_loss [OF h] h show ?thesis by (auto simp: Let_def)
qed

text \<open>C2. Each flag of the sync mode is a permission (README, Sync Mode): the decision
  edits the client only as the inbound half allows and the server only as the outbound half
  allows -- creating a file needs create, replacing one needs update, removing one needs delete.
  A file is renamed out of the way only to keep both versions, which needs create both ways and an
  update one way, or to make room for a non-directory over a directory, which needs update towards
  the renamed side.\<close>

theorem mode_is_permission:
  assumes "choose_reconciliation cli anc srv mode = (r, k)"
  shows "(r = Use Server \<longrightarrow>
      (cli = None \<longrightarrow> on (create (inbound mode))) \<and>
      (srv = None \<longrightarrow> on (delete (inbound mode))) \<and>
      (cli \<noteq> None \<and> srv \<noteq> None \<longrightarrow> on (update (inbound mode)))) \<and>
    (r = Use Client \<longrightarrow>
      (srv = None \<longrightarrow> on (create (outbound mode))) \<and>
      (cli = None \<longrightarrow> on (delete (outbound mode))) \<and>
      (cli \<noteq> None \<and> srv \<noteq> None \<longrightarrow> on (update (outbound mode)))) \<and>
    (\<forall>side. r = Split side Delete \<longrightarrow> side = Server \<and>
      on (create (inbound mode)) \<and> on (create (outbound mode)) \<and>
      (on (update (inbound mode)) \<or> on (update (outbound mode)))) \<and>
    (r = Split Client Move \<longrightarrow> is_dir cli \<and> srv \<noteq> None \<and> \<not> is_dir srv \<and> on (update (inbound mode))) \<and>
    (r = Split Server Move \<longrightarrow> is_dir srv \<and> cli \<noteq> None \<and> \<not> is_dir cli \<and> on (update (outbound mode)))"
    (is "?uses \<and> ?usec \<and> ?rest")
proof -
  have ?uses
  proof
    assume r: "r = Use Server"
    from choose_use_licence [OF assms [unfolded r]]
    show "(cli = None \<longrightarrow> on (create (inbound mode))) \<and>
      (srv = None \<longrightarrow> on (delete (inbound mode))) \<and>
      (cli \<noteq> None \<and> srv \<noteq> None \<longrightarrow> on (update (inbound mode)))"
      by (auto split: option.splits)
  qed
  moreover have ?usec
  proof
    assume r: "r = Use Client"
    from choose_use_licence [OF assms [unfolded r]]
    show "(srv = None \<longrightarrow> on (create (outbound mode))) \<and>
      (cli = None \<longrightarrow> on (delete (outbound mode))) \<and>
      (cli \<noteq> None \<and> srv \<noteq> None \<longrightarrow> on (update (outbound mode)))"
      by (auto split: option.splits)
  qed
  moreover have ?rest
  proof (cases "cli \<noteq> None \<and> srv \<noteq> None")
    case False
    with assms have "\<nexists>side st. r = Split side st"
      by (auto simp: choose_defs choose_replace_eq split: if_splits option.splits)
    then show ?thesis by auto
  next
    case True
    then obtain c s where cs: "cli = Some c" "srv = Some s" by auto
    show ?thesis
    proof (cases "matches c s \<or> c = Special \<or> s = Special")
      case True
      with cs assms have "r \<in> {InSync, Unsync}"
        by (cases anc) (auto simp: choose_reconciliation_def Let_def split: if_splits)
      then show ?thesis by auto
    next
      case False
      with cs assms have
        u: "choose_update c anc s mode (choose_replace srv Server cli Client) (choose_replace cli Client srv Server)
          = (r, k)"
        by (cases anc) (auto simp: choose_reconciliation_def Let_def)
      from choose_update_result [OF u] cs show ?thesis
        by (auto simp: choose_replace_eq need_split_def split: if_splits)
    qed
  qed
  ultimately show ?thesis by blast
qed

theorem mode_is_permission_witness:
  "let mode = \<lparr>inbound = half_all On, outbound = half_all Off\<rparr> in
   choose_reconciliation None None (Some (Symlink ''a'')) mode = (Use Server, NoConflict) \<and>
   on (create (inbound mode))"
proof -
  let ?m = "\<lparr>inbound = half_all On, outbound = half_all Off\<rparr>"
  have h: "choose_reconciliation None None (Some (Symlink ''a'')) ?m = (Use Server, NoConflict)"
    by (simp add: choose_defs choose_replace_eq)
  from mode_is_permission [OF h] h show ?thesis by (simp add: Let_def)
qed

text \<open>C3. The decision refines the README's tables: for plain files whose versions differ in
  content or not at all, the action taken is the documented one, for every sync mode, on the
  non-conflicting states, the edit-delete conflicts and the edit-edit conflicts.\<close>

theorem choose_refines_readme:
  assumes "content_only cli anc srv"
  shows "doc_of (fst (choose_reconciliation cli anc srv mode)) = readme_action cli anc srv mode"
proof (cases "cli \<noteq> None \<and> srv \<noteq> None")
  case False
  have ns: "cli \<noteq> Some Special" "srv \<noteq> Some Special"
    using content_onlyD(2) [OF assms] by auto
  with False show ?thesis
    by (cases cli; cases srv; cases anc) (auto simp: choose_defs choose_replace_eq readme_action_def)
next
  case True
  then obtain c s where cs: "cli = Some c" "srv = Some s" by auto
  have nd: "\<not> fd_is_dir c" "\<not> fd_is_dir s" "c \<noteq> Special" "s \<noteq> Special"
    using cs content_onlyD(1,2) [OF assms, of c] content_onlyD(1,2) [OF assms, of s] by simp_all
  have m: "matches c s = matches_content c s"
    using cs by (intro content_onlyD(3) [OF assms]) simp_all
  have a: "matches x c = matches_content x c" "matches x s = matches_content x s"
    if "anc = Some x" for x
    using cs that by (intro content_onlyD(3) [OF assms]; simp)+
  have md: "matches_data c s \<Longrightarrow> matches c s"
    using m matches_data_imp_content by simp
  let ?i = "update (inbound mode)" and ?o = "update (outbound mode)"
  have cc: "doc_of (content_content_table ?i ?o (newer_than s c) (Use Client) (Use Server) (need_split mode))
      = readme_edit_edit c s mode"
    by (cases ?i; cases ?o) (simp_all add: readme_edit_edit_def need_split_def Let_def)
  show ?thesis
  proof (cases "matches_content c s")
    case True
    with cs m show ?thesis
      by (cases anc) (simp_all add: choose_reconciliation_def readme_action_def Let_def)
  next
    case False
    with m md have "\<not> matches c s" "\<not> matches_data c s" by auto
    moreover have "\<not> (matches_content x c \<and> matches_content x s)" for x
      using False matches_content_trans matches_content_sym by blast
    ultimately show ?thesis
      using cs nd False a cc
      by (cases anc) (auto simp: choose_reconciliation_def choose_update_def readme_action_def
          choose_replace_eq Let_def)
  qed
qed

theorem choose_refines_readme_witness:
  "let mode = \<lparr>inbound = half_all On, outbound = half_all On\<rparr> in
   content_only (Some (Symlink ''a'')) (Some (Symlink ''b'')) (Some (Symlink ''c'')) \<and>
   doc_of (fst (choose_reconciliation (Some (Symlink ''a'')) (Some (Symlink ''b'')) (Some (Symlink ''c'')) mode))
     = DocKeepBoth"
proof -
  have h: "content_only (Some (Symlink ''a'')) (Some (Symlink ''b'')) (Some (Symlink ''c''))"
    by (simp add: content_only_def List.map_filter_def)
  show ?thesis
    using h choose_refines_readme [OF h, of "\<lparr>inbound = half_all On, outbound = half_all On\<rparr>"]
    by (simp add: readme_action_def readme_edit_edit_def Let_def)
qed

text \<open>C4. A one-way forced mode (\<open>mirror\<close>/\<open>reset-server\<close>, or
  \<open>reset-client\<close>) always takes the forced side: names on which the replicas agree are in
  sync, special files are left alone, and in every other state the other side is made to follow,
  with its directory renamed away first when it stands where a non-directory belongs. The
  authoritative side is never edited and no name is left irreconcilable.\<close>

theorem forced_direction:
  assumes "half_for side mode = half_all Force" and "half_for (rev_side side) mode = half_all Off"
  shows "fst (choose_reconciliation cli anc srv mode) =
    (if in_agreement cli srv then InSync
     else if cli = Some Special \<or> srv = Some Special then Unsync
     else if is_dir (on_side (rev_side side) cli srv) \<and> on_side side cli srv \<noteq> None \<and>
             \<not> is_dir (on_side side cli srv) then Split (rev_side side) Move
     else Use side)"
proof (cases "cli \<noteq> None \<and> srv \<noteq> None")
  case False
  with assms show ?thesis
    by (cases side) (auto simp: choose_defs choose_replace_eq split: option.splits)
next
  case True
  then obtain c s where "cli = Some c" "srv = Some s" by auto
  with assms show ?thesis
    by (cases side; cases anc) (auto simp: choose_reconciliation_def choose_update_def choose_replace_eq Let_def)
qed

theorem forced_direction_witness:
  "let mode = \<lparr>inbound = half_all Off, outbound = half_all Force\<rparr> in
   sync_mode_from_str ''mirror'' = Inr mode \<and>
   fst (choose_reconciliation None None (Some (Symlink ''a'')) mode) = Use Client"
  using forced_direction [of Client "\<lparr>inbound = half_all Off, outbound = half_all Force\<rparr>" None None
      "Some (Symlink ''a'')"]
  by (simp add: Let_def sync_mode_from_str_def)

text \<open>C5. Renaming out of the way always finds a fresh name: as long as fewer names are in
  use than there are suffixes, \<open>gen_alternate_name\<close> returns, the result is not in use, it is
  the stem cut after its last tilde (or with one appended) with the smallest free number and the
  unchanged extension.\<close>

theorem gen_alternate_name_fresh:
  assumes "path_file_name (to_string_lossy orig) = Some name"
    and "finite {x. in_use x}" and "card {x. in_use x} < 2 ^ 64 - 1"
    and "stem_and_extension name = (stem, ext)"
  shows "\<exists>new n. gen_alternate_name orig in_use = Some new \<and> \<not> in_use new \<and> 1 \<le> n \<and>
    new = alternate_base stem @ fmt_dec n @ (case ext of None \<Rightarrow> [] | Some x \<Rightarrow> ''.'' @ x) \<and>
    (\<forall>k. 1 \<le> k \<and> k < n \<longrightarrow>
      in_use (alternate_base stem @ fmt_dec k @ (case ext of None \<Rightarrow> [] | Some x \<Rightarrow> ''.'' @ x)))"
proof -
  let ?b = "alternate_base stem" and ?e = "case ext of None \<Rightarrow> [] | Some x \<Rightarrow> ''.'' @ x"
  let ?f = "\<lambda>k. ?b @ fmt_dec k @ ?e"
  have g: "gen_alternate_name orig in_use = gen_alternate_loop in_use ?b ?e 1"
    using assms(1,4) by (simp add: gen_alternate_name_def)
  have "gen_alternate_loop in_use ?b ?e 1 \<noteq> None"
  proof
    assume "gen_alternate_loop in_use ?b ?e 1 = None"
    then have "?f ` {1..<2 ^ 64} \<subseteq> {x. in_use x}"
      using gen_alternate_loop_None [of in_use ?b ?e 1] by auto
    then have "card (?f ` {1..<2 ^ 64}) \<le> card {x. in_use x}"
      using assms(2) by (rule card_mono [rotated])
    moreover have "inj_on ?f {1..<2 ^ 64}"
      by (rule inj_onI) (auto dest: fmt_dec_inject)
    ultimately show False using assms(3) by (simp add: card_image)
  qed
  then obtain new where new: "gen_alternate_loop in_use ?b ?e 1 = Some new" by blast
  from gen_alternate_loop_Some [OF new] new g show ?thesis by auto
qed

theorem gen_alternate_name_fresh_witness:
  "\<exists>new n. gen_alternate_name ''foo.txt'' (\<lambda>x. x = ''foo.txt'') = Some new \<and> new \<noteq> ''foo.txt'' \<and>
     1 \<le> n \<and> new = ''foo~'' @ fmt_dec n @ ''.txt''"
proof -
  have n: "path_file_name (to_string_lossy ''foo.txt'') = Some ''foo.txt''" by code_simp
  have st: "stem_and_extension ''foo.txt'' = (''foo'', Some ''txt'')"
    by (simp add: stem_and_extension_def rsplit_at_def)
  have b: "alternate_base ''foo'' = ''foo~''"
    by (simp add: alternate_base_def rsplit_at_def)
  show ?thesis
    using gen_alternate_name_fresh [OF n, of "\<lambda>x. x = ''foo.txt''", OF _ _ st] by (auto simp: b)
qed

end
