(* ===== verification/Errors_Log.thy ===== *)
theory Errors_Log
  imports Reconcile_Compute
begin

text \<open>
  The error type of \<open>src/errors.rs\<close> and the structured log of \<open>src/log.rs\<close>. An error
  is its kind with the chain of its causes, as \<open>error_chain!\<close> generates it. The errors of
  other libraries are carried as the text they display. The lemmas describe the fatal-error test
  along the chain.
\<close>

section \<open>Definitions\<close>

subsection \<open>Errors\<close>

text \<open>The group \<open>Errors related to setup/usage\<close> has a type of its own.\<close>

datatype (plugins only: code size) usage_error =
    KdfListAlreadyExists
  | KdfListNotExists
  | KeyNotInKdfList string
  | PassphraseNotInKdfList
  | PassphraseInKdfList
  | WouldRemoveLastKdfEntry
  | AnonChangeKeyButMultipleKdfEntries
  | ChangeKeyWithPassphraseMismatch
  | EmptyKeyName
  | KeyNameAlreadyInUse string
  | EmptyKeyGroupName
  | GroupNameAlreadyInUse string
  | KeyNotInGroup string
  | KeyAlreadyInGroup string
  | CannotDisassocGroup string
  | CannotDestroyGroup string
  | WouldDisassocLastKeyFromGroup string string
  | GroupNotInKdfList string
  | SanityCheckFailed

datatype (plugins only: code size) error_kind =
    Msg string
  | Io string
  | Sqlite string
  | NullInString string
  | FourleafDeser string
  | FourleafSer string
  | ExpectationNotMatched
  | NotFound
  | CreateExists
  | RenameDestExists
  | DirNotEmpty
  | NotADirectory
  | AlreadyWatching
  | InvalidAncestorFileType int
  | InvalidHash
  | HmacMismatch string hash_id hash_id
  | AllSuffixesInUse
  | MissingXfer
  | RmdirRoot
  | BadFilename os_string
  | NoSuchTransaction "64 word"
  | TransactionAlreadyInUse "64 word"
  | DirectoryTooLarge
  | InvalidRefVector
  | InvalidObjectId
  | InvalidServerDirEntry
  | DanglingServerDirectoryRef
  | ServerConnectionClosed
  | ServerError string
  | ServerFatalError string
  | ServerProtocolError
  | UnexpectedServerResponse string
  | DirectoryVersionRecessed os_string "64 word" "64 word" "64 word" "64 word"
  | DirectoryEmbeddedIdMismatch os_string
  | DirectoryEmbeddedVerMismatch os_string
  | UnsupportedServerDirectoryFormat os_string "32 word" "32 word"
  | ServerDirectoryCorrupt os_string string
  | TooManyTxRetries
  | DirectoryMissing
  | SynthConflict
  | ServerContentDeleted
  | ServerContentUpdated
  | ReconciliationStopped
  | BadServerDirConfig string
  | BadServerDirConfigKey string string
  | RenameChangesDirConfig
  | Usage usage_error

text \<open>\<open>source()\<close> is the next error of the chain: an error of this type, or one of another
  library, which the \<open>downcast_ref\<close> rejects.\<close>

datatype error = Error (kind: error_kind) (source: "cause option")
and cause = EnsyncCause error | ForeignCause string

text \<open>\<open>kind.into()\<close> and \<open>chain_err\<close>.\<close>

definition err :: "error_kind \<Rightarrow> error" where
  "err k = Error k None"

definition chain_err :: "(error + 'a) \<Rightarrow> error_kind \<Rightarrow> error + 'a" where
  "chain_err r k = (case r of Inl e \<Rightarrow> Inl (Error k (Some (EnsyncCause e))) | Inr a \<Rightarrow> Inr a)"

type_synonym 'a res = "error + 'a"

definition fatal_kind :: "error_kind \<Rightarrow> bool" where
  "fatal_kind k =
     (case k of
        ServerFatalError _ \<Rightarrow> True
      | ServerProtocolError \<Rightarrow> True
      | ServerConnectionClosed \<Rightarrow> True
      | _ \<Rightarrow> False)"

fun is_fatal :: "error \<Rightarrow> bool" where
  "is_fatal (Error k (Some (EnsyncCause e))) = (fatal_kind k \<or> is_fatal e)"
| "is_fatal (Error k _) = fatal_kind k"

subsection \<open>Log levels and entries\<close>

type_synonym log_level = "8 word"

definition FATAL :: log_level where "FATAL = 1"
definition ERROR :: log_level where "ERROR = 2"
definition WARN :: log_level where "WARN = 3"
definition EDIT :: log_level where "EDIT = 4"
definition INFO :: log_level where "INFO = 5"

definition level :: "error \<Rightarrow> log_level" where
  "level e = (if is_fatal e then FATAL else ERROR)"

datatype replica_side = SideClient | SideAncestor | SideServer

fun side_of :: "reconciliation_side \<Rightarrow> replica_side" where
  "side_of Client = SideClient"
| "side_of Server = SideServer"

datatype error_operation =
    OpList
  | OpMarkClean
  | OpChdir os_string
  | OpCreate os_string
  | OpUpdate os_string
  | OpRename os_string
  | OpRemove os_string
  | OpRmdir
  | OpAccess os_string

datatype log =
    LInspect os_string os_string reconciliation conflict
  | LCreate replica_side os_string os_string file_data
  | LUpdate replica_side os_string os_string file_data file_data
  | LRename replica_side os_string os_string os_string
  | LRemove replica_side os_string os_string file_data
  | LRmdir replica_side os_string
  | LRecursiveDelete replica_side os_string
  | LError replica_side os_string error_operation error

section \<open>Lemmas\<close>

text \<open>The kinds of an error and of all the errors of this type behind it.\<close>

fun chain_kinds :: "error \<Rightarrow> error_kind list" where
  "chain_kinds (Error k (Some (EnsyncCause e))) = k # chain_kinds e"
| "chain_kinds (Error k _) = [k]"

lemma is_fatal_iff: "is_fatal e \<longleftrightarrow> (\<exists>k \<in> set (chain_kinds e). fatal_kind k)"
  by (induction e rule: is_fatal.induct) auto

lemma is_fatal_err [simp]: "is_fatal (err k) = fatal_kind k"
  by (simp add: err_def)

lemma chain_err_fatal:
  "chain_err (Inl e) k = Inl e' \<Longrightarrow> is_fatal e' = (fatal_kind k \<or> is_fatal e)"
  by (auto simp: chain_err_def)

lemma chain_err_simps [simp, result_simps]:
  "chain_err (Inr a) k = Inr a"
  "is_ok (chain_err r k) = is_ok r"
  by (auto simp: chain_err_def split: sum.splits)

lemma level_simps [simp]: "is_fatal e \<Longrightarrow> level e = FATAL" "\<not> is_fatal e \<Longrightarrow> level e = ERROR"
  by (simp_all add: level_def)

end
