(* ===== verification/Replica.thy ===== *)
theory Replica
  imports Errors_Log
begin

text \<open>
  The replica interface of \<open>src/replica.rs\<close>. A Rust trait object is a record of operations
  over the state \<open>'s\<close> of the whole replica: replicas use interior mutability, so every
  operation that may change it takes the state and returns the new one. A directory handle
  \<open>'d\<close> passed by \<open>&mut\<close> is returned too. \<open>None\<close> is a panic of the operation.

  The locale \<open>replica_contract\<close> states what the trait's documentation promises the
  reconciler: a successful change is visible to the next \<open>list\<close> of the same directory, and
  concerns only the named file. The watch handle with its two flags is modelled with its
  datagram queue, as a step relation between the threads that set the flags and one that waits.
\<close>

section \<open>Definitions\<close>

subsection \<open>The trait\<close>

datatype prepare_type = Watched | Fast | Clean | Scrub

type_synonym named_file = "os_string \<times> file_data"

record ('s, 'd, 'i, 'o) replica =
  r_full_path :: "'d \<Rightarrow> os_string"
  r_is_fatal :: "'s \<Rightarrow> bool"
  r_is_dir_dirty :: "'s \<Rightarrow> 'd \<Rightarrow> bool"
  r_set_dir_clean :: "'s \<Rightarrow> 'd \<Rightarrow> ('s \<times> bool res) option"
  r_root :: "'s \<Rightarrow> ('s \<times> 'd res) option"
  r_list :: "'s \<Rightarrow> 'd \<Rightarrow> ('s \<times> 'd \<times> named_file list res) option"
  r_rename :: "'s \<Rightarrow> 'd \<Rightarrow> os_string \<Rightarrow> os_string \<Rightarrow> ('s \<times> 'd \<times> unit res) option"
  r_remove :: "'s \<Rightarrow> 'd \<Rightarrow> named_file \<Rightarrow> ('s \<times> 'd \<times> unit res) option"
  r_create :: "'s \<Rightarrow> 'd \<Rightarrow> named_file \<Rightarrow> 'i \<Rightarrow> ('s \<times> 'd \<times> file_data res) option"
  r_update :: "'s \<Rightarrow> 'd \<Rightarrow> os_string \<Rightarrow> file_data \<Rightarrow> file_data \<Rightarrow> 'i \<Rightarrow> ('s \<times> 'd \<times> file_data res) option"
  r_chdir :: "'s \<Rightarrow> 'd \<Rightarrow> os_string \<Rightarrow> ('s \<times> 'd res) option"
  r_synthdir :: "'s \<Rightarrow> 'd \<Rightarrow> os_string \<Rightarrow> file_mode \<Rightarrow> ('s \<times> 'd \<times> 'd) option"
  r_rmdir :: "'s \<Rightarrow> 'd \<Rightarrow> ('s \<times> 'd \<times> unit res) option"
  r_transfer :: "'s \<Rightarrow> 'd \<Rightarrow> named_file \<Rightarrow> ('s \<times> 'o res) option"
  r_prepare :: "'s \<Rightarrow> prepare_type \<Rightarrow> ('s \<times> unit res) option"
  r_clean_up :: "'s \<Rightarrow> ('s \<times> unit res) option"

text \<open>The default methods of the trait.\<close>

definition default_is_fatal :: "'s \<Rightarrow> bool" where
  "default_is_fatal s = False"

definition default_prepare :: "'s \<Rightarrow> prepare_type \<Rightarrow> ('s \<times> unit res) option" where
  "default_prepare s typ = Some (s, Inr ())"

definition default_clean_up :: "'s \<Rightarrow> ('s \<times> unit res) option" where
  "default_clean_up s = Some (s, Inr ())"

text \<open>\<open>Replica + NullTransfer + Condemn\<close>, what the reconciler asks of the ancestor.\<close>

record ('s, 'd, 'i, 'o) ancestor_like = "('s, 'd, 'i, 'o) replica" +
  r_null_transfer :: "file_data \<Rightarrow> 'i"
  r_condemn :: "'s \<Rightarrow> 'd \<Rightarrow> os_string \<Rightarrow> ('s \<times> 'd \<times> unit res) option"
  r_uncondemn :: "'s \<Rightarrow> 'd \<Rightarrow> os_string \<Rightarrow> ('s \<times> 'd \<times> unit res) option"

subsection \<open>Watch handles\<close>

record watch_status =
  ws_dirty :: bool
  ws_context_lost :: bool

definition watch_status_default :: watch_status where
  "watch_status_default = \<lparr>ws_dirty = False, ws_context_lost = False\<rparr>"

text \<open>The socket pair is the number of datagrams in it.\<close>

record watch_handle =
  wh_status :: watch_status
  wh_datagrams :: nat

definition watch_handle_new :: watch_handle where
  "watch_handle_new = \<lparr>wh_status = watch_status_default, wh_datagrams = 0\<rparr>"

definition check_dirty :: "watch_handle \<Rightarrow> watch_handle \<times> bool" where
  "check_dirty h = (h\<lparr>wh_status := (wh_status h)\<lparr>ws_dirty := False\<rparr>\<rparr>, ws_dirty (wh_status h))"

definition check_context_lost :: "watch_handle \<Rightarrow> watch_handle \<times> bool" where
  "check_context_lost h =
     (h\<lparr>wh_status := (wh_status h)\<lparr>ws_context_lost := False\<rparr>\<rparr>, ws_context_lost (wh_status h))"

definition notify :: "watch_handle \<Rightarrow> watch_handle" where
  "notify h = h\<lparr>wh_datagrams := wh_datagrams h + 1\<rparr>"

definition set_dirty :: "watch_handle \<Rightarrow> watch_handle" where
  "set_dirty h = notify (h\<lparr>wh_status := (wh_status h)\<lparr>ws_dirty := True\<rparr>\<rparr>)"

definition set_context_lost :: "watch_handle \<Rightarrow> watch_handle" where
  "set_context_lost h = notify (h\<lparr>wh_status := \<lparr>ws_dirty = True, ws_context_lost = True\<rparr>\<rparr>)"

text \<open>
  \<open>wait\<close> tests the flag, then the interrupt flag, then blocks in \<open>recv\<close>. The three are
  separate steps, because the other threads and the signal handler can run between them; after it
  returns, the caller clears the flag with \<open>check_dirty\<close> and may wait again. The
  signal handler sets the interrupt flag and then notifies.
\<close>

datatype wait_pc = TestDirty | TestInterrupt | Receiving | WaitDone

datatype signal_pc = SigIdle | SigStored | SigSent

record watch_system =
  wy_handle :: watch_handle
  wy_interrupted :: bool
  wy_wait :: wait_pc
  wy_signal :: signal_pc

inductive watch_step :: "watch_system \<Rightarrow> watch_system \<Rightarrow> bool" where
  test_dirty: "wy_wait y = TestDirty \<Longrightarrow> watch_step y
    (y\<lparr>wy_wait := if ws_dirty (wh_status (wy_handle y)) then WaitDone else TestInterrupt\<rparr>)"
| test_interrupt: "wy_wait y = TestInterrupt \<Longrightarrow> watch_step y
    (y\<lparr>wy_wait := if wy_interrupted y then WaitDone else Receiving\<rparr>)"
| recv: "wy_wait y = Receiving \<Longrightarrow> wh_datagrams (wy_handle y) > 0 \<Longrightarrow> watch_step y
    (y\<lparr>wy_handle := (wy_handle y)\<lparr>wh_datagrams := wh_datagrams (wy_handle y) - 1\<rparr>, wy_wait := TestDirty\<rparr>)"
| wait_again: "wy_wait y = WaitDone \<Longrightarrow> watch_step y
    (y\<lparr>wy_handle := fst (check_dirty (wy_handle y)), wy_wait := TestDirty\<rparr>)"
| set_d: "watch_step y (y\<lparr>wy_handle := set_dirty (wy_handle y)\<rparr>)"
| set_c: "watch_step y (y\<lparr>wy_handle := set_context_lost (wy_handle y)\<rparr>)"
| sig_store: "wy_signal y = SigIdle \<Longrightarrow> watch_step y (y\<lparr>wy_interrupted := True, wy_signal := SigStored\<rparr>)"
| sig_notify: "wy_signal y = SigStored \<Longrightarrow> watch_step y
    (y\<lparr>wy_handle := notify (wy_handle y), wy_signal := SigSent\<rparr>)"

definition watch_start :: watch_system where
  "watch_start = \<lparr>wy_handle = watch_handle_new, wy_interrupted = False, wy_wait = TestDirty, wy_signal = SigIdle\<rparr>"

definition watch_inv :: "watch_system \<Rightarrow> bool" where
  "watch_inv y =
     ((wy_wait y \<in> {TestInterrupt, Receiving} \<longrightarrow> ws_dirty (wh_status (wy_handle y)) \<longrightarrow>
         wh_datagrams (wy_handle y) > 0) \<and>
      (wy_wait y = Receiving \<longrightarrow> wy_interrupted y \<longrightarrow>
         wh_datagrams (wy_handle y) > 0 \<or> wy_signal y = SigStored) \<and>
      (wy_interrupted y \<longleftrightarrow> wy_signal y \<noteq> SigIdle))"

subsection \<open>Handles and their replica\<close>

text \<open>A change of the replica's state leaves every usable handle usable.\<close>

definition keeps_dirs :: "('s \<Rightarrow> 'd \<Rightarrow> bool) \<Rightarrow> 's \<Rightarrow> 's \<Rightarrow> bool" where
  "keeps_dirs dir_ok s s' = (\<forall>d. dir_ok s d \<longrightarrow> dir_ok s' d)"

section \<open>The contract\<close>

text \<open>
  \<open>inv\<close> is the replica's invariant and \<open>dir_ok\<close> says which handles belong to it, both kept
  by every operation, failed ones included; \<open>view s d\<close> is the files that \<open>list\<close> gives
  for the handle \<open>d\<close>, \<open>norm\<close> what a replica keeps of a file's data (the ancestor
  replica does not store sizes), and \<open>carries x fd\<close> that the transfer \<open>x\<close> is for
  \<open>fd\<close>. A directory's \<open>rank\<close> grows into subdirectories; listing and removing below a
  directory does not change what it lists.
\<close>

locale replica_contract =
  fixes rep :: "('s, 'd, 'i, 'o, 'z) replica_scheme"
    and inv :: "'s \<Rightarrow> bool"
    and dir_ok :: "'s \<Rightarrow> 'd \<Rightarrow> bool"
    and view :: "'s \<Rightarrow> 'd \<Rightarrow> os_string \<rightharpoonup> file_data"
    and norm :: "file_data \<Rightarrow> file_data"
    and carries :: "'i \<Rightarrow> file_data \<Rightarrow> bool"
    and rank :: "'s \<Rightarrow> 'd \<Rightarrow> int"
  assumes list_inv: "inv s \<Longrightarrow> dir_ok s d \<Longrightarrow> r_list rep s d = Some (s', d', r) \<Longrightarrow>
      inv s' \<and> keeps_dirs dir_ok s s' \<and> dir_ok s' d' \<and>
      (\<forall>f. rank s f < rank s d \<longrightarrow> view s' f = view s f \<and> rank s' f = rank s f) \<and> rank s' d' = rank s d"
    and list_law: "inv s \<Longrightarrow> dir_ok s d \<Longrightarrow> r_list rep s d = Some (s', d', Inr fs) \<Longrightarrow>
      distinct (map fst fs) \<and> map_of fs = view s' d'"
    and create_inv: "inv s \<Longrightarrow> dir_ok s d \<Longrightarrow> name \<noteq> [] \<Longrightarrow> r_create rep s d (name, fd) x = Some (s', d', r3) \<Longrightarrow>
      inv s' \<and> keeps_dirs dir_ok s s' \<and> dir_ok s' d'"
    and create_law: "inv s \<Longrightarrow> dir_ok s d \<Longrightarrow> name \<noteq> [] \<Longrightarrow> carries x fd \<Longrightarrow>
      r_create rep s d (name, fd) x = Some (s', d', Inr r2) \<Longrightarrow>
      view s d name = None \<and> view s' d' = (view s d)(name \<mapsto> norm r2) \<and> norm r2 = norm fd"
    and update_inv: "inv s \<Longrightarrow> dir_ok s d \<Longrightarrow> name \<noteq> [] \<Longrightarrow> r_update rep s d name old fd x = Some (s', d', r3) \<Longrightarrow>
      inv s' \<and> keeps_dirs dir_ok s s' \<and> dir_ok s' d'"
    and update_law: "inv s \<Longrightarrow> dir_ok s d \<Longrightarrow> name \<noteq> [] \<Longrightarrow> carries x fd \<Longrightarrow>
      r_update rep s d name old fd x = Some (s', d', Inr r2) \<Longrightarrow>
      view s d name = Some (norm old) \<and> view s' d' = (view s d)(name \<mapsto> norm r2) \<and> norm r2 = norm fd"
    and remove_inv: "inv s \<Longrightarrow> dir_ok s d \<Longrightarrow> r_remove rep s d nf = Some (s', d', q) \<Longrightarrow>
      inv s' \<and> keeps_dirs dir_ok s s' \<and> dir_ok s' d' \<and>
      (\<forall>f. rank s f < rank s d \<longrightarrow> view s' f = view s f \<and> rank s' f = rank s f) \<and> rank s' d' = rank s d"
    and remove_law: "inv s \<Longrightarrow> dir_ok s d \<Longrightarrow> r_remove rep s d (name, fd) = Some (s', d', Inr ()) \<Longrightarrow>
      view s d name = Some (norm fd) \<and> view s' d' = (view s d)(name := None)"
    and rename_inv: "inv s \<Longrightarrow> dir_ok s d \<Longrightarrow> n \<noteq> [] \<Longrightarrow> r_rename rep s d n n' = Some (s', d', q) \<Longrightarrow>
      inv s' \<and> keeps_dirs dir_ok s s' \<and> dir_ok s' d'"
    and rename_law: "inv s \<Longrightarrow> dir_ok s d \<Longrightarrow> n \<noteq> [] \<Longrightarrow> n' \<noteq> [] \<Longrightarrow>
      r_rename rep s d n n' = Some (s', d', Inr ()) \<Longrightarrow>
      view s d n \<noteq> None \<and> view s d n' = None \<and> view s' d' = ((view s d)(n := None))(n' := view s d n)"
    and chdir_inv: "inv s \<Longrightarrow> dir_ok s d \<Longrightarrow> r_chdir rep s d name = Some (s', c) \<Longrightarrow>
      inv s' \<and> keeps_dirs dir_ok s s' \<and> view s' = view s \<and> rank s' = rank s"
    and chdir_law: "inv s \<Longrightarrow> dir_ok s d \<Longrightarrow> name \<noteq> [] \<or> view s d name \<noteq> None \<Longrightarrow> r_chdir rep s d name = Some (s', Inr d2) \<Longrightarrow>
      dir_ok s' d2 \<and> rank s d < rank s' d2 \<and> is_dir (view s d name)"

text \<open>
  The ancestor: null transfers carry their file, no operation panics on a \<open>storable\<close> file and a
  listing has no other, condemning changes nothing that is listed, and listing, removing
  and entering directories does not raise the \<open>limit\<close> of the ranks. The last is why removing a
  directory recursively ends.
\<close>

locale ancestor_contract = replica_contract rep inv dir_ok view norm carries rank
  for rep :: "('s, 'd, 'i, 'o, 'z) ancestor_like_scheme"
    and inv :: "'s \<Rightarrow> bool"
    and dir_ok :: "'s \<Rightarrow> 'd \<Rightarrow> bool"
    and view :: "'s \<Rightarrow> 'd \<Rightarrow> os_string \<rightharpoonup> file_data"
    and norm :: "file_data \<Rightarrow> file_data"
    and carries :: "'i \<Rightarrow> file_data \<Rightarrow> bool"
    and rank :: "'s \<Rightarrow> 'd \<Rightarrow> int" +
  fixes limit :: "'s \<Rightarrow> int"
    and storable :: "file_data \<Rightarrow> bool"
  assumes null_carries: "carries (r_null_transfer rep fd) fd"
    and rank_limit: "inv s \<Longrightarrow> dir_ok s d \<Longrightarrow> rank s d \<le> limit s"
    and list_total: "inv s \<Longrightarrow> dir_ok s d \<Longrightarrow>
      \<exists>s' d' r. r_list rep s d = Some (s', d', r) \<and> limit s' \<le> limit s \<and> (\<forall>fs. r = Inr fs \<longrightarrow> list_all (\<lambda>f. storable (snd f)) fs)"
    and chdir_total: "inv s \<Longrightarrow> dir_ok s d \<Longrightarrow> \<exists>s' r. r_chdir rep s d name = Some (s', r) \<and> limit s' \<le> limit s"
    and remove_total: "inv s \<Longrightarrow> dir_ok s d \<Longrightarrow> storable fd \<Longrightarrow>
      \<exists>s' d' r. r_remove rep s d (name, fd) = Some (s', d', r) \<and> limit s' \<le> limit s"
    and create_total: "storable fd \<Longrightarrow> r_create rep s d (name, fd) (r_null_transfer rep fd) \<noteq> None"
    and update_total: "storable old \<Longrightarrow> storable fd \<Longrightarrow> r_update rep s d name old fd (r_null_transfer rep fd) \<noteq> None"
    and rename_total: "r_rename rep s d n n' \<noteq> None"
    and condemn_total: "r_condemn rep s d name \<noteq> None"
    and uncondemn_total: "r_uncondemn rep s d name \<noteq> None"
    and condemn_law: "inv s \<Longrightarrow> dir_ok s d \<Longrightarrow> name \<noteq> [] \<Longrightarrow> r_condemn rep s d name = Some (s', d', q) \<Longrightarrow>
      inv s' \<and> keeps_dirs dir_ok s s' \<and> dir_ok s' d' \<and> view s' d' = view s d"
    and uncondemn_law: "inv s \<Longrightarrow> dir_ok s d \<Longrightarrow> r_uncondemn rep s d name = Some (s', d', q) \<Longrightarrow>
      inv s' \<and> keeps_dirs dir_ok s s' \<and> dir_ok s' d' \<and> view s' d' = view s d"

section \<open>Lemmas\<close>

lemma watch_step_inv: "watch_step y y' \<Longrightarrow> watch_inv y \<Longrightarrow> watch_inv y'"
  by (induction rule: watch_step.induct)
    (auto simp: watch_inv_def set_dirty_def set_context_lost_def notify_def check_dirty_def)

lemma watch_reachable_inv: "watch_step\<^sup>*\<^sup>* watch_start y \<Longrightarrow> watch_inv y"
proof (induction rule: rtranclp_induct)
  case base
  show ?case by (simp add: watch_inv_def watch_start_def)
qed (auto intro: watch_step_inv)

section \<open>Properties\<close>



end
