(* ===== verification/Reconcile_Context.thy ===== *)
theory Reconcile_Context
  imports Replica Rules_Engine
begin

text \<open>
  The shared state of a reconciliation, \<open>src/reconcile/context.rs\<close>: the map of tasks that are
  not queued yet, with its wrapping ids; the context, which is the three replicas with the logger
  and the rules; and the per-directory context.

  The context is split into what never changes (the operations of the replicas, the root rules
  and the environment's interrupt flag) and the state of the world that the operations thread: the
  replicas' states, the log written so far and the number of times the interrupt flag
  was read. The interrupt flag is set by a signal handler at any time, so it is a function of
  that number.
\<close>

section \<open>Definitions\<close>

subsection \<open>Unqueued tasks\<close>

type_synonym usize = "64 word"

record 't unqueued_tasks =
  ut_tasks :: "(usize \<times> 't) list"
  ut_next_id :: usize

definition unqueued_new :: "'t unqueued_tasks" where
  "unqueued_new = \<lparr>ut_tasks = [], ut_next_id = 0\<rparr>"

text \<open>The loop looks for a free id, and would not end if all were taken.\<close>

partial_function (option) free_id :: "(usize \<times> 't) list \<Rightarrow> usize \<Rightarrow> usize option" where
  "free_id tasks i = (if map_of tasks i \<noteq> None then free_id tasks (i + 1) else Some i)"

declare free_id.simps [code]

definition unqueued_put :: "'t \<Rightarrow> 't unqueued_tasks \<Rightarrow> ('t unqueued_tasks \<times> usize) option" where
  "unqueued_put t u =
     (case free_id (ut_tasks u) (ut_next_id u) of
        None \<Rightarrow> None
      | Some i \<Rightarrow> Some (\<lparr>ut_tasks = AList.update i t (ut_tasks u), ut_next_id = i + 1\<rparr>, i))"

definition unqueued_get :: "usize \<Rightarrow> 't unqueued_tasks \<Rightarrow> ('t unqueued_tasks \<times> 't) option" where
  "unqueued_get i u =
     (case map_of (ut_tasks u) i of
        None \<Rightarrow> None
      | Some t \<Rightarrow> Some (u\<lparr>ut_tasks := AList.delete i (ut_tasks u)\<rparr>, t))"

subsection \<open>Context\<close>

record ('cs, 'cd, 'as, 'ad, 'vs, 'vd, 'x, 'y, 'ai, 'ao, 'rx) recon_context =
  ctx_cli :: "('cs, 'cd, 'x, 'y) replica"
  ctx_anc :: "('as, 'ad, 'ai, 'ao) ancestor_like"
  ctx_srv :: "('vs, 'vd, 'y, 'x) replica"
  ctx_rx_match :: "'rx \<Rightarrow> string \<Rightarrow> bool"
  ctx_root_rules :: "'rx file_engine"
  ctx_interrupted :: "nat \<Rightarrow> bool"

record ('cs, 'as, 'vs) world =
  w_cli :: 'cs
  w_anc :: 'as
  w_srv :: 'vs
  w_log :: "(log_level \<times> log) list"
  w_polls :: nat

definition log_entry :: "log_level \<Rightarrow> log \<Rightarrow> ('cs, 'as, 'vs) world \<Rightarrow> ('cs, 'as, 'vs) world" where
  "log_entry lvl what w = w\<lparr>w_log := w_log w @ [(lvl, what)]\<rparr>"

record 'd single_dir_context =
  sd_dir :: 'd
  sd_files :: "file_data file_table"

record ('cd, 'ad, 'vd, 'rx) dir_context =
  dc_cli :: "'cd single_dir_context"
  dc_anc :: "'ad single_dir_context"
  dc_srv :: "'vd single_dir_context"
  dc_todo :: "os_string list"
  dc_rules :: "'rx dir_engine"

definition name_in_use :: "('cd, 'ad, 'vd, 'rx) dir_context \<Rightarrow> os_string \<Rightarrow> bool" where
  "name_in_use dir name =
     (table_has (sd_files (dc_cli dir)) name \<or> table_has (sd_files (dc_anc dir)) name \<or>
      table_has (sd_files (dc_srv dir)) name)"

section \<open>Lemmas\<close>

lemma free_id_Some: "free_id tasks i = Some j \<Longrightarrow> map_of tasks j = None"
proof (induction rule: free_id.raw_induct [rotated 1, consumes 1])
  case (1 free_id' i j)
  then show ?case by (auto split: if_splits)
qed

lemma free_id_reaches:
  assumes "map_of tasks (i + of_nat k) = None"
  shows "\<exists>j. free_id tasks i = Some j"
  using assms
proof (induction k arbitrary: i)
  case 0
  then show ?case by (subst free_id.simps) simp
next
  case (Suc k)
  show ?case
  proof (cases "map_of tasks i = None")
    case True
    then show ?thesis by (subst free_id.simps) simp
  next
    case False
    have "map_of tasks (i + 1 + of_nat k) = None" using Suc.prems by (simp add: add.assoc)
    from Suc.IH [OF this] False show ?thesis by (subst free_id.simps) simp
  qed
qed

lemma free_id_total:
  assumes "length tasks < 2 ^ 64"
  shows "\<exists>j. free_id tasks i = Some j"
proof -
  have "card (fst ` set tasks) < card (UNIV :: usize set)"
    using assms card_image_le [of "set tasks" fst] card_length [of tasks] by (simp add: card_word)
  then obtain j :: usize where "j \<notin> fst ` set tasks"
    by (metis UNIV_eq_I less_irrefl)
  then have "map_of tasks (i + of_nat (unat (j - i))) = None"
    by (simp add: map_of_eq_None_iff)
  then show ?thesis by (rule free_id_reaches)
qed

section \<open>The interface of the task map\<close>

text \<open>What the tree walk relies on: the id a task is stored under was free, the task is found
  under it, and taking it out leaves the others.\<close>

locale task_map =
  fixes put :: "'t \<Rightarrow> 'u \<Rightarrow> ('u \<times> 'k) option"
    and get :: "'k \<Rightarrow> 'u \<Rightarrow> ('u \<times> 't) option"
    and look :: "'u \<Rightarrow> 'k \<rightharpoonup> 't"
  assumes put_law: "put t u = Some (u', i) \<Longrightarrow> look u i = None \<and> look u' = (look u)(i \<mapsto> t)"
    and get_None: "look u i = None \<Longrightarrow> get i u = None"
    and get_Some: "look u i = Some t \<Longrightarrow> \<exists>u'. get i u = Some (u', t) \<and> look u' = (look u)(i := None)"
begin

lemma put_get: "put t u = Some (u1, i) \<Longrightarrow> \<exists>u2. get i u1 = Some (u2, t) \<and> look u2 = look u"
  using put_law [of t u u1 i] get_Some [of u1 i t] by fastforce

lemma put_other: "put t u = Some (u', i) \<Longrightarrow> look u j = Some t' \<Longrightarrow> look u' j = Some t'"
  using put_law by fastforce

end

interpretation tasks: task_map unqueued_put unqueued_get "\<lambda>u. map_of (ut_tasks u)"
  by unfold_locales
    (auto simp: unqueued_put_def unqueued_get_def dest: free_id_Some split: option.splits)

section \<open>Properties\<close>

text \<open>C18. Storing an unqueued task always succeeds while fewer than \<open>2^64\<close> are stored,
  although the ids wrap around: it never takes the id of a stored task, and taking the task out
  gives it back once and leaves the other tasks as they were.\<close>

theorem unqueued_put_get:
  assumes "length (ut_tasks u) < 2 ^ 64"
  shows "\<exists>u1 i u2. unqueued_put t u = Some (u1, i) \<and> map_of (ut_tasks u) i = None \<and>
    unqueued_get i u1 = Some (u2, t) \<and> map_of (ut_tasks u2) = map_of (ut_tasks u) \<and> unqueued_get i u2 = None"
proof -
  from free_id_total [OF assms, of "ut_next_id u"] obtain j where "free_id (ut_tasks u) (ut_next_id u) = Some j" by blast
  then obtain u1 where p: "unqueued_put t u = Some (u1, j)" by (auto simp: unqueued_put_def)
  from tasks.put_get [OF p] tasks.put_law [OF p] obtain u2 where
    "unqueued_get j u1 = Some (u2, t)" "map_of (ut_tasks u2) = map_of (ut_tasks u)" "map_of (ut_tasks u) j = None" by blast
  with p show ?thesis by (auto simp: unqueued_get_def)
qed

theorem unqueued_put_get_witness:
  "length (ut_tasks \<lparr>ut_tasks = [(- 1, ''a''), (0, ''b'')], ut_next_id = - 1\<rparr>) < (2 ^ 64 :: nat) \<and>
   unqueued_put ''c'' \<lparr>ut_tasks = [(- 1, ''a''), (0, ''b'')], ut_next_id = - 1\<rparr> =
     Some (\<lparr>ut_tasks = [(- 1, ''a''), (0, ''b''), (1, ''c'')], ut_next_id = 2\<rparr>, 1)"
proof -
  let ?u = "\<lparr>ut_tasks = [(- 1, ''a''), (0, ''b'')], ut_next_id = - 1\<rparr>"
  have l: "length (ut_tasks ?u) < (2 ^ 64 :: nat)" by simp
  from unqueued_put_get [OF l, of "''c''"] obtain u1 i where "unqueued_put ''c'' ?u = Some (u1, i)" by blast
  moreover have "free_id [(- 1 :: usize, ''a''), (0, ''b'')] (- 1) = Some 1"
    by (subst free_id.simps, simp, subst free_id.simps, simp, subst free_id.simps, simp)
  ultimately show ?thesis by (simp add: unqueued_put_def)
qed

end
