(* ===== verification/Ancestor_Dao.thy ===== *)
theory Ancestor_Dao
  imports Errors_Log
begin

text \<open>
  The ancestor store of \<open>src/ancestor/dao.rs\<close> on the schema of
  \<open>src/ancestor/schema.sql\<close>, with the transaction wrapper of \<open>src/sql.rs\<close>.

  The database is the rows of its two tables and the high-water mark of the
  \<open>AUTOINCREMENT\<close> key; each SQL statement of the source is a function on it, with the
  unique index, the foreign keys and \<open>ON DELETE CASCADE\<close> of the schema. A connection adds
  the state a transaction started from. Every statement can fail: the parameter \<open>flt\<close>
  gives, for the number of statements executed so far, the error the next one fails with, so the
  lemmas hold for every pattern of failures. A failing statement has no effect; a failing
  \<open>COMMIT\<close> leaves the transaction open.

  The lemmas show that every operation keeps the database well-formed and that an operation that
  fails has not changed the committed database.
\<close>

section \<open>Definitions\<close>

subsection \<open>Rows and tables\<close>

record file_entry =
  fe_id :: int
  fe_parent :: int
  fe_name :: bytes
  fe_typ :: int
  fe_mode :: int
  fe_mtime :: int
  fe_content :: bytes

record db =
  db_files :: "file_entry list"
  db_seq :: int
  db_condemned :: "(int \<times> bytes) list"

text \<open>The last statement of the schema: the root directory is its own parent.\<close>

definition root_row :: file_entry where
  "root_row = \<lparr>fe_id = 0, fe_parent = 0, fe_name = [], fe_typ = 0, fe_mode = 0, fe_mtime = 0, fe_content = []\<rparr>"

definition empty_db :: db where
  "empty_db = \<lparr>db_files = [root_row], db_seq = 0, db_condemned = []\<rparr>"

subsection \<open>Statements\<close>

text \<open>The rows that go with the rows of the given ids: those below them. The number of rows is
  enough rounds to reach all of them.\<close>

definition children_of :: "file_entry list \<Rightarrow> int set \<Rightarrow> int set" where
  "children_of rows ids = set (map fe_id (filter (\<lambda>r. fe_parent r \<in> ids) rows))"

fun cascade :: "nat \<Rightarrow> file_entry list \<Rightarrow> int set \<Rightarrow> int set" where
  "cascade 0 rows ids = ids"
| "cascade (Suc n) rows ids = cascade n rows (ids \<union> children_of rows ids)"

definition delete_ids :: "int set \<Rightarrow> db \<Rightarrow> db" where
  "delete_ids ids d =
     (let doomed = cascade (length (db_files d)) (db_files d) ids
      in d\<lparr>db_files := filter (\<lambda>r. fe_id r \<notin> doomed) (db_files d),
           db_condemned := filter (\<lambda>c. fst c \<notin> doomed) (db_condemned d)\<rparr>)"

definition delete_files :: "(file_entry \<Rightarrow> bool) \<Rightarrow> db \<Rightarrow> db" where
  "delete_files P d = delete_ids (set (map fe_id (filter P (db_files d)))) d"

definition I64_MAX :: int where
  "I64_MAX = 2 ^ 63 - 1"

definition same_name :: "file_entry \<Rightarrow> int \<Rightarrow> bytes \<Rightarrow> bool" where
  "same_name r parent name = (fe_parent r = parent \<and> fe_name r = name)"

definition insert_file :: "file_entry \<Rightarrow> db \<Rightarrow> string + db \<times> unit" where
  "insert_file e d =
     (if db_seq d \<ge> I64_MAX then Inl ''database or disk is full''
      else if list_ex (\<lambda>r. same_name r (fe_parent e) (fe_name e)) (db_files d) then
        Inl ''UNIQUE constraint failed''
      else if \<not> list_ex (\<lambda>r. fe_id r = fe_parent e) (db_files d) \<and> fe_parent e \<noteq> db_seq d + 1 then
        Inl ''FOREIGN KEY constraint failed''
      else
        Inr (d\<lparr>db_files := db_files d @ [e\<lparr>fe_id := db_seq d + 1\<rparr>], db_seq := db_seq d + 1\<rparr>, ()))"

definition insert_condemned :: "int \<Rightarrow> bytes \<Rightarrow> db \<Rightarrow> string + db \<times> unit" where
  "insert_condemned dir name d =
     (if (dir, name) \<in> set (db_condemned d) then Inl ''UNIQUE constraint failed''
      else if \<not> list_ex (\<lambda>r. fe_id r = dir) (db_files d) then Inl ''FOREIGN KEY constraint failed''
      else Inr (d\<lparr>db_condemned := db_condemned d @ [(dir, name)]\<rparr>, ()))"

subsection \<open>Connections and transactions\<close>

record conn =
  cx_db :: db
  cx_tx :: "db option"
  cx_count :: nat

type_synonym 'a sql = "conn \<Rightarrow> conn \<times> (string + 'a)"
type_synonym faults = "nat \<Rightarrow> string option"

definition sql_ok :: "'a \<Rightarrow> 'a sql" where
  "sql_ok a c = (c, Inr a)"

definition sql_bind :: "'a sql \<Rightarrow> ('a \<Rightarrow> 'b sql) \<Rightarrow> 'b sql" where
  "sql_bind m f c = (case m c of (c', Inl e) \<Rightarrow> (c', Inl e) | (c', Inr a) \<Rightarrow> f a c')"

definition stmt :: "faults \<Rightarrow> (db \<Rightarrow> string + db \<times> 'a) \<Rightarrow> 'a sql" where
  "stmt flt f c =
     (let c' = c\<lparr>cx_count := cx_count c + 1\<rparr>
      in case flt (cx_count c) of
           Some e \<Rightarrow> (c', Inl e)
         | None \<Rightarrow>
             case f (cx_db c) of
               Inl e \<Rightarrow> (c', Inl e)
             | Inr (d, a) \<Rightarrow> (c'\<lparr>cx_db := d\<rparr>, Inr a))"

definition query :: "faults \<Rightarrow> (db \<Rightarrow> 'a) \<Rightarrow> 'a sql" where
  "query flt f = stmt flt (\<lambda>d. Inr (d, f d))"

definition begin_tx :: "faults \<Rightarrow> unit sql" where
  "begin_tx flt c =
     (let c' = c\<lparr>cx_count := cx_count c + 1\<rparr>
      in case flt (cx_count c) of
           Some e \<Rightarrow> (c', Inl e)
         | None \<Rightarrow>
             if cx_tx c \<noteq> None then (c', Inl ''cannot start a transaction within a transaction'')
             else (c'\<lparr>cx_tx := Some (cx_db c)\<rparr>, Inr ()))"

definition commit_tx :: "faults \<Rightarrow> unit sql" where
  "commit_tx flt c =
     (let c' = c\<lparr>cx_count := cx_count c + 1\<rparr>
      in case flt (cx_count c) of Some e \<Rightarrow> (c', Inl e) | None \<Rightarrow> (c'\<lparr>cx_tx := None\<rparr>, Inr ()))"

text \<open>The result of \<open>ROLLBACK\<close> is dropped: when it fails, SQLite has already rolled back.\<close>

definition rollback_tx :: "conn \<Rightarrow> conn" where
  "rollback_tx c =
     c\<lparr>cx_count := cx_count c + 1, cx_db := (case cx_tx c of None \<Rightarrow> cx_db c | Some d \<Rightarrow> d), cx_tx := None\<rparr>"

definition tx :: "faults \<Rightarrow> 'a sql \<Rightarrow> 'a sql" where
  "tx flt f c =
     (case begin_tx flt c of
        (c1, Inl e) \<Rightarrow> (c1, Inl e)
      | (c1, Inr _) \<Rightarrow>
          case f c1 of
            (c2, Inr v) \<Rightarrow>
              (case commit_tx flt c2 of (c3, Inl e) \<Rightarrow> (c3, Inl e) | (c3, Inr _) \<Rightarrow> (c3, Inr v))
          | (c2, Inl e) \<Rightarrow> (rollback_tx c2, Inl e))"

subsection \<open>The operations\<close>

datatype rename_status = RenameOk | RenameSourceNotFound | RenameDestExists'
datatype update_status = UpdateOk | UpdateNotFound | UpdateNotMatched
datatype delete_status = DeleteOk | DeleteDirNotEmpty | DeleteNotFound | DeleteNotMatched

text \<open>
  In the first statement the inner \<open>parent\<close> is the column of the outer \<open>file\<close> row, because
  \<open>condemnation\<close> has no such column: the inner condition is the same as the outer one, and the
  names condemned in any directory are selected.
\<close>

definition purge_condemned :: "int \<Rightarrow> db \<Rightarrow> db" where
  "purge_condemned dir d =
     delete_files (\<lambda>r. fe_parent r = dir \<and>
       (\<exists>c \<in> set (db_condemned d). fe_parent r = dir \<and> snd c = fe_name r)) d"

definition clear_condemned :: "int \<Rightarrow> db \<Rightarrow> db" where
  "clear_condemned dir d = d\<lparr>db_condemned := filter (\<lambda>c. fst c \<noteq> dir) (db_condemned d)\<rparr>"

definition rows_in :: "int \<Rightarrow> db \<Rightarrow> file_entry list" where
  "rows_in dir d = filter (\<lambda>r. fe_parent r = dir \<and> fe_id r \<noteq> 0) (db_files d)"

text \<open>The rows fed to the callback, and whether the directory exists.\<close>

definition dao_list :: "faults \<Rightarrow> bool \<Rightarrow> int \<Rightarrow> (file_entry list \<times> bool) sql" where
  "dao_list flt purge dir =
     tx flt
       (sql_bind
          (if purge then
             sql_bind (stmt flt (\<lambda>d. Inr (purge_condemned dir d, ()))) (\<lambda>_.
               stmt flt (\<lambda>d. Inr (clear_condemned dir d, ())))
           else sql_ok ())
          (\<lambda>_. sql_bind (query flt (rows_in dir)) (\<lambda>rows.
            sql_bind (query flt (\<lambda>d. list_ex (\<lambda>r. fe_id r = dir) (db_files d))) (\<lambda>ex.
              sql_ok (rows, ex)))))"

definition matching :: "file_entry \<Rightarrow> file_entry \<Rightarrow> bool" where
  "matching e r =
     (fe_parent r = fe_parent e \<and> fe_name r = fe_name e \<and> fe_typ r = fe_typ e \<and>
      fe_mode r = fe_mode e \<and> fe_mtime r = fe_mtime e \<and> fe_content r = fe_content e)"

definition get_matching :: "faults \<Rightarrow> file_entry \<Rightarrow> int option sql" where
  "get_matching flt e = query flt (\<lambda>d. map_option fe_id (find (matching e) (db_files d)))"

definition dao_exists :: "faults \<Rightarrow> int \<Rightarrow> bytes \<Rightarrow> bool sql" where
  "dao_exists flt parent name = query flt (\<lambda>d. list_ex (\<lambda>r. same_name r parent name) (db_files d))"

definition get_by_name :: "faults \<Rightarrow> int \<Rightarrow> bytes \<Rightarrow> file_entry option sql" where
  "get_by_name flt parent name = query flt (\<lambda>d. find (\<lambda>r. same_name r parent name) (db_files d))"

definition get_id_of :: "faults \<Rightarrow> int \<Rightarrow> bytes \<Rightarrow> int option sql" where
  "get_id_of flt parent name =
     query flt (\<lambda>d. map_option fe_id (find (\<lambda>r. same_name r parent name) (db_files d)))"

definition has_children :: "faults \<Rightarrow> int \<Rightarrow> bool sql" where
  "has_children flt parent = query flt (\<lambda>d. list_ex (\<lambda>r. fe_parent r = parent) (db_files d))"

definition rename_rows :: "int \<Rightarrow> bytes \<Rightarrow> bytes \<Rightarrow> db \<Rightarrow> db" where
  "rename_rows parent old new d =
     d\<lparr>db_files := map (\<lambda>r. if same_name r parent old then r\<lparr>fe_name := new\<rparr> else r) (db_files d)\<rparr>"

definition dao_rename :: "faults \<Rightarrow> int \<Rightarrow> bytes \<Rightarrow> bytes \<Rightarrow> rename_status sql" where
  "dao_rename flt parent old new =
     tx flt
       (sql_bind (dao_exists flt parent old) (\<lambda>found.
          if \<not> found then sql_ok RenameSourceNotFound
          else
            sql_bind (dao_exists flt parent new) (\<lambda>taken.
              if taken then sql_ok RenameDestExists'
              else
                sql_bind (stmt flt (\<lambda>d. Inr (rename_rows parent old new d, ()))) (\<lambda>_.
                  sql_ok RenameOk))))"

definition dao_create :: "faults \<Rightarrow> file_entry \<Rightarrow> int option sql" where
  "dao_create flt e =
     tx flt
       (sql_bind (dao_exists flt (fe_parent e) (fe_name e)) (\<lambda>found.
          if found then sql_ok None
          else sql_bind (stmt flt (insert_file e)) (\<lambda>_. get_id_of flt (fe_parent e) (fe_name e))))"

definition update_row :: "int \<Rightarrow> file_entry \<Rightarrow> db \<Rightarrow> db" where
  "update_row i new d =
     d\<lparr>db_files :=
       map (\<lambda>r. if fe_id r = i
                then r\<lparr>fe_typ := fe_typ new, fe_mode := fe_mode new, fe_mtime := fe_mtime new, fe_content := fe_content new\<rparr>
                else r) (db_files d)\<rparr>"

definition dao_update :: "faults \<Rightarrow> file_entry \<Rightarrow> file_entry \<Rightarrow> update_status sql" where
  "dao_update flt old new =
     tx flt
       (sql_bind (get_matching flt old) (\<lambda>found.
          case found of
            Some i \<Rightarrow> sql_bind (stmt flt (\<lambda>d. Inr (update_row i new d, ()))) (\<lambda>_. sql_ok UpdateOk)
          | None \<Rightarrow>
              sql_bind (dao_exists flt (fe_parent old) (fe_name old)) (\<lambda>there.
                sql_ok (if there then UpdateNotMatched else UpdateNotFound))))"

definition delete_raw_impl :: "faults \<Rightarrow> int \<Rightarrow> delete_status sql" where
  "delete_raw_impl flt i =
     sql_bind (has_children flt i) (\<lambda>nonempty.
       if nonempty then sql_ok DeleteDirNotEmpty
       else
         sql_bind (stmt flt (\<lambda>d. Inr (delete_files (\<lambda>r. fe_id r = i) d, ()))) (\<lambda>_. sql_ok DeleteOk))"

definition dao_delete :: "faults \<Rightarrow> file_entry \<Rightarrow> delete_status sql" where
  "dao_delete flt e =
     tx flt
       (sql_bind (get_matching flt e) (\<lambda>found.
          case found of
            Some i \<Rightarrow> delete_raw_impl flt i
          | None \<Rightarrow>
              sql_bind (dao_exists flt (fe_parent e) (fe_name e)) (\<lambda>there.
                sql_ok (if there then DeleteNotMatched else DeleteNotFound))))"

definition delete_raw :: "faults \<Rightarrow> int \<Rightarrow> delete_status sql" where
  "delete_raw flt i = tx flt (delete_raw_impl flt i)"

definition dao_condemn :: "faults \<Rightarrow> int \<Rightarrow> bytes \<Rightarrow> unit sql" where
  "dao_condemn flt parent name = stmt flt (insert_condemned parent name)"

definition dao_uncondemn :: "faults \<Rightarrow> int \<Rightarrow> bytes \<Rightarrow> unit sql" where
  "dao_uncondemn flt parent name =
     stmt flt (\<lambda>d. Inr (d\<lparr>db_condemned := filter (\<lambda>c. c \<noteq> (parent, name)) (db_condemned d)\<rparr>, ()))"

subsection \<open>Well-formedness\<close>

text \<open>
  Keys are unique and below the high-water mark, names are unique in a directory, the root row is
  there and the only one with an empty name in its directory, every other row's parent exists and
  is older than the row, and condemnations are of existing directories and non-empty names.
\<close>

definition db_ok :: "db \<Rightarrow> bool" where
  "db_ok d =
     (distinct (map fe_id (db_files d)) \<and>
      distinct (map (\<lambda>r. (fe_parent r, fe_name r)) (db_files d)) \<and>
      (\<forall>r \<in> set (db_files d). 0 \<le> fe_id r \<and> fe_id r \<le> db_seq d \<and> fe_parent r \<in> fe_id ` set (db_files d)) \<and>
      (\<forall>r \<in> set (db_files d). fe_id r \<noteq> 0 \<longrightarrow> fe_parent r < fe_id r) \<and>
      (\<exists>r \<in> set (db_files d). fe_id r = 0 \<and> fe_parent r = 0 \<and> fe_name r = []) \<and>
      distinct (db_condemned d) \<and> fst ` set (db_condemned d) \<subseteq> fe_id ` set (db_files d) \<and>
      [] \<notin> snd ` set (db_condemned d))"

text \<open>The database other connections, and the next process, see.\<close>

definition committed :: "conn \<Rightarrow> db" where
  "committed c = (case cx_tx c of None \<Rightarrow> cx_db c | Some d \<Rightarrow> d)"

text \<open>\<open>b\<close> is a key the caller holds, so one the store has given out.\<close>

definition store_ok :: "int \<Rightarrow> db \<Rightarrow> bool" where
  "store_ok b d = (db_ok d \<and> b \<le> db_seq d)"

definition conn_ok :: "int \<Rightarrow> conn \<Rightarrow> bool" where
  "conn_ok b c = (store_ok b (cx_db c) \<and> db_ok (committed c))"

text \<open>What the body of a transaction keeps, and what an operation guarantees: it keeps a
  connection well-formed, and leaves the committed database alone when it fails.\<close>

definition body_ok :: "int \<Rightarrow> 'a sql \<Rightarrow> bool" where
  "body_ok b m =
     (\<forall>c. store_ok b (cx_db c) \<longrightarrow> store_ok b (cx_db (fst (m c))) \<and> cx_tx (fst (m c)) = cx_tx c)"

definition sql_safe :: "int \<Rightarrow> 'a sql \<Rightarrow> bool" where
  "sql_safe b m =
     (\<forall>c. conn_ok b c \<longrightarrow>
        conn_ok b (fst (m c)) \<and> (\<not> is_ok (snd (m c)) \<longrightarrow> committed (fst (m c)) = committed c))"

text \<open>A directory \<open>d\<close> and a file \<open>x\<close> in the root, with the name \<open>x\<close> condemned in
  \<open>d\<close>.\<close>

definition demo_db :: db where
  "demo_db =
     \<lparr>db_files = [root_row, root_row\<lparr>fe_id := 1, fe_name := ''d'', fe_typ := 1\<rparr>, root_row\<lparr>fe_id := 2, fe_name := ''x''\<rparr>],
      db_seq = 2, db_condemned = [(1, ''x'')]\<rparr>"

section \<open>Lemmas\<close>

subsection \<open>Cascading deletes\<close>

lemma children_ofI: "r \<in> set rows \<Longrightarrow> fe_parent r \<in> ids \<Longrightarrow> fe_id r \<in> children_of rows ids"
  by (auto simp: children_of_def)

lemma cascade_superset: "ids \<subseteq> cascade n rows ids"
proof (induction n arbitrary: ids)
  case (Suc n)
  from Suc.IH [of "ids \<union> children_of rows ids"] show ?case by auto
qed simp

lemma cascade_fixpoint: "children_of rows ids \<subseteq> ids \<Longrightarrow> cascade n rows ids = ids"
  by (induction n) (auto simp: Un_absorb2)

lemma cascade_closed_aux:
  "length (filter (\<lambda>r. fe_id r \<notin> ids) rows) \<le> n \<Longrightarrow> children_of rows (cascade n rows ids) \<subseteq> cascade n rows ids"
proof (induction n arbitrary: ids)
  case 0
  then have "\<forall>r \<in> set rows. fe_id r \<in> ids" by (simp add: filter_empty_conv)
  then show ?case by (auto simp: children_of_def)
next
  case (Suc n)
  show ?case
  proof (cases "children_of rows ids \<subseteq> ids")
    case True
    then show ?thesis using cascade_fixpoint [OF True, of "Suc n"] by simp
  next
    case False
    let ?ids = "ids \<union> children_of rows ids"
    from False obtain r where r: "r \<in> set rows" "fe_parent r \<in> ids" "fe_id r \<notin> ids"
      by (auto simp: children_of_def)
    have f: "filter (\<lambda>r. fe_id r \<notin> ?ids) rows = filter (\<lambda>r. fe_id r \<notin> ?ids) (filter (\<lambda>r. fe_id r \<notin> ids) rows)"
      by (simp add: conj_commute)
    from r have "r \<in> set (filter (\<lambda>r. fe_id r \<notin> ids) rows)" "\<not> fe_id r \<notin> ?ids"
      by (auto intro: children_ofI)
    then have "length (filter (\<lambda>r. fe_id r \<notin> ?ids) rows) < length (filter (\<lambda>r. fe_id r \<notin> ids) rows)"
      unfolding f by (rule length_filter_less)
    with Suc show ?thesis by simp
  qed
qed

lemma cascade_closed: "children_of rows (cascade (length rows) rows ids) \<subseteq> cascade (length rows) rows ids"
  by (rule cascade_closed_aux) simp

lemma cascade_no_root:
  assumes "\<And>r. r \<in> set rows \<Longrightarrow> fe_id r = 0 \<Longrightarrow> fe_parent r = 0" "0 \<notin> ids"
  shows "0 \<notin> cascade n rows ids"
  using assms(2)
proof (induction n arbitrary: ids)
  case (Suc n)
  have "0 \<notin> children_of rows ids"
    using Suc.prems assms(1) by (force simp: children_of_def)
  with Suc show ?case by simp
qed simp

lemma cascade_greater:
  assumes "\<And>r. r \<in> set rows \<Longrightarrow> fe_id r \<noteq> 0 \<Longrightarrow> fe_parent r < fe_id r"
    "\<And>r. r \<in> set rows \<Longrightarrow> fe_id r = 0 \<Longrightarrow> fe_parent r = 0" "0 \<le> p" "\<And>x. x \<in> ids \<Longrightarrow> p < x"
    "x \<in> cascade n rows ids"
  shows "p < x"
  using assms(4,5)
proof (induction n arbitrary: ids)
  case (Suc n)
  have "p < y" if "y \<in> ids \<union> children_of rows ids" for y
  proof (cases "y \<in> ids")
    case False
    with that obtain r where r: "r \<in> set rows" "fe_id r = y" "fe_parent r \<in> ids"
      by (auto simp: children_of_def)
    with Suc.prems(1) [of "fe_parent r"] assms(1) [of r] assms(2) [of r] assms(3) show ?thesis by (cases "y = 0") auto
  qed (use Suc.prems in auto)
  with Suc.IH [of "ids \<union> children_of rows ids"] Suc.prems(2) show ?case by simp
qed simp

lemma cascade_from:
  "x \<in> cascade n rows ids \<Longrightarrow> x \<in> ids \<or> (\<exists>r \<in> set rows. fe_id r = x \<and> fe_parent r \<in> cascade n rows ids)"
proof (induction n arbitrary: ids)
  case (Suc n)
  let ?ids = "ids \<union> children_of rows ids"
  from Suc.IH [of ?ids] Suc.prems show ?case
    using cascade_superset [of ?ids n rows] by (auto simp: children_of_def)
qed simp

text \<open>When nothing is below the deleted rows, only they go.\<close>

lemma cascade_leaf: "children_of rows ids = {} \<Longrightarrow> cascade n rows ids = ids"
  by (rule cascade_fixpoint) simp

subsection \<open>Statements keep the database well-formed\<close>

lemma db_ok_root: "db_ok d \<Longrightarrow> r \<in> set (db_files d) \<Longrightarrow> fe_id r = 0 \<Longrightarrow> fe_parent r = 0 \<and> fe_name r = []"
  unfolding db_ok_def by (metis (no_types, lifting) distinct_map inj_on_eq_iff)

lemma db_ok_unique:
  "db_ok d \<Longrightarrow> r \<in> set (db_files d) \<Longrightarrow> r' \<in> set (db_files d) \<Longrightarrow>
   fe_parent r = fe_parent r' \<Longrightarrow> fe_name r = fe_name r' \<Longrightarrow> r = r'"
  unfolding db_ok_def by (metis (no_types, lifting) distinct_map inj_on_eq_iff)

lemma db_ok_id_unique:
  "db_ok d \<Longrightarrow> r \<in> set (db_files d) \<Longrightarrow> r' \<in> set (db_files d) \<Longrightarrow> fe_id r = fe_id r' \<Longrightarrow> r = r'"
  unfolding db_ok_def by (metis (no_types, lifting) distinct_map inj_on_eq_iff)

lemma delete_ids_ok:
  assumes "db_ok d" "0 \<notin> ids"
  shows "db_ok (delete_ids ids d)"
proof -
  let ?D = "cascade (length (db_files d)) (db_files d) ids"
  have root: "0 \<notin> ?D"
    using cascade_no_root [of "db_files d" ids] db_ok_root [OF assms(1)] assms(2) by blast
  have cl: "fe_parent r \<in> ?D \<Longrightarrow> r \<in> set (db_files d) \<Longrightarrow> fe_id r \<in> ?D" for r
    using cascade_closed [of "db_files d" ids] by (auto intro: children_ofI)
  let ?rows = "filter (\<lambda>r. fe_id r \<notin> ?D) (db_files d)"
  have parents: "fe_parent r \<in> fe_id ` set ?rows" if "r \<in> set ?rows" for r
    using that assms(1) cl [of r] by (fastforce simp: db_ok_def)
  have "\<exists>r \<in> set ?rows. fe_id r = 0 \<and> fe_parent r = 0 \<and> fe_name r = []"
    using assms(1) root by (force simp: db_ok_def)
  moreover have "distinct (map fe_id ?rows)" "distinct (map (\<lambda>r. (fe_parent r, fe_name r)) ?rows)"
    using assms(1) by (auto simp: db_ok_def intro: distinct_map_filter)
  moreover have "fst ` set (filter (\<lambda>c. fst c \<notin> ?D) (db_condemned d)) \<subseteq> fe_id ` set ?rows"
    using assms(1) by (fastforce simp: db_ok_def)
  ultimately show ?thesis
    using assms(1) parents unfolding delete_ids_def Let_def db_ok_def by auto
qed

lemma db_seq_delete_ids [simp]: "db_seq (delete_ids ids d) = db_seq d" "db_seq (delete_files P d) = db_seq d"
  by (simp_all add: delete_ids_def delete_files_def Let_def)

lemma delete_files_ok:
  "db_ok d \<Longrightarrow> (\<And>r. r \<in> set (db_files d) \<Longrightarrow> fe_id r = 0 \<Longrightarrow> \<not> P r) \<Longrightarrow> db_ok (delete_files P d)"
  unfolding delete_files_def by (rule delete_ids_ok) auto

lemma insert_file_eq:
  assumes "insert_file e d = Inr (d', u)"
  shows "d' = d\<lparr>db_files := db_files d @ [e\<lparr>fe_id := db_seq d + 1\<rparr>], db_seq := db_seq d + 1\<rparr>"
    "\<forall>r \<in> set (db_files d). \<not> same_name r (fe_parent e) (fe_name e)"
    "fe_parent e \<le> db_seq d \<Longrightarrow> fe_parent e \<in> fe_id ` set (db_files d)"
  using assms by (auto simp: insert_file_def list_ex_iff image_iff split: if_splits) metis

lemma insert_file_ok:
  assumes "db_ok d" "insert_file e d = Inr (d', u)" "fe_parent e \<le> db_seq d"
  shows "db_ok d'"
proof -
  note e = insert_file_eq [OF assms(2)]
  have "db_seq d + 1 \<notin> fe_id ` set (db_files d)"
    using assms(1) by (force simp: db_ok_def)
  moreover have "(fe_parent e, fe_name e) \<notin> (\<lambda>r. (fe_parent r, fe_name r)) ` set (db_files d)"
    using e(2) by (auto simp: same_name_def)
  moreover have "0 \<le> db_seq d" using assms(1) by (force simp: db_ok_def)
  ultimately show ?thesis
    using assms(1,3) e(3) unfolding e(1) db_ok_def by (auto simp: image_iff)
qed

text \<open>A statement that rewrites rows in place, keeping their keys and parents.\<close>

lemma db_ok_map:
  assumes "db_ok d" "\<And>r. fe_id (f r) = fe_id r \<and> fe_parent (f r) = fe_parent r"
    "distinct (map (\<lambda>r. (fe_parent r, fe_name r)) (map f (db_files d)))"
    "\<And>r. fe_id r = 0 \<Longrightarrow> fe_parent r = 0 \<Longrightarrow> fe_name r = [] \<Longrightarrow> fe_name (f r) = []"
  shows "db_ok (d\<lparr>db_files := map f (db_files d)\<rparr>)"
proof -
  have ids: "fe_id \<circ> f = fe_id" using assms(2) by auto
  then have idset: "fe_id ` f ` X = fe_id ` X" for X by (metis image_comp)
  have rows: "\<forall>r \<in> f ` set (db_files d). 0 \<le> fe_id r \<and> fe_id r \<le> db_seq d \<and> fe_parent r \<in> fe_id ` set (db_files d)"
    "\<forall>r \<in> f ` set (db_files d). fe_id r \<noteq> 0 \<longrightarrow> fe_parent r < fe_id r"
    using assms(1,2) by (simp_all add: db_ok_def)
  have root: "\<exists>r \<in> f ` set (db_files d). fe_id r = 0 \<and> fe_parent r = 0 \<and> fe_name r = []"
  proof -
    from assms(1) obtain r where "r \<in> set (db_files d)" "fe_id r = 0" "fe_parent r = 0" "fe_name r = []"
      unfolding db_ok_def by blast
    with assms(2,4) show ?thesis by (intro bexI [of _ "f r"]) auto
  qed
  from assms(1) have rest: "distinct (map fe_id (db_files d))" "distinct (db_condemned d)"
    "fst ` set (db_condemned d) \<subseteq> fe_id ` set (db_files d)" "[] \<notin> snd ` set (db_condemned d)"
    by (simp_all add: db_ok_def)
  show ?thesis
    unfolding db_ok_def
    by (intro conjI) (use assms(3) rest rows root in \<open>simp_all add: ids idset\<close>)
qed

lemma rename_rows_ok:
  assumes "db_ok d" "old \<noteq> []" "\<not> list_ex (\<lambda>r. same_name r parent new) (db_files d)"
  shows "db_ok (rename_rows parent old new d)"
proof -
  let ?f = "\<lambda>r. if same_name r parent old then r\<lparr>fe_name := new\<rparr> else r"
  let ?k = "\<lambda>r. (fe_parent r, fe_name r)"
  have "inj_on (?k \<circ> ?f) (set (db_files d))"
  proof (rule inj_onI)
    fix r r'
    assume "r \<in> set (db_files d)" "r' \<in> set (db_files d)" "(?k \<circ> ?f) r = (?k \<circ> ?f) r'"
    with assms(3) db_ok_unique [OF assms(1), of r r'] show "r = r'"
      by (auto simp: list_ex_iff same_name_def split: if_splits)
  qed
  then have "distinct (map ?k (map ?f (db_files d)))"
    using assms(1) by (simp add: db_ok_def distinct_map)
  from db_ok_map [OF assms(1) _ this] show ?thesis
    using assms(2) unfolding rename_rows_def by (simp add: same_name_def)
qed

lemma update_row_ok:
  assumes "db_ok d"
  shows "db_ok (update_row i new d)"
proof -
  let ?f = "\<lambda>r. if fe_id r = i
    then r\<lparr>fe_typ := fe_typ new, fe_mode := fe_mode new, fe_mtime := fe_mtime new, fe_content := fe_content new\<rparr> else r"
  have "map (\<lambda>r. (fe_parent r, fe_name r)) (map ?f (db_files d)) =
      map (\<lambda>r. (fe_parent r, fe_name r)) (db_files d)" by simp
  with assms have "distinct (map (\<lambda>r. (fe_parent r, fe_name r)) (map ?f (db_files d)))"
    unfolding db_ok_def by metis
  from db_ok_map [OF assms _ this] show ?thesis
    unfolding update_row_def by simp
qed

lemma purge_condemned_ok:
  assumes "db_ok d"
  shows "db_ok (purge_condemned dir d)"
  unfolding purge_condemned_def
proof (rule delete_files_ok [OF assms])
  fix r
  assume "r \<in> set (db_files d)" "fe_id r = 0"
  then have "fe_name r = []" using db_ok_root [OF assms] by blast
  with assms show "\<not> (fe_parent r = dir \<and> (\<exists>c \<in> set (db_condemned d). fe_parent r = dir \<and> snd c = fe_name r))"
    by (force simp: db_ok_def)
qed

lemma clear_condemned_ok: "db_ok d \<Longrightarrow> db_ok (d\<lparr>db_condemned := filter P (db_condemned d)\<rparr>)"
  unfolding db_ok_def by (auto simp: image_subset_iff)

lemma insert_condemned_ok:
  assumes "db_ok d" "name \<noteq> []" "insert_condemned dir name d = Inr (d', u)"
  shows "db_ok d'"
proof -
  from assms(3) have "d' = d\<lparr>db_condemned := db_condemned d @ [(dir, name)]\<rparr>" "(dir, name) \<notin> set (db_condemned d)"
    "list_ex (\<lambda>r. fe_id r = dir) (db_files d)"
    by (auto simp: insert_condemned_def split: if_splits)
  moreover from this(3) have "dir \<in> fe_id ` set (db_files d)" by (auto simp: list_ex_iff)
  ultimately show ?thesis using assms(1,2) unfolding db_ok_def by auto
qed

subsection \<open>Operations\<close>

lemma store_ok_db [simp]: "store_ok b d \<Longrightarrow> db_ok d"
  by (simp add: store_ok_def)

lemma stmt_body_ok:
  assumes "\<And>d d' a. store_ok b d \<Longrightarrow> f d = Inr (d', a) \<Longrightarrow> store_ok b d'"
  shows "body_ok b (stmt flt f)"
  using assms by (auto simp: body_ok_def stmt_def Let_def split: option.splits sum.splits prod.splits)

lemma query_body_ok [simp]: "body_ok b (query flt f)"
  unfolding query_def by (rule stmt_body_ok) auto

lemma sql_ok_body_ok [simp]: "body_ok b (sql_ok a)"
  by (simp add: body_ok_def sql_ok_def)

lemma sql_bind_body_ok:
  assumes "body_ok b m" "\<And>a. body_ok b (f a)"
  shows "body_ok b (sql_bind m f)"
  unfolding body_ok_def
proof (intro allI impI)
  fix c :: conn
  assume c: "store_ok b (cx_db c)"
  obtain c1 r where m: "m c = (c1, r)" by (cases "m c")
  with assms(1) c have c1: "store_ok b (cx_db c1)" "cx_tx c1 = cx_tx c"
    unfolding body_ok_def by (metis fst_conv)+
  show "store_ok b (cx_db (fst (sql_bind m f c))) \<and> cx_tx (fst (sql_bind m f c)) = cx_tx c"
  proof (cases r)
    case (Inr a)
    with assms(2) [of a] c1 m show ?thesis by (simp add: body_ok_def sql_bind_def)
  qed (use m c1 in \<open>simp add: sql_bind_def\<close>)
qed

lemma queries_body_ok [simp]:
  "body_ok b (get_matching flt e)" "body_ok b (dao_exists flt p n)" "body_ok b (get_by_name flt p n)"
  "body_ok b (get_id_of flt p n)" "body_ok b (has_children flt p)"
  by (simp_all add: get_matching_def dao_exists_def get_by_name_def get_id_of_def has_children_def)

lemma stmt_safe:
  assumes "\<And>d d' a. store_ok b d \<Longrightarrow> f d = Inr (d', a) \<Longrightarrow> store_ok b d'"
  shows "sql_safe b (stmt flt f)"
  unfolding sql_safe_def
proof (intro allI impI)
  fix c
  assume "conn_ok b c"
  with assms [of "cx_db c"] show "conn_ok b (fst (stmt flt f c)) \<and>
      (\<not> is_ok (snd (stmt flt f c)) \<longrightarrow> committed (fst (stmt flt f c)) = committed c)"
    by (cases "flt (cx_count c)"; cases "f (cx_db c)"; cases "cx_tx c")
      (auto simp: conn_ok_def committed_def stmt_def Let_def split: prod.splits)
qed

lemma query_safe [simp]: "sql_safe b (query flt f)"
  unfolding query_def by (rule stmt_safe) auto

lemma tx_safe:
  assumes "body_ok b f"
  shows "sql_safe b (tx flt f)"
  unfolding sql_safe_def
proof (intro allI impI)
  fix c
  assume c: "conn_ok b c"
  show "conn_ok b (fst (tx flt f c)) \<and> (\<not> is_ok (snd (tx flt f c)) \<longrightarrow> committed (fst (tx flt f c)) = committed c)"
  proof (cases "flt (cx_count c) = None \<and> cx_tx c = None")
    case False
    with c show ?thesis
      by (auto simp: tx_def begin_tx_def Let_def conn_ok_def committed_def split: option.splits)
  next
    case True
    let ?c1 = "c\<lparr>cx_count := cx_count c + 1, cx_tx := Some (cx_db c)\<rparr>"
    obtain c2 r where r: "f ?c1 = (c2, r)" by (cases "f ?c1")
    have d: "store_ok b (cx_db c)" "committed c = cx_db c"
      using c True by (auto simp: conn_ok_def committed_def)
    with assms have c2: "store_ok b (cx_db c2)" "cx_tx c2 = Some (cx_db c)"
      unfolding body_ok_def using r by (metis conn.select_convs(1) conn.select_convs(2) conn.surjective
          conn.update_convs(2) conn.update_convs(3) fst_conv)+
    have b: "begin_tx flt c = (?c1, Inr ())"
      using True by (simp add: begin_tx_def)
    show ?thesis
    proof (cases r)
      case (Inl e)
      with b r d c2 show ?thesis by (simp add: tx_def rollback_tx_def conn_ok_def committed_def)
    next
      case (Inr v)
      with b r d c2 show ?thesis
        by (cases "flt (cx_count c2)") (simp_all add: tx_def commit_tx_def Let_def conn_ok_def committed_def)
    qed
  qed
qed

lemma insert_store_ok:
  "insert_file e d = Inr (d', u) \<Longrightarrow> store_ok b d \<Longrightarrow> fe_parent e \<le> b \<Longrightarrow> store_ok b d'"
  using insert_file_ok [of d e d' u] insert_file_eq(1) [of e d d' u] by (simp add: store_ok_def)

lemma insert_body_ok: "fe_parent e \<le> b \<Longrightarrow> body_ok b (stmt flt (insert_file e))"
  by (rule stmt_body_ok) (rule insert_store_ok)

lemma seq_kept [simp]:
  "db_seq (purge_condemned dir d) = db_seq d" "db_seq (clear_condemned dir d) = db_seq d"
  "db_seq (rename_rows p old new d) = db_seq d" "db_seq (update_row i r d) = db_seq d"
  by (simp_all add: purge_condemned_def clear_condemned_def rename_rows_def update_row_def)

text \<open>The conditions are that the names the caller passes are not empty, and that the keys are
  ones the store has given out.\<close>

lemma dao_list_safe: "sql_safe b (dao_list flt purge dir)"
  unfolding dao_list_def
  by (intro tx_safe sql_bind_body_ok)
    (auto intro!: sql_bind_body_ok stmt_body_ok
      simp: store_ok_def purge_condemned_ok clear_condemned_ok clear_condemned_def)

lemma dao_create_safe: "fe_parent e \<le> b \<Longrightarrow> sql_safe b (dao_create flt e)"
  unfolding dao_create_def
  by (intro tx_safe sql_bind_body_ok) (simp_all add: sql_bind_body_ok insert_body_ok)

lemma dao_update_safe: "sql_safe b (dao_update flt old new)"
  unfolding dao_update_def
  by (intro tx_safe sql_bind_body_ok)
    (auto intro!: sql_bind_body_ok stmt_body_ok simp: store_ok_def update_row_ok
      split: option.splits)

lemma dao_condemn_safe: "name \<noteq> [] \<Longrightarrow> sql_safe b (dao_condemn flt p name)"
  unfolding dao_condemn_def
  by (rule stmt_safe) (auto simp: store_ok_def insert_condemned_def split: if_splits intro: insert_condemned_ok)

lemma dao_uncondemn_safe: "sql_safe b (dao_uncondemn flt p name)"
  unfolding dao_uncondemn_def
  by (rule stmt_safe) (auto simp: store_ok_def clear_condemned_ok)

text \<open>Bodies whose statement relies on what an earlier query saw.\<close>

lemma query_bind_at:
  assumes "store_ok b (cx_db c)"
    "\<And>c'. cx_db c' = cx_db c \<Longrightarrow> cx_tx c' = cx_tx c \<Longrightarrow>
       store_ok b (cx_db (fst (g (f (cx_db c)) c'))) \<and> cx_tx (fst (g (f (cx_db c)) c')) = cx_tx c"
  shows "store_ok b (cx_db (fst (sql_bind (query flt f) g c))) \<and> cx_tx (fst (sql_bind (query flt f) g c)) = cx_tx c"
  using assms by (cases "flt (cx_count c)") (simp_all add: sql_bind_def query_def stmt_def Let_def)

lemma stmt_bind_at:
  assumes "store_ok b (cx_db c)" "store_ok b (h (cx_db c))"
  shows "store_ok b (cx_db (fst (sql_bind (stmt flt (\<lambda>d. Inr (h d, ()))) (\<lambda>_. sql_ok a) c))) \<and>
    cx_tx (fst (sql_bind (stmt flt (\<lambda>d. Inr (h d, ()))) (\<lambda>_. sql_ok a) c)) = cx_tx c"
  using assms by (cases "flt (cx_count c)") (simp_all add: sql_bind_def sql_ok_def stmt_def Let_def)

lemma sql_ok_at: "store_ok b (cx_db c) \<Longrightarrow> store_ok b (cx_db (fst (sql_ok a c))) \<and> cx_tx (fst (sql_ok a c)) = cx_tx c"
  by (simp add: sql_ok_def)

lemma dao_rename_safe:
  assumes "old \<noteq> []"
  shows "sql_safe b (dao_rename flt p old new)"
  unfolding dao_rename_def dao_exists_def
proof (rule tx_safe, unfold body_ok_def, intro allI impI query_bind_at, assumption)
  fix c c' :: conn
  assume c: "store_ok b (cx_db c)" "cx_db c' = cx_db c" "cx_tx c' = cx_tx c"
  let ?x = "list_ex (\<lambda>r. same_name r p new) (db_files (cx_db c))"
  let ?m = "sql_bind (query flt (\<lambda>d. list_ex (\<lambda>r. same_name r p new) (db_files d))) (\<lambda>taken.
    if taken then sql_ok RenameDestExists'
    else sql_bind (stmt flt (\<lambda>d. Inr (rename_rows p old new d, ()))) (\<lambda>_. sql_ok RenameOk))"
  have "store_ok b (cx_db (fst (?m c'))) \<and> cx_tx (fst (?m c')) = cx_tx c'"
  proof (rule query_bind_at)
    fix c2 :: conn
    assume c2: "cx_db c2 = cx_db c'" "cx_tx c2 = cx_tx c'"
    show "store_ok b (cx_db (fst ((if list_ex (\<lambda>r. same_name r p new) (db_files (cx_db c')) then sql_ok RenameDestExists'
        else sql_bind (stmt flt (\<lambda>d. Inr (rename_rows p old new d, ()))) (\<lambda>_. sql_ok RenameOk)) c2))) \<and>
      cx_tx (fst ((if list_ex (\<lambda>r. same_name r p new) (db_files (cx_db c')) then sql_ok RenameDestExists'
        else sql_bind (stmt flt (\<lambda>d. Inr (rename_rows p old new d, ()))) (\<lambda>_. sql_ok RenameOk)) c2)) = cx_tx c'"
    proof (cases ?x)
      case False
      with c c2 rename_rows_ok [OF _ assms, of "cx_db c" p new] have "store_ok b (rename_rows p old new (cx_db c2))"
        by (simp add: store_ok_def)
      with c c2 stmt_bind_at [of b c2 "rename_rows p old new" flt RenameOk] False show ?thesis by simp
    qed (use c c2 in \<open>simp add: sql_ok_def\<close>)
  qed (use c in simp)
  with c show "store_ok b (cx_db (fst ((if \<not> list_ex (\<lambda>r. same_name r p old) (db_files (cx_db c))
      then sql_ok RenameSourceNotFound else ?m) c'))) \<and>
    cx_tx (fst ((if \<not> list_ex (\<lambda>r. same_name r p old) (db_files (cx_db c)) then sql_ok RenameSourceNotFound else ?m) c')) = cx_tx c"
    by (simp add: sql_ok_def)
qed

lemma delete_raw_body_ok: "body_ok b (delete_raw_impl flt i)"
  unfolding body_ok_def delete_raw_impl_def has_children_def
proof (intro allI impI query_bind_at, assumption)
  fix c c' :: conn
  assume c: "store_ok b (cx_db c)" "cx_db c' = cx_db c" "cx_tx c' = cx_tx c"
  let ?m = "sql_bind (stmt flt (\<lambda>d. Inr (delete_files (\<lambda>r. fe_id r = i) d, ()))) (\<lambda>_. sql_ok DeleteOk)"
  let ?x = "list_ex (\<lambda>r. fe_parent r = i) (db_files (cx_db c))"
  have "store_ok b (cx_db (fst (?m c'))) \<and> cx_tx (fst (?m c')) = cx_tx c'" if "\<not> ?x"
  proof (rule stmt_bind_at)
    have ok: "db_ok (cx_db c)" using c by (simp add: store_ok_def)
    then obtain r where "r \<in> set (db_files (cx_db c))" "fe_parent r = 0" unfolding db_ok_def by blast
    with that have "i \<noteq> 0" by (auto simp: list_ex_iff)
    with ok have "db_ok (delete_files (\<lambda>r. fe_id r = i) (cx_db c))" by (auto intro: delete_files_ok)
    with c show "store_ok b (delete_files (\<lambda>r. fe_id r = i) (cx_db c'))" by (simp add: store_ok_def)
  qed (use c in simp)
  with c show "store_ok b (cx_db (fst ((if ?x then sql_ok DeleteDirNotEmpty else ?m) c'))) \<and>
      cx_tx (fst ((if ?x then sql_ok DeleteDirNotEmpty else ?m) c')) = cx_tx c"
    by (simp add: sql_ok_def)
qed

lemma dao_delete_safe: "sql_safe b (dao_delete flt e)"
  unfolding dao_delete_def
  by (intro tx_safe sql_bind_body_ok) (auto simp: delete_raw_body_ok sql_bind_body_ok split: option.splits)

lemma delete_raw_safe: "sql_safe b (delete_raw flt i)"
  unfolding delete_raw_def by (rule tx_safe) (rule delete_raw_body_ok)

lemmas dao_safe = dao_list_safe dao_rename_safe dao_create_safe dao_update_safe dao_delete_safe
  delete_raw_safe dao_condemn_safe dao_uncondemn_safe

lemma empty_db_ok: "db_ok empty_db"
  by (simp add: db_ok_def empty_db_def root_row_def)

subsection \<open>What a successful operation did\<close>

lemma sql_bind_Inr: "sql_bind m f c = (c', Inr b) \<longleftrightarrow> (\<exists>c1 a. m c = (c1, Inr a) \<and> f a c1 = (c', Inr b))"
  by (auto simp: sql_bind_def split: prod.splits sum.splits)

lemma sql_ok_Inr [simp]: "sql_ok a c = (c', Inr b) \<longleftrightarrow> c' = c \<and> b = a"
  by (auto simp: sql_ok_def)

lemma stmt_Inr:
  "stmt flt f c = (c', Inr a) \<Longrightarrow> f (cx_db c) = Inr (cx_db c', a) \<and> cx_tx c' = cx_tx c"
  by (auto simp: stmt_def Let_def split: option.splits sum.splits prod.splits)

lemma query_Inr: "query flt f c = (c', Inr a) \<Longrightarrow> cx_db c' = cx_db c \<and> a = f (cx_db c) \<and> cx_tx c' = cx_tx c"
  unfolding query_def by (drule stmt_Inr) auto

lemma tx_Inr:
  assumes "tx flt f c = (c', Inr v)"
  obtains c1 c2 where "cx_db c1 = cx_db c" "f c1 = (c2, Inr v)" "cx_db c' = cx_db c2"
proof -
  let ?c1 = "c\<lparr>cx_count := cx_count c + 1, cx_tx := Some (cx_db c)\<rparr>"
  obtain c2 r where r: "f ?c1 = (c2, r)" by (cases "f ?c1")
  from assms have b: "begin_tx flt c = (?c1, Inr ())"
    by (auto simp: tx_def begin_tx_def Let_def split: option.splits if_splits)
  with assms r have "r = Inr v" "cx_db c' = cx_db c2"
    by (auto simp: tx_def commit_tx_def Let_def split: sum.splits option.splits)
  with r that [of ?c1 c2] show thesis by simp
qed

lemma find_append_None: "find P xs = None \<Longrightarrow> find P (xs @ ys) = find P ys"
  by (induction xs) (auto split: if_splits)

lemma dao_create_Some:
  assumes "dao_create flt e c = (c', Inr (Some i))" "db_ok (cx_db c)" "fe_parent e \<le> db_seq (cx_db c)"
  shows "insert_file e (cx_db c) = Inr (cx_db c', ()) \<and> i = db_seq (cx_db c) + 1"
proof -
  from assms(1) obtain c1 c2 where t: "cx_db c1 = cx_db c" "cx_db c' = cx_db c2"
    "sql_bind (dao_exists flt (fe_parent e) (fe_name e)) (\<lambda>found. if found then sql_ok None
       else sql_bind (stmt flt (insert_file e)) (\<lambda>_. get_id_of flt (fe_parent e) (fe_name e))) c1 = (c2, Inr (Some i))"
    unfolding dao_create_def by (elim tx_Inr)
  then have ins: "insert_file e (cx_db c) = Inr (cx_db c2, ())"
    and i: "Some i = map_option fe_id (find (\<lambda>r. same_name r (fe_parent e) (fe_name e)) (db_files (cx_db c2)))"
    by (auto simp: sql_bind_Inr dao_exists_def get_id_of_def split: if_splits dest!: query_Inr stmt_Inr)
  note e = insert_file_eq [OF ins]
  from e(2) have "find (\<lambda>r. same_name r (fe_parent e) (fe_name e)) (db_files (cx_db c)) = None"
    by (auto simp: find_None_iff)
  then have "find (\<lambda>r. same_name r (fe_parent e) (fe_name e)) (db_files (cx_db c2)) = Some (e\<lparr>fe_id := db_seq (cx_db c) + 1\<rparr>)"
    unfolding e(1) by (simp add: find_append_None same_name_def)
  with i ins t(2) show ?thesis by simp
qed

lemma dao_rename_Ok:
  assumes "dao_rename flt p old new c = (c', Inr RenameOk)"
  shows "cx_db c' = rename_rows p old new (cx_db c) \<and>
    list_ex (\<lambda>r. same_name r p old) (db_files (cx_db c)) \<and> \<not> list_ex (\<lambda>r. same_name r p new) (db_files (cx_db c))"
  using assms unfolding dao_rename_def
  by (auto elim!: tx_Inr simp: sql_bind_Inr dao_exists_def split: if_splits dest!: query_Inr stmt_Inr)

lemma get_matching_Some:
  assumes "get_matching flt e c = (c', Inr (Some i))"
  shows "cx_db c' = cx_db c \<and> (\<exists>q. find (matching e) (db_files (cx_db c)) = Some q \<and> i = fe_id q)"
  using query_Inr [OF assms [unfolded get_matching_def]]
  by (cases "find (matching e) (db_files (cx_db c))") auto

lemma dao_update_Ok:
  assumes "dao_update flt old new c = (c', Inr UpdateOk)"
  shows "\<exists>r. find (matching old) (db_files (cx_db c)) = Some r \<and> cx_db c' = update_row (fe_id r) new (cx_db c)"
  using assms unfolding dao_update_def
  by (auto elim!: tx_Inr simp: sql_bind_Inr dao_exists_def split: if_splits option.splits
      dest!: get_matching_Some query_Inr stmt_Inr)

lemma delete_raw_impl_Ok:
  assumes "delete_raw_impl flt i c = (c', Inr DeleteOk)"
  shows "cx_db c' = delete_files (\<lambda>r. fe_id r = i) (cx_db c) \<and> \<not> list_ex (\<lambda>r. fe_parent r = i) (db_files (cx_db c))"
  using assms unfolding delete_raw_impl_def
  by (auto simp: sql_bind_Inr has_children_def split: if_splits dest!: query_Inr stmt_Inr)

lemma dao_delete_Ok:
  assumes "dao_delete flt e c = (c', Inr DeleteOk)"
  shows "\<exists>r. find (matching e) (db_files (cx_db c)) = Some r \<and>
    cx_db c' = delete_files (\<lambda>q. fe_id q = fe_id r) (cx_db c) \<and>
    \<not> list_ex (\<lambda>q. fe_parent q = fe_id r) (db_files (cx_db c))"
proof -
  from assms obtain c1 c2 where t: "cx_db c1 = cx_db c" "cx_db c' = cx_db c2"
    "sql_bind (get_matching flt e) (\<lambda>found. case found of Some i \<Rightarrow> delete_raw_impl flt i
       | None \<Rightarrow> sql_bind (dao_exists flt (fe_parent e) (fe_name e)) (\<lambda>there.
           sql_ok (if there then DeleteNotMatched else DeleteNotFound))) c1 = (c2, Inr DeleteOk)"
    unfolding dao_delete_def by (elim tx_Inr)
  then obtain c3 r where "cx_db c3 = cx_db c" "find (matching e) (db_files (cx_db c)) = Some r"
    "delete_raw_impl flt (fe_id r) c3 = (c2, Inr DeleteOk)"
    by (auto simp: sql_bind_Inr dao_exists_def split: option.splits if_splits dest!: get_matching_Some query_Inr)
  with delete_raw_impl_Ok [of flt "fe_id r" c3 c2] t(2) show ?thesis by auto
qed

lemma dao_list_Inr:
  assumes "dao_list flt True dir c = (c', Inr (rows, ex))"
  shows "cx_db c' = clear_condemned dir (purge_condemned dir (cx_db c)) \<and> rows = rows_in dir (cx_db c')"
  using assms unfolding dao_list_def
  by (auto elim!: tx_Inr simp: sql_bind_Inr dest!: query_Inr stmt_Inr)

text \<open>What a purging listing leaves of a directory.\<close>

lemma rows_in_purge:
  assumes "db_ok d"
  shows "rows_in dir (purge_condemned dir d) =
    filter (\<lambda>r. fe_name r \<notin> snd ` set (db_condemned d)) (rows_in dir d)"
proof -
  let ?P = "\<lambda>r. fe_parent r = dir \<and> (\<exists>c \<in> set (db_condemned d). fe_parent r = dir \<and> snd c = fe_name r)"
  let ?ids = "set (map fe_id (filter ?P (db_files d)))"
  let ?D = "cascade (length (db_files d)) (db_files d) ?ids"
  have rows: "fe_id r \<noteq> 0 \<Longrightarrow> fe_parent r < fe_id r" "0 \<le> fe_id r" if "r \<in> set (db_files d)" for r
    using assms that by (auto simp: db_ok_def)
  have "fe_name r \<noteq> []" if "r \<in> set (db_files d)" "?P r" for r
    using assms that by (force simp: db_ok_def)
  then have above: "dir < fe_id r" if "r \<in> set (db_files d)" "?P r" for r
    using that rows(1) [of r] db_ok_root [OF assms, of r] by auto
  have D: "fe_id r \<in> ?D \<longleftrightarrow> fe_name r \<in> snd ` set (db_condemned d)"
    if r: "r \<in> set (db_files d)" "fe_parent r = dir" for r
  proof
    assume "fe_name r \<in> snd ` set (db_condemned d)"
    then have "?P r" using r by force
    then have "fe_id r \<in> ?ids" using r by auto
    then show "fe_id r \<in> ?D" using cascade_superset by blast
  next
    assume "fe_id r \<in> ?D"
    moreover have "dir \<notin> ?D"
    proof
      assume "dir \<in> ?D"
      have "fe_parent r \<in> fe_id ` set (db_files d)" using assms r(1) by (simp add: db_ok_def)
      then have "0 \<le> dir" using rows(2) r(2) by auto
      from cascade_greater [OF rows(1) _ \<open>0 \<le> dir\<close> _ \<open>dir \<in> ?D\<close>] db_ok_root [OF assms] above have "dir < dir" by auto
      then show False by simp
    qed
    moreover have "fe_parent r'' = dir" if "r'' \<in> set (db_files d)" "fe_id r'' = fe_id r" for r''
      using db_ok_id_unique [OF assms that(1) r(1) that(2)] r(2) by simp
    ultimately have "fe_id r \<in> ?ids"
      using cascade_from [of "fe_id r" "length (db_files d)" "db_files d" ?ids] by fastforce
    then obtain r' where "fe_id r = fe_id r'" "r' \<in> set (filter ?P (db_files d))"
      unfolding set_map by (rule imageE)
    then have "r' \<in> set (db_files d)" "?P r'" "fe_id r' = fe_id r" by simp_all
    with db_ok_id_unique [OF assms, of r' r] r show "fe_name r \<in> snd ` set (db_condemned d)" by force
  qed
  show ?thesis
    unfolding purge_condemned_def delete_files_def delete_ids_def Let_def rows_in_def
    using D by (simp add: filter_filter conj_commute) (rule filter_cong, simp, blast)
qed

section \<open>Properties\<close>

text \<open>C15. Every operation on the ancestor store is atomic and keeps it well-formed, whatever
  statements fail on the way: afterwards keys are unique, names are unique in a directory, every
  row's directory exists and the root is there; and if the operation fails, the
  committed database is the one before it.\<close>

theorem dao_operations_atomic:
  assumes "fe_parent e \<le> b" "name \<noteq> []"
  shows "sql_safe b (dao_list flt purge dir) \<and> sql_safe b (dao_rename flt dir name new) \<and>
    sql_safe b (dao_create flt e) \<and> sql_safe b (dao_update flt old e) \<and> sql_safe b (dao_delete flt old) \<and>
    sql_safe b (delete_raw flt i) \<and> sql_safe b (dao_condemn flt dir name) \<and> sql_safe b (dao_uncondemn flt dir name)"
  using assms by (simp add: dao_safe)

theorem dao_operations_atomic_witness:
  "fe_parent (root_row\<lparr>fe_name := ''a''\<rparr>) \<le> 0 \<and>
   sql_safe 0 (dao_create (\<lambda>n. if n = 3 then Some ''I/O error'' else None) (root_row\<lparr>fe_name := ''a''\<rparr>)) \<and>
   conn_ok 0 \<lparr>cx_db = empty_db, cx_tx = None, cx_count = 0\<rparr> \<and>
   snd (dao_create (\<lambda>n. if n = 3 then Some ''I/O error'' else None) (root_row\<lparr>fe_name := ''a''\<rparr>)
     \<lparr>cx_db = empty_db, cx_tx = None, cx_count = 0\<rparr>) = Inl ''I/O error''"
proof -
  have "fe_parent (root_row\<lparr>fe_name := ''a''\<rparr>) \<le> 0" by (simp add: root_row_def)
  moreover have "snd (dao_create (\<lambda>n. if n = 3 then Some ''I/O error'' else None) (root_row\<lparr>fe_name := ''a''\<rparr>)
     \<lparr>cx_db = empty_db, cx_tx = None, cx_count = 0\<rparr>) = Inl ''I/O error''"
    by code_simp
  moreover have "conn_ok 0 \<lparr>cx_db = empty_db, cx_tx = None, cx_count = 0\<rparr>"
    using empty_db_ok by (simp add: conn_ok_def committed_def store_ok_def empty_db_def)
  ultimately show ?thesis
    using dao_operations_atomic [of "root_row\<lparr>fe_name := ''a''\<rparr>" 0 "''a''"] by blast
qed

text \<open>C16. Listing a directory with purging removes a file of it whenever its name is condemned in
  any directory, not only in the listed one, together with everything below it, and no other
  file of the directory.\<close>

theorem purge_by_name_anywhere:
  assumes "db_ok d"
  shows "rows_in dir (purge_condemned dir d) =
    filter (\<lambda>r. fe_name r \<notin> snd ` set (db_condemned d)) (rows_in dir d)"
  by (rule rows_in_purge [OF assms])

theorem purge_by_name_anywhere_witness:
  "db_ok demo_db \<and> db_condemned demo_db = [(1, ''x'')] \<and>
   map fe_name (rows_in 0 demo_db) = [''d'', ''x''] \<and> map fe_name (rows_in 0 (purge_condemned 0 demo_db)) = [''d'']"
proof -
  have ok: "db_ok demo_db" by (simp add: db_ok_def demo_db_def root_row_def)
  from purge_by_name_anywhere [OF ok, of 0] ok show ?thesis
    by (simp add: demo_db_def rows_in_def root_row_def)
qed

end
