(* ===== verification/Ancestor_Replica.thy ===== *)
theory Ancestor_Replica
  imports Ancestor_Dao Replica
begin

text \<open>
  The ancestor replica of \<open>src/ancestor/replica.rs\<close>: the replica interface on top of the
  ancestor store. A synthetic directory is shared between handles through an \<open>Arc\<close>, and the only
  field that ever changes is its id; the model keeps the immutable fields in the handle and the
  id in a store of cells, so that handles alias as in the source.

  The interpretation of \<open>replica_contract\<close> shows that a successful operation on a directory
  is visible to the next listing of it, for every pattern of database failures.
\<close>

section \<open>Definitions\<close>

definition T_REGULAR :: int where "T_REGULAR = 0"
definition T_DIRECTORY :: int where "T_DIRECTORY = 1"
definition T_SYMLINK :: int where "T_SYMLINK = 2"

subsection \<open>Handles\<close>

datatype dir_handle =
    Real int
  | Synth nat dir_handle os_string file_mode

record anc_state =
  an_conn :: conn
  an_cells :: "int option list"

text \<open>\<open>?\<close> on a \<open>sqlite::Result\<close>.\<close>

definition sqlite_err :: "string \<Rightarrow> error" where
  "sqlite_err e = err (Sqlite e)"

definition cell_id :: "anc_state \<Rightarrow> nat \<Rightarrow> int option" where
  "cell_id s c = (if c < length (an_cells s) then an_cells s ! c else None)"

fun get_h :: "anc_state \<Rightarrow> dir_handle \<Rightarrow> int res" where
  "get_h s (Real v) = Inr v"
| "get_h s (Synth c p name mode) = (case cell_id s c of Some v \<Rightarrow> Inr v | None \<Rightarrow> Inl (err NotFound))"

fun as_entry :: "file_data \<Rightarrow> int \<Rightarrow> file_entry option" where
  "as_entry (Regular mode _ time hash) dir =
     Some \<lparr>fe_id = -1, fe_parent = dir, fe_name = [], fe_typ = T_REGULAR, fe_mode = uint mode,
           fe_mtime = time, fe_content = hash\<rparr>"
| "as_entry (Directory mode) dir =
     Some \<lparr>fe_id = -1, fe_parent = dir, fe_name = [], fe_typ = T_DIRECTORY, fe_mode = uint mode,
           fe_mtime = 0, fe_content = []\<rparr>"
| "as_entry (Symlink target) dir =
     Some \<lparr>fe_id = -1, fe_parent = dir, fe_name = [], fe_typ = T_SYMLINK, fe_mode = 0,
           fe_mtime = 0, fe_content = target\<rparr>"
| "as_entry Special dir = None"

definition file_as_entry :: "named_file \<Rightarrow> int \<Rightarrow> file_entry option" where
  "file_as_entry f dir = map_option (\<lambda>e. e\<lparr>fe_name := fst f\<rparr>) (as_entry (snd f) dir)"

text \<open>Running a store operation on the replica's connection.\<close>

definition with_dao :: "'a sql \<Rightarrow> anc_state \<Rightarrow> anc_state \<times> 'a res" where
  "with_dao m s =
     (case m (an_conn s) of
        (c, Inl e) \<Rightarrow> (s\<lparr>an_conn := c\<rparr>, Inl (sqlite_err e))
      | (c, Inr a) \<Rightarrow> (s\<lparr>an_conn := c\<rparr>, Inr a))"

text \<open>The recursive call holds the cell's lock; the parent is another cell.\<close>

fun mk_h :: "faults \<Rightarrow> anc_state \<Rightarrow> dir_handle \<Rightarrow> anc_state \<times> int res" where
  "mk_h flt s (Real v) = (s, Inr v)"
| "mk_h flt s (Synth c p name mode) =
     (case cell_id s c of
        Some v \<Rightarrow> (s, Inr v)
      | None \<Rightarrow>
          case mk_h flt s p of
            (s1, Inl e) \<Rightarrow> (s1, Inl e)
          | (s1, Inr parent) \<Rightarrow>
              case with_dao (dao_create flt
                  \<lparr>fe_id = -1, fe_parent = parent, fe_name = name, fe_typ = T_DIRECTORY, fe_mode = uint mode,
                   fe_mtime = 0, fe_content = []\<rparr>) s1 of
                (s2, Inl e) \<Rightarrow> (s2, Inl e)
              | (s2, Inr (Some i)) \<Rightarrow> (s2\<lparr>an_cells := (an_cells s2)[c := Some i]\<rparr>, Inr i)
              | (s2, Inr None) \<Rightarrow> (s2, Inl (err CreateExists)))"

definition push_synth :: "anc_state \<Rightarrow> dir_handle \<Rightarrow> os_string \<Rightarrow> file_mode \<Rightarrow> anc_state \<times> dir_handle" where
  "push_synth s d name mode =
     (s\<lparr>an_cells := an_cells s @ [None]\<rparr>, Synth (length (an_cells s)) d name mode)"

fun is_deferred :: "anc_state \<Rightarrow> dir_handle \<Rightarrow> bool" where
  "is_deferred s (Real _) = False"
| "is_deferred s (Synth c p name mode) = (cell_id s c = None)"

subsection \<open>The operations\<close>

text \<open>\<open>as_nstr\<close>, with the text of the \<open>NulError\<close>.\<close>

definition as_nstr :: "bytes \<Rightarrow> string + os_string" where
  "as_nstr b =
     (if CHR 0x00 \<in> set b then
        Inl (''nul byte found in provided data at position: '' @
             fmt_dec (length (takeWhile (\<lambda>x. x \<noteq> CHR 0x00) b)))
      else Inr b)"

text \<open>The variables the callback of \<open>list\<close> assigns.\<close>

record list_acc =
  la_ret :: "named_file list"
  la_nul :: "string option"
  la_type :: "int option"
  la_hash :: bool

definition list_row :: "list_acc \<Rightarrow> file_entry \<Rightarrow> list_acc" where
  "list_row a e =
     (case as_nstr (fe_name e) of
        Inl ne \<Rightarrow> a\<lparr>la_nul := Some ne\<rparr>
      | Inr name \<Rightarrow>
          if fe_typ e = T_REGULAR then
            if length (fe_content e) \<noteq> 32 then a\<lparr>la_hash := True\<rparr>
            else a\<lparr>la_ret := la_ret a @
                    [(name, Regular (word_of_int (fe_mode e)) 0 (fe_mtime e) (fe_content e))]\<rparr>
          else if fe_typ e = T_DIRECTORY then
            a\<lparr>la_ret := la_ret a @ [(name, Directory (word_of_int (fe_mode e)))]\<rparr>
          else if fe_typ e = T_SYMLINK then
            case as_nstr (fe_content e) of
              Inl ne \<Rightarrow> a\<lparr>la_nul := Some ne\<rparr>
            | Inr target \<Rightarrow> a\<lparr>la_ret := la_ret a @ [(name, Symlink target)]\<rparr>
          else a\<lparr>la_type := Some (fe_typ e)\<rparr>)"

definition list_result :: "list_acc \<Rightarrow> bool \<Rightarrow> named_file list res" where
  "list_result a exists' =
     (case la_type a of
        Some it \<Rightarrow> Inl (err (InvalidAncestorFileType it))
      | None \<Rightarrow>
          if la_hash a then Inl (err InvalidHash)
          else
            case la_nul a of
              Some ne \<Rightarrow> Inl (err (NullInString ne))
            | None \<Rightarrow> if \<not> exists' then Inl (err NotFound) else Inr (la_ret a))"

definition anc_list :: "faults \<Rightarrow> anc_state \<Rightarrow> dir_handle \<Rightarrow> (anc_state \<times> dir_handle \<times> named_file list res) option" where
  "anc_list flt s d =
     (if is_deferred s d then Some (s, d, Inr [])
      else
        case get_h s d of
          Inl e \<Rightarrow> Some (s, d, Inl e)
        | Inr h \<Rightarrow>
            case with_dao (dao_list flt True h) s of
              (s1, Inl e) \<Rightarrow> Some (s1, d, Inl e)
            | (s1, Inr (rows, ex)) \<Rightarrow>
                Some (s1, d, list_result
                  (foldl list_row \<lparr>la_ret = [], la_nul = None, la_type = None, la_hash = False\<rparr> rows) ex))"

definition anc_rename ::
  "faults \<Rightarrow> anc_state \<Rightarrow> dir_handle \<Rightarrow> os_string \<Rightarrow> os_string \<Rightarrow> (anc_state \<times> dir_handle \<times> unit res) option" where
  "anc_rename flt s d old new =
     (case get_h s d of
        Inl e \<Rightarrow> Some (s, d, Inl e)
      | Inr h \<Rightarrow>
          case with_dao (dao_rename flt h old new) s of
            (s1, Inl e) \<Rightarrow> Some (s1, d, Inl e)
          | (s1, Inr RenameOk) \<Rightarrow> Some (s1, d, Inr ())
          | (s1, Inr RenameSourceNotFound) \<Rightarrow> Some (s1, d, Inl (err NotFound))
          | (s1, Inr RenameDestExists') \<Rightarrow> Some (s1, d, Inl (err RenameDestExists)))"

definition anc_remove ::
  "faults \<Rightarrow> anc_state \<Rightarrow> dir_handle \<Rightarrow> named_file \<Rightarrow> (anc_state \<times> dir_handle \<times> unit res) option" where
  "anc_remove flt s d target =
     (case get_h s d of
        Inl e \<Rightarrow> Some (s, d, Inl e)
      | Inr h \<Rightarrow>
          case file_as_entry target h of
            None \<Rightarrow> None
          | Some en \<Rightarrow>
              case with_dao (dao_delete flt en) s of
                (s1, Inl e) \<Rightarrow> Some (s1, d, Inl e)
              | (s1, Inr DeleteOk) \<Rightarrow> Some (s1, d, Inr ())
              | (s1, Inr DeleteNotFound) \<Rightarrow> Some (s1, d, Inl (err NotFound))
              | (s1, Inr DeleteNotMatched) \<Rightarrow> Some (s1, d, Inl (err ExpectationNotMatched))
              | (s1, Inr DeleteDirNotEmpty) \<Rightarrow> Some (s1, d, Inl (err DirNotEmpty)))"

definition anc_create ::
  "faults \<Rightarrow> anc_state \<Rightarrow> dir_handle \<Rightarrow> named_file \<Rightarrow> file_data \<Rightarrow> (anc_state \<times> dir_handle \<times> file_data res) option" where
  "anc_create flt s d src xfer =
     (case mk_h flt s d of
        (s1, Inl e) \<Rightarrow> Some (s1, d, Inl e)
      | (s1, Inr h) \<Rightarrow>
          case file_as_entry (fst src, xfer) h of
            None \<Rightarrow> None
          | Some en \<Rightarrow>
              case with_dao (dao_create flt en) s1 of
                (s2, Inl e) \<Rightarrow> Some (s2, d, Inl e)
              | (s2, Inr (Some _)) \<Rightarrow> Some (s2, d, Inr xfer)
              | (s2, Inr None) \<Rightarrow> Some (s2, d, Inl (err CreateExists)))"

definition anc_update ::
  "faults \<Rightarrow> anc_state \<Rightarrow> dir_handle \<Rightarrow> os_string \<Rightarrow> file_data \<Rightarrow> file_data \<Rightarrow> file_data \<Rightarrow>
   (anc_state \<times> dir_handle \<times> file_data res) option" where
  "anc_update flt s d name old new_nonxfer xfer =
     (if is_dir (Some old) \<and> \<not> is_dir (Some xfer) then
        case anc_remove flt s d (name, old) of
          None \<Rightarrow> None
        | Some (s1, d1, Inl e) \<Rightarrow> Some (s1, d1, Inl e)
        | Some (s1, d1, Inr _) \<Rightarrow> anc_create flt s1 d1 (name, new_nonxfer) xfer
      else
        case get_h s d of
          Inl e \<Rightarrow> Some (s, d, Inl e)
        | Inr h \<Rightarrow>
            case (file_as_entry (name, old) h, file_as_entry (name, xfer) h) of
              (Some oe, Some ne) \<Rightarrow>
                (case with_dao (dao_update flt oe ne) s of
                   (s1, Inl e) \<Rightarrow> Some (s1, d, Inl e)
                 | (s1, Inr UpdateOk) \<Rightarrow> Some (s1, d, Inr xfer)
                 | (s1, Inr UpdateNotFound) \<Rightarrow> Some (s1, d, Inl (err NotFound))
                 | (s1, Inr UpdateNotMatched) \<Rightarrow> Some (s1, d, Inl (err ExpectationNotMatched)))
            | _ \<Rightarrow> None)"

definition anc_chdir :: "faults \<Rightarrow> anc_state \<Rightarrow> dir_handle \<Rightarrow> os_string \<Rightarrow> (anc_state \<times> dir_handle res) option" where
  "anc_chdir flt s d subdir =
     (case get_h s d of
        Inl e \<Rightarrow> Some (s, Inl e)
      | Inr h \<Rightarrow>
          case with_dao (get_by_name flt h subdir) s of
            (s1, Inl e) \<Rightarrow> Some (s1, Inl e)
          | (s1, Inr (Some f)) \<Rightarrow>
              if T_DIRECTORY = fe_typ f then Some (s1, Inr (Real (fe_id f)))
              else Some (s1, Inl (err NotADirectory))
          | (s1, Inr None) \<Rightarrow> Some (s1, Inl (err NotFound)))"

definition anc_synthdir ::
  "anc_state \<Rightarrow> dir_handle \<Rightarrow> os_string \<Rightarrow> file_mode \<Rightarrow> (anc_state \<times> dir_handle \<times> dir_handle) option" where
  "anc_synthdir s d subdir mode = (case push_synth s d subdir mode of (s1, sub) \<Rightarrow> Some (s1, d, sub))"

definition anc_rmdir :: "faults \<Rightarrow> anc_state \<Rightarrow> dir_handle \<Rightarrow> (anc_state \<times> dir_handle \<times> unit res) option" where
  "anc_rmdir flt s d =
     (if is_deferred s d then Some (s, d, Inr ())
      else
        case get_h s d of
          Inl e \<Rightarrow> Some (s, d, Inl e)
        | Inr h \<Rightarrow>
            case with_dao (delete_raw flt h) s of
              (s1, Inl e) \<Rightarrow> Some (s1, d, Inl e)
            | (s1, Inr DeleteOk) \<Rightarrow> Some (s1, d, Inr ())
            | (s1, Inr DeleteNotFound) \<Rightarrow> Some (s1, d, Inr ())
            | (s1, Inr DeleteDirNotEmpty) \<Rightarrow> Some (s1, d, Inl (err DirNotEmpty))
            | (s1, Inr DeleteNotMatched) \<Rightarrow> None)"

definition anc_condemn :: "faults \<Rightarrow> anc_state \<Rightarrow> dir_handle \<Rightarrow> os_string \<Rightarrow> (anc_state \<times> dir_handle \<times> unit res) option" where
  "anc_condemn flt s d name =
     (case get_h s d of
        Inl e \<Rightarrow> Some (s, d, Inl e)
      | Inr h \<Rightarrow> (case with_dao (dao_condemn flt h name) s of (s1, r) \<Rightarrow> Some (s1, d, r)))"

definition anc_uncondemn :: "faults \<Rightarrow> anc_state \<Rightarrow> dir_handle \<Rightarrow> os_string \<Rightarrow> (anc_state \<times> dir_handle \<times> unit res) option" where
  "anc_uncondemn flt s d name =
     (case get_h s d of
        Inl e \<Rightarrow> Some (s, d, Inl e)
      | Inr h \<Rightarrow> (case with_dao (dao_uncondemn flt h name) s of (s1, r) \<Rightarrow> Some (s1, d, r)))"

definition ancestor_replica :: "faults \<Rightarrow> (anc_state, dir_handle, file_data, unit) ancestor_like" where
  "ancestor_replica flt =
     \<lparr>r_full_path = (\<lambda>d. []),
      r_is_fatal = default_is_fatal,
      r_is_dir_dirty = (\<lambda>s d. False),
      r_set_dir_clean = (\<lambda>s d. Some (s, Inr True)),
      r_root = (\<lambda>s. Some (s, Inr (Real 0))),
      r_list = anc_list flt,
      r_rename = anc_rename flt,
      r_remove = anc_remove flt,
      r_create = anc_create flt,
      r_update = anc_update flt,
      r_chdir = anc_chdir flt,
      r_synthdir = anc_synthdir,
      r_rmdir = anc_rmdir flt,
      r_transfer = (\<lambda>s d f. Some (s, Inr ())),
      r_prepare = default_prepare,
      r_clean_up = default_clean_up,
      r_null_transfer = (\<lambda>fd. fd),
      r_condemn = anc_condemn flt,
      r_uncondemn = anc_uncondemn flt\<rparr>"

subsection \<open>Abstraction\<close>

text \<open>What the store keeps of a file's data, and what it gives back.\<close>

fun anc_norm :: "file_data \<Rightarrow> file_data" where
  "anc_norm (Regular m _ t h) = Regular m 0 t h"
| "anc_norm fd = fd"

definition row_data :: "file_entry \<Rightarrow> file_data" where
  "row_data e =
     (if fe_typ e = T_REGULAR then Regular (word_of_int (fe_mode e)) 0 (fe_mtime e) (fe_content e)
      else if fe_typ e = T_DIRECTORY then Directory (word_of_int (fe_mode e))
      else if fe_typ e = T_SYMLINK then Symlink (fe_content e)
      else Special)"

definition dir_view :: "int \<Rightarrow> db \<Rightarrow> os_string \<rightharpoonup> file_data" where
  "dir_view h d name = map_option row_data (find (\<lambda>r. fe_name r = name) (rows_in h d))"

definition anc_view :: "anc_state \<Rightarrow> dir_handle \<Rightarrow> os_string \<rightharpoonup> file_data" where
  "anc_view s d = (case get_h s d of Inl _ \<Rightarrow> Map.empty | Inr h \<Rightarrow> dir_view h (cx_db (an_conn s)))"

fun handle_ok :: "anc_state \<Rightarrow> dir_handle \<Rightarrow> bool" where
  "handle_ok s (Real v) = (0 \<le> v \<and> v \<le> db_seq (cx_db (an_conn s)))"
| "handle_ok s (Synth c p name mode) =
     (c < length (an_cells s) \<and> handle_ok s p \<and> name \<noteq> [] \<and>
      (case cell_id s c of None \<Rightarrow> True | Some v \<Rightarrow> 0 \<le> v \<and> v \<le> db_seq (cx_db (an_conn s))))"

definition anc_inv :: "anc_state \<Rightarrow> bool" where
  "anc_inv s = (db_ok (cx_db (an_conn s)) \<and> db_ok (committed (an_conn s)))"

definition anc_rank :: "anc_state \<Rightarrow> dir_handle \<Rightarrow> int" where
  "anc_rank s d = (case get_h s d of Inl _ \<Rightarrow> -1 | Inr h \<Rightarrow> h)"

abbreviation anc_db :: "anc_state \<Rightarrow> db" where
  "anc_db s \<equiv> cx_db (an_conn s)"

text \<open>A statement or a sequence of them that leaves the transaction and what \<open>q\<close> reads of the
  database alone.\<close>

definition at_frame :: "(db \<Rightarrow> 'b) \<Rightarrow> 'a sql \<Rightarrow> conn \<Rightarrow> bool" where
  "at_frame q m c = (cx_tx (fst (m c)) = cx_tx c \<and> q (cx_db (fst (m c))) = q (cx_db c))"

text \<open>A fresh ancestor replica with one synthetic directory.\<close>

definition demo_anc :: anc_state where
  "demo_anc = \<lparr>an_conn = \<lparr>cx_db = empty_db, cx_tx = None, cx_count = 0\<rparr>, an_cells = [None]\<rparr>"

section \<open>Lemmas\<close>

subsection \<open>Directory views of the store\<close>

lemma dir_view_Some:
  assumes "db_ok d"
  shows "dir_view h d n = Some x \<longleftrightarrow>
    (\<exists>r \<in> set (db_files d). fe_parent r = h \<and> fe_id r \<noteq> 0 \<and> fe_name r = n \<and> row_data r = x)"
proof -
  have "find (\<lambda>r. fe_name r = n) (rows_in h d) = Some r \<longleftrightarrow>
      r \<in> set (db_files d) \<and> fe_parent r = h \<and> fe_id r \<noteq> 0 \<and> fe_name r = n" for r
  proof
    assume r: "r \<in> set (db_files d) \<and> fe_parent r = h \<and> fe_id r \<noteq> 0 \<and> fe_name r = n"
    then have "find (\<lambda>r. fe_name r = n) (rows_in h d) \<noteq> None"
      by (auto simp: find_None_iff rows_in_def)
    then obtain q where q: "find (\<lambda>r. fe_name r = n) (rows_in h d) = Some q" by auto
    then have "q \<in> set (rows_in h d)" "fe_name q = n" by (auto simp: find_Some_iff)
    with r db_ok_unique [OF assms, of q r] have "q = r" by (simp add: rows_in_def)
    with q show "find (\<lambda>r. fe_name r = n) (rows_in h d) = Some r" by simp
  next
    assume "find (\<lambda>r. fe_name r = n) (rows_in h d) = Some r"
    then have "r \<in> set (rows_in h d)" "fe_name r = n" by (auto simp: find_Some_iff)
    then show "r \<in> set (db_files d) \<and> fe_parent r = h \<and> fe_id r \<noteq> 0 \<and> fe_name r = n"
      by (simp add: rows_in_def)
  qed
  then show ?thesis by (auto simp: dir_view_def)
qed

lemma map_eqI: "(\<And>x. f n = Some x \<longleftrightarrow> g n = Some x) \<Longrightarrow> f n = g n"
  by (metis not_Some_eq)

lemma dir_view_insert:
  assumes "db_ok d" "insert_file e d = Inr (d', u)" "fe_parent e \<le> db_seq d"
  shows "dir_view (fe_parent e) d (fe_name e) = None"
    "dir_view (fe_parent e) d' = (dir_view (fe_parent e) d)(fe_name e \<mapsto> row_data e)"
proof -
  note e = insert_file_eq [OF assms(2)]
  have rd: "row_data (e\<lparr>fe_id := i\<rparr>) = row_data e" for i by (simp add: row_data_def)
  have ok': "db_ok d'" using insert_file_ok [OF assms] .
  have seq: "db_seq d + 1 \<noteq> 0" using assms(1) by (force simp: db_ok_def)
  show none: "dir_view (fe_parent e) d (fe_name e) = None"
    using e(2) by (auto simp: dir_view_def find_None_iff rows_in_def same_name_def)
  show "dir_view (fe_parent e) d' = (dir_view (fe_parent e) d)(fe_name e \<mapsto> row_data e)"
  proof (rule ext, rule map_eqI)
    fix n x
    show "dir_view (fe_parent e) d' n = Some x \<longleftrightarrow>
        ((dir_view (fe_parent e) d)(fe_name e \<mapsto> row_data e)) n = Some x"
      using dir_view_Some [OF ok', of "fe_parent e" n x] dir_view_Some [OF assms(1), of "fe_parent e" n x] none seq
      unfolding e(1) by (auto simp: rd)
  qed
qed

lemma delete_leaf_files:
  assumes "r \<in> set (db_files d)" "\<not> list_ex (\<lambda>q. fe_parent q = fe_id r) (db_files d)"
  shows "db_files (delete_files (\<lambda>q. fe_id q = fe_id r) d) = filter (\<lambda>q. fe_id q \<noteq> fe_id r) (db_files d)"
proof -
  have ids: "set (map fe_id (filter (\<lambda>q. fe_id q = fe_id r) (db_files d))) = {fe_id r}"
    using assms(1) by auto
  have "children_of (db_files d) {fe_id r} = {}"
    using assms(2) by (auto simp: children_of_def list_ex_iff)
  then show ?thesis
    unfolding delete_files_def delete_ids_def Let_def ids by (simp add: cascade_leaf)
qed

lemma dir_view_delete:
  assumes "db_ok d" "r \<in> set (db_files d)" "\<not> list_ex (\<lambda>q. fe_parent q = fe_id r) (db_files d)"
  shows "dir_view h (delete_files (\<lambda>q. fe_id q = fe_id r) d) =
    (if h = fe_parent r then (dir_view h d)(fe_name r := None) else dir_view h d)"
proof -
  let ?d = "delete_files (\<lambda>q. fe_id q = fe_id r) d"
  have "fe_id r \<noteq> 0"
    using assms db_ok_root [OF assms(1,2)] by (auto simp: list_ex_iff)
  then have ok': "db_ok ?d" using assms(1) by (auto intro: delete_files_ok)
  have uniq: "q = r" if "q \<in> set (db_files d)" "fe_id q = fe_id r \<or> fe_parent q = fe_parent r \<and> fe_name q = fe_name r" for q
    using that db_ok_id_unique [OF assms(1)] db_ok_unique [OF assms(1)] assms(2) by blast
  show ?thesis
  proof (rule ext, rule map_eqI)
    fix n x
    show "dir_view h ?d n = Some x \<longleftrightarrow>
        (if h = fe_parent r then (dir_view h d)(fe_name r := None) else dir_view h d) n = Some x"
      using dir_view_Some [OF ok', of h n x] dir_view_Some [OF assms(1), of h n x] uniq
      unfolding delete_leaf_files [OF assms(2,3)] by auto
  qed
qed

text \<open>A statement that rewrites rows in place.\<close>

lemma dir_view_map:
  assumes "db_ok (d\<lparr>db_files := map f (db_files d)\<rparr>)" "\<And>r. fe_id (f r) = fe_id r \<and> fe_parent (f r) = fe_parent r"
  shows "dir_view h (d\<lparr>db_files := map f (db_files d)\<rparr>) n = Some x \<longleftrightarrow>
    (\<exists>r \<in> set (db_files d). fe_parent r = h \<and> fe_id r \<noteq> 0 \<and> fe_name (f r) = n \<and> row_data (f r) = x)"
  using dir_view_Some [OF assms(1), of h n x] assms(2) by simp

lemma dir_view_update:
  assumes "db_ok d" "r \<in> set (db_files d)" "fe_id r \<noteq> 0"
  shows "dir_view (fe_parent r) (update_row (fe_id r) new d) =
    (dir_view (fe_parent r) d)(fe_name r \<mapsto> row_data new)"
proof (rule ext, rule map_eqI)
  fix n x
  define f where "f q = (if fe_id q = fe_id r
    then q\<lparr>fe_typ := fe_typ new, fe_mode := fe_mode new, fe_mtime := fe_mtime new, fe_content := fe_content new\<rparr> else q)" for q :: file_entry
  have upd: "update_row (fe_id r) new d = d\<lparr>db_files := map f (db_files d)\<rparr>"
    by (simp add: update_row_def f_def)
  have f: "fe_id (f q) = fe_id q" "fe_parent (f q) = fe_parent q" "fe_name (f q) = fe_name q"
    "row_data (f q) = (if fe_id q = fe_id r then row_data new else row_data q)" for q
    by (simp_all add: f_def row_data_def)
  have uniq: "q = r" if "q \<in> set (db_files d)" "fe_id q = fe_id r \<or> fe_parent q = fe_parent r \<and> fe_name q = fe_name r" for q
    using that db_ok_id_unique [OF assms(1)] db_ok_unique [OF assms(1)] assms(2) by blast
  have "dir_view (fe_parent r) (d\<lparr>db_files := map f (db_files d)\<rparr>) n = Some x \<longleftrightarrow>
      (\<exists>q \<in> set (db_files d). fe_parent q = fe_parent r \<and> fe_id q \<noteq> 0 \<and> fe_name q = n \<and> row_data (f q) = x)"
    using dir_view_map [where d = d and f = f] update_row_ok [OF assms(1), of "fe_id r" new] f unfolding upd by simp
  also have "\<dots> \<longleftrightarrow> ((dir_view (fe_parent r) d)(fe_name r \<mapsto> row_data new)) n = Some x"
  proof (cases "n = fe_name r")
    case True
    with uniq assms(2,3) show ?thesis by (auto simp: f)
  next
    case False
    with uniq have "q \<in> set (db_files d) \<Longrightarrow> fe_name q = n \<Longrightarrow> row_data (f q) = row_data q" for q
      by (auto simp: f)
    with False show ?thesis using dir_view_Some [OF assms(1), of "fe_parent r" n x] by auto
  qed
  finally show "dir_view (fe_parent r) (update_row (fe_id r) new d) n = Some x \<longleftrightarrow>
      ((dir_view (fe_parent r) d)(fe_name r \<mapsto> row_data new)) n = Some x" unfolding upd .
qed

lemma dir_view_rename:
  assumes "db_ok d" "old \<noteq> []" "list_ex (\<lambda>r. same_name r h old) (db_files d)"
    "\<not> list_ex (\<lambda>r. same_name r h new) (db_files d)"
  shows "dir_view h d old \<noteq> None" "dir_view h d new = None"
    "dir_view h (rename_rows h old new d) = ((dir_view h d)(old := None))(new := dir_view h d old)"
proof -
  from assms(3) obtain r where r: "r \<in> set (db_files d)" "fe_parent r = h" "fe_name r = old"
    by (auto simp: list_ex_iff same_name_def)
  with assms(2) db_ok_root [OF assms(1)] have r0: "fe_id r \<noteq> 0" by auto
  have uniq: "q = r" if "q \<in> set (db_files d)" "fe_parent q = h \<and> fe_name q = old" for q
    using that db_ok_unique [OF assms(1)] r by blast
  have old: "dir_view h d old = Some (row_data r)"
    using dir_view_Some [OF assms(1)] r r0 by blast
  then show "dir_view h d old \<noteq> None" by simp
  show new: "dir_view h d new = None"
    using assms(4) by (auto simp: dir_view_def find_None_iff rows_in_def list_ex_iff same_name_def)
  have nn: "q \<in> set (db_files d) \<Longrightarrow> fe_parent q = h \<Longrightarrow> fe_name q \<noteq> new" for q
    using assms(4) by (auto simp: list_ex_iff same_name_def)
  define f where "f q = (if same_name q h old then q\<lparr>fe_name := new\<rparr> else q)" for q :: file_entry
  have upd: "rename_rows h old new d = d\<lparr>db_files := map f (db_files d)\<rparr>"
    by (simp add: rename_rows_def f_def)
  have f: "fe_id (f q) = fe_id q" "fe_parent (f q) = fe_parent q" "row_data (f q) = row_data q"
    "fe_name (f q) = (if fe_parent q = h \<and> fe_name q = old then new else fe_name q)" for q
    by (simp_all add: f_def row_data_def same_name_def)
  show "dir_view h (rename_rows h old new d) = ((dir_view h d)(old := None))(new := dir_view h d old)"
  proof (rule ext, rule map_eqI)
    fix n x
    have "dir_view h (rename_rows h old new d) n = Some x \<longleftrightarrow>
        (\<exists>q \<in> set (db_files d). fe_parent q = h \<and> fe_id q \<noteq> 0 \<and> fe_name (f q) = n \<and> row_data q = x)"
      using dir_view_map [where d = d and f = f] rename_rows_ok [OF assms(1,2,4)] f unfolding upd by simp
    also have "\<dots> \<longleftrightarrow> (((dir_view h d)(old := None))(new := dir_view h d old)) n = Some x"
    proof (cases "n = new")
      case True
      have "(\<exists>q \<in> set (db_files d). fe_parent q = h \<and> fe_id q \<noteq> 0 \<and> fe_name (f q) = n \<and> row_data q = x) \<longleftrightarrow> row_data r = x"
      proof
        assume "\<exists>q \<in> set (db_files d). fe_parent q = h \<and> fe_id q \<noteq> 0 \<and> fe_name (f q) = n \<and> row_data q = x"
        then obtain q where q: "q \<in> set (db_files d)" "fe_parent q = h" "fe_name (f q) = n" "row_data q = x" by blast
        with nn [of q] True have "fe_name q = old" by (simp add: f split: if_splits)
        with uniq q show "row_data r = x" by blast
      qed (use r r0 True in \<open>auto simp: f\<close>)
      with True old show ?thesis by simp
    next
      case False
      with dir_view_Some [OF assms(1), of h n x] show ?thesis by (auto simp: f)
    qed
    finally show "dir_view h (rename_rows h old new d) n = Some x \<longleftrightarrow>
        (((dir_view h d)(old := None))(new := dir_view h d old)) n = Some x" .
  qed
qed

lemma dir_view_clear [simp]: "dir_view h (clear_condemned i d) = dir_view h d"
  by (rule ext) (simp add: dir_view_def clear_condemned_def rows_in_def)

text \<open>Deleting rows above a key does not change the directories below it.\<close>

lemma dir_view_purge_below:
  assumes "db_ok d" "f < dir"
  shows "dir_view f (purge_condemned dir d) = dir_view f d"
proof -
  let ?P = "\<lambda>r. fe_parent r = dir \<and> (\<exists>c \<in> set (db_condemned d). fe_parent r = dir \<and> snd c = fe_name r)"
  let ?ids = "set (map fe_id (filter ?P (db_files d)))"
  let ?D = "cascade (length (db_files d)) (db_files d) ?ids"
  have "fe_id r \<notin> ?D" if r: "r \<in> set (db_files d)" "fe_parent r = f" "fe_id r \<noteq> 0" for r
  proof
    assume "fe_id r \<in> ?D"
    moreover have "fe_id r \<notin> ?ids"
    proof
      assume "fe_id r \<in> ?ids"
      then obtain q where q: "fe_id r = fe_id q" "q \<in> set (filter ?P (db_files d))"
        unfolding set_map by (rule imageE)
      then have "q = r" using db_ok_id_unique [OF assms(1), of q r] r(1) by simp
      with q r(2) assms(2) show False by simp
    qed
    ultimately obtain q where q: "q \<in> set (db_files d)" "fe_id q = fe_id r" "fe_parent q \<in> ?D"
      using cascade_from by blast
    with db_ok_id_unique [OF assms(1) q(1) r(1)] r have fD: "f \<in> ?D" by simp
    have "fe_parent r \<in> fe_id ` set (db_files d)" using assms(1) r(1) by (simp add: db_ok_def)
    then have "0 \<le> f" using assms(1) r(2) by (auto simp: db_ok_def)
    then have "0 \<le> dir" using assms(2) by simp
    have "dir < fe_id p" if "p \<in> set (db_files d)" "?P p" for p
    proof -
      from that(2) have "fe_name p \<in> snd ` set (db_condemned d)" by force
      moreover have "[] \<notin> snd ` set (db_condemned d)" using assms(1) by (simp add: db_ok_def)
      ultimately have "fe_name p \<noteq> []" by metis
      with db_ok_root [OF assms(1) that(1)] have "fe_id p \<noteq> 0" by blast
      with assms(1) that show ?thesis by (auto simp: db_ok_def)
    qed
    then have "dir < x" if "x \<in> ?ids" for x using that by auto
    from cascade_greater [OF _ _ \<open>0 \<le> dir\<close> this fD] assms db_ok_root [OF assms(1)]
    have "dir < f" by (auto simp: db_ok_def)
    with assms(2) show False by simp
  qed
  then have "rows_in f (purge_condemned dir d) = rows_in f d"
    unfolding purge_condemned_def delete_files_def delete_ids_def Let_def rows_in_def
    by (simp add: filter_filter) (rule filter_cong, simp, blast)
  then show ?thesis by (intro ext) (simp add: dir_view_def)
qed

subsection \<open>Decoding\<close>

lemma row_data_entry [simp]:
  "as_entry fd h = Some e \<Longrightarrow> row_data (e\<lparr>fe_name := n\<rparr>) = anc_norm fd"
  "as_entry fd h = Some e \<Longrightarrow> fe_parent e = h"
  by (cases fd; auto simp: row_data_def T_REGULAR_def T_DIRECTORY_def T_SYMLINK_def)+

lemma file_as_entry_Some:
  "file_as_entry (n, fd) h = Some e \<Longrightarrow> fe_parent e = h \<and> fe_name e = n \<and> row_data e = anc_norm fd"
  by (auto simp: file_as_entry_def)

lemma row_data_matching: "matching e r \<Longrightarrow> row_data r = row_data e \<and> fe_parent r = fe_parent e \<and> fe_name r = fe_name e"
  by (simp add: matching_def row_data_def)

lemma list_rows_ok:
  assumes "la_type (foldl list_row a rows) = None" "\<not> la_hash (foldl list_row a rows)"
    "la_nul (foldl list_row a rows) = None"
  shows "la_ret (foldl list_row a rows) = la_ret a @ map (\<lambda>r. (fe_name r, row_data r)) rows"
proof -
  have mono: "(la_type (foldl list_row b qs) = None \<longrightarrow> la_type b = None) \<and>
      (\<not> la_hash (foldl list_row b qs) \<longrightarrow> \<not> la_hash b) \<and>
      (la_nul (foldl list_row b qs) = None \<longrightarrow> la_nul b = None)" for b qs
  proof (induction qs arbitrary: b)
    case (Cons q qs)
    from Cons.IH [of "list_row b q"] show ?case by (auto simp: list_row_def split: sum.splits if_splits)
  qed simp
  from assms show ?thesis
  proof (induction rows arbitrary: a)
    case (Cons r rows)
    with mono [of "list_row a r" rows] have "la_type (list_row a r) = None" "\<not> la_hash (list_row a r)"
      "la_nul (list_row a r) = None" by auto
    then have "la_ret (list_row a r) = la_ret a @ [(fe_name r, row_data r)]"
      by (auto simp: list_row_def row_data_def as_nstr_def T_REGULAR_def T_DIRECTORY_def T_SYMLINK_def
          split: sum.splits if_splits)
    with Cons show ?case by simp
  qed simp
qed

lemma list_result_Inr:
  assumes "list_result (foldl list_row \<lparr>la_ret = [], la_nul = None, la_type = None, la_hash = False\<rparr> rows) ex = Inr fs"
  shows "fs = map (\<lambda>r. (fe_name r, row_data r)) rows"
  using assms list_rows_ok [of "\<lparr>la_ret = [], la_nul = None, la_type = None, la_hash = False\<rparr>" rows]
  by (auto simp: list_result_def split: option.splits if_splits)

lemma map_of_find: "map_of (map (\<lambda>r. (k r, v r)) rs) n = map_option v (find (\<lambda>r. k r = n) rs)"
  by (induction rs) auto

lemma rows_in_names: "db_ok d \<Longrightarrow> distinct (map fe_name (rows_in h d))"
proof -
  assume a: "db_ok d"
  then have "distinct (rows_in h d)" by (auto simp: db_ok_def rows_in_def distinct_map)
  then show ?thesis
    using db_ok_unique [OF a] by (auto simp: distinct_map inj_on_def rows_in_def)
qed

subsection \<open>The replica's state\<close>

lemma with_dao_cells [simp]: "with_dao m s = (s', r) \<Longrightarrow> an_cells s' = an_cells s"
  by (auto simp: with_dao_def split: prod.splits sum.splits)

lemma with_dao_Inr: "with_dao m s = (s', Inr a) \<Longrightarrow> m (an_conn s) = (an_conn s', Inr a)"
  by (auto simp: with_dao_def split: prod.splits sum.splits)

lemma with_dao_inv:
  assumes "anc_inv s" "with_dao m s = (s', r)" "sql_safe (db_seq (anc_db s)) m"
  shows "anc_inv s'" "db_seq (anc_db s) \<le> db_seq (anc_db s')"
proof -
  have c: "an_conn s' = fst (m (an_conn s))"
    using assms(2) by (auto simp: with_dao_def split: prod.splits sum.splits)
  have "conn_ok (db_seq (anc_db s)) (an_conn s)"
    using assms(1) by (simp add: anc_inv_def conn_ok_def store_ok_def)
  with assms(3) have "conn_ok (db_seq (anc_db s)) (an_conn s')"
    unfolding sql_safe_def c by blast
  then show "anc_inv s'" "db_seq (anc_db s) \<le> db_seq (anc_db s')"
    by (auto simp: anc_inv_def conn_ok_def store_ok_def)
qed

lemma get_h_cells: "an_cells s' = an_cells s \<Longrightarrow> get_h s' d = get_h s d"
  by (cases d) (auto simp: cell_id_def)

lemma handle_ok_mono:
  "an_cells s' = an_cells s \<Longrightarrow> db_seq (anc_db s) \<le> db_seq (anc_db s') \<Longrightarrow> handle_ok s d \<Longrightarrow> handle_ok s' d"
  by (induction d) (auto simp: cell_id_def split: option.splits)

lemma get_h_ok: "handle_ok s d \<Longrightarrow> get_h s d = Inr h \<Longrightarrow> 0 \<le> h \<and> h \<le> db_seq (anc_db s)"
  by (cases d) (auto split: option.splits)

lemma with_dao_keeps:
  assumes "anc_inv s" "with_dao m s = (s', r)" "sql_safe (db_seq (anc_db s)) m"
  shows "anc_inv s' \<and> keeps_dirs handle_ok s s'"
  using with_dao_inv [OF assms] with_dao_cells [OF assms(2)] handle_ok_mono
  by (auto simp: keeps_dirs_def)

text \<open>Rows a fresh key would be the parent of do not exist.\<close>

lemma dir_view_fresh: "db_ok d \<Longrightarrow> db_seq d < h \<Longrightarrow> dir_view h d = Map.empty"
proof
  fix n
  assume a: "db_ok d" "db_seq d < h"
  have "fe_parent r \<noteq> h" if "r \<in> set (db_files d)" for r
    using a that unfolding db_ok_def by (metis (no_types, lifting) image_iff leD)
  then show "dir_view h d n = None"
    by (auto simp: dir_view_def find_None_iff rows_in_def)
qed

lemma mk_h_keeps:
  assumes "anc_inv s" "handle_ok s d" "mk_h flt s d = (s', r)"
  shows "anc_inv s' \<and> keeps_dirs handle_ok s s' \<and> db_seq (anc_db s) \<le> db_seq (anc_db s') \<and>
    (\<forall>h. r = Inr h \<longrightarrow> get_h s' d = Inr h \<and> anc_view s' d = anc_view s d)"
  using assms
proof (induction d arbitrary: s' r)
  case (Real v)
  then show ?case by (auto simp: keeps_dirs_def)
next
  case (Synth c p name mode)
  show ?case
  proof (cases "cell_id s c")
    case (Some v)
    with Synth.prems show ?thesis by (auto simp: keeps_dirs_def)
  next
    case None
    obtain s1 r1 where m: "mk_h flt s p = (s1, r1)" by (cases "mk_h flt s p")
    from Synth.IH [OF Synth.prems(1) _ m] Synth.prems(2)
    have 1: "anc_inv s1" "keeps_dirs handle_ok s s1" "db_seq (anc_db s) \<le> db_seq (anc_db s1)"
      "\<And>h. r1 = Inr h \<Longrightarrow> get_h s1 p = Inr h" by auto
    show ?thesis
    proof (cases r1)
      case (Inl e)
      with None m Synth.prems 1 show ?thesis by auto
    next
      case (Inr parent)
      let ?e = "\<lparr>fe_id = -1, fe_parent = parent, fe_name = name, fe_typ = T_DIRECTORY, fe_mode = uint mode,
          fe_mtime = 0, fe_content = []\<rparr>"
      obtain s2 r2 where w: "with_dao (dao_create flt ?e) s1 = (s2, r2)" by (cases "with_dao (dao_create flt ?e) s1")
      have p: "handle_ok s1 p" using 1(2) Synth.prems(2) by (auto simp: keeps_dirs_def)
      have par: "parent \<le> db_seq (anc_db s1)" using get_h_ok [OF p 1(4) [OF Inr]] by simp
      note safe = dao_create_safe [of ?e "db_seq (anc_db s1)" flt]
      from with_dao_keeps [OF 1(1) w] with_dao_inv [OF 1(1) w] safe par
      have 2: "anc_inv s2" "keeps_dirs handle_ok s1 s2" "db_seq (anc_db s1) \<le> db_seq (anc_db s2)" by auto
      have kd: "keeps_dirs handle_ok s s2" using 1(2) 2(2) by (simp add: keeps_dirs_def)
      have c: "c < length (an_cells s2)"
        using kd Synth.prems(2) unfolding keeps_dirs_def by (meson handle_ok.simps(2))
      show ?thesis
      proof (cases "\<exists>i. r2 = Inr (Some i)")
        case False
        with None m Inr w Synth.prems(3) 1 2 kd show ?thesis
          by (auto split: sum.splits option.splits)
      next
        case True
        then obtain i where i: "r2 = Inr (Some i)" by blast
        from dao_create_Some [OF with_dao_Inr [OF w [unfolded i]]] 1(1) par
        have ins: "insert_file ?e (anc_db s1) = Inr (anc_db s2, ())" "i = db_seq (anc_db s1) + 1"
          by (auto simp: anc_inv_def)
        have iok: "0 \<le> i" "i \<le> db_seq (anc_db s2)"
          using ins insert_file_eq(1) [OF ins(1)] get_h_ok [OF p 1(4) [OF Inr]] by auto
        let ?s3 = "s2\<lparr>an_cells := (an_cells s2)[c := Some i]\<rparr>"
        have s': "s' = ?s3" "r = Inr i"
          using None m Inr w i Synth.prems(3) by auto
        have "handle_ok s2 f \<Longrightarrow> handle_ok ?s3 f" for f
          using iok c by (induction f) (auto simp: cell_id_def nth_list_update split: option.splits)
        then have "keeps_dirs handle_ok s ?s3" using kd by (simp add: keeps_dirs_def)
        moreover have "anc_inv ?s3" using 2(1) by (simp add: anc_inv_def)
        moreover have "get_h ?s3 (Synth c p name mode) = Inr i" using c by (simp add: cell_id_def)
        moreover have "dir_view i (anc_db s2) = Map.empty"
        proof -
          have "dir_view i (anc_db s1) = Map.empty"
            using dir_view_fresh [of "anc_db s1" i] 1(1) ins(2) by (simp add: anc_inv_def)
          moreover have "dir_view i (anc_db s2) n = dir_view i (anc_db s1) n" for n
            using insert_file_eq(1) [OF ins(1)] par ins(2)
            by (simp add: dir_view_def rows_in_def)
          ultimately show ?thesis by auto
        qed
        ultimately show ?thesis
          using s' 1(3) 2(3) None by (simp add: anc_view_def)
      qed
    qed
  qed
qed

subsection \<open>The laws\<close>

lemma anc_inv_db: "anc_inv s \<Longrightarrow> db_ok (anc_db s)"
  by (simp add: anc_inv_def)

lemma keeps_dirs_refl [simp]: "keeps_dirs ok s s"
  by (simp add: keeps_dirs_def)

lemma keeps_dirs_trans: "keeps_dirs ok a b \<Longrightarrow> keeps_dirs ok b c \<Longrightarrow> keeps_dirs ok a c"
  by (simp add: keeps_dirs_def)

lemma keeps_dirsD: "keeps_dirs ok s s' \<Longrightarrow> ok s d \<Longrightarrow> ok s' d"
  by (simp add: keeps_dirs_def)

lemma anc_rank_cells: "an_cells s' = an_cells s \<Longrightarrow> anc_rank s' d = anc_rank s d"
  using get_h_cells [of s' s d] by (simp add: anc_rank_def)

text \<open>What a transaction does not touch stays the same whether it succeeds, is rolled back, or fails
  to commit.\<close>

lemma bind_frame:
  assumes "at_frame q m c" "\<And>c1 a. m c = (c1, Inr a) \<Longrightarrow> at_frame q (g a) c1"
  shows "at_frame q (sql_bind m g) c"
proof -
  obtain c1 r where m: "m c = (c1, r)" by (cases "m c")
  with assms show ?thesis by (cases r) (auto simp: at_frame_def sql_bind_def)
qed

lemma ok_frame [simp]: "at_frame q (sql_ok a) c"
  by (simp add: at_frame_def sql_ok_def)

lemma query_frame [simp]: "at_frame q (query flt f) c"
  by (cases "flt (cx_count c)") (simp_all add: at_frame_def query_def stmt_def Let_def)

lemma stmt_frame: "q (h (cx_db c)) = q (cx_db c) \<Longrightarrow> at_frame q (stmt flt (\<lambda>d. Inr (h d, ()))) c"
  by (cases "flt (cx_count c)") (simp_all add: at_frame_def stmt_def Let_def)

lemma tx_frame:
  assumes "\<And>c1. cx_db c1 = cx_db c \<Longrightarrow> at_frame q f c1"
  shows "q (cx_db (fst (tx flt f c))) = q (cx_db c)"
proof (cases "flt (cx_count c) = None \<and> cx_tx c = None")
  case False
  then show ?thesis by (auto simp: tx_def begin_tx_def Let_def split: option.splits)
next
  case True
  let ?c1 = "c\<lparr>cx_count := cx_count c + 1, cx_tx := Some (cx_db c)\<rparr>"
  obtain c2 r where r: "f ?c1 = (c2, r)" by (cases "f ?c1")
  from assms [of ?c1] r have c2: "cx_tx c2 = Some (cx_db c)" "q (cx_db c2) = q (cx_db c)"
    by (auto simp: at_frame_def)
  have "begin_tx flt c = (?c1, Inr ())"
    using True by (simp add: begin_tx_def)
  with r c2 show ?thesis
    by (cases r; cases "flt (cx_count c2)") (simp_all add: tx_def rollback_tx_def commit_tx_def Let_def)
qed

lemma dao_list_frame:
  assumes "db_ok (cx_db c)" "i < dir"
  shows "dir_view i (cx_db (fst (dao_list flt True dir c))) = dir_view i (cx_db c)"
  unfolding dao_list_def if_True
proof (rule tx_frame)
  fix c1 :: conn
  assume "cx_db c1 = cx_db c"
  then have "at_frame (dir_view i) (stmt flt (\<lambda>d. Inr (purge_condemned dir d, ()))) c1"
    using dir_view_purge_below [OF assms] by (simp add: stmt_frame)
  then show "at_frame (dir_view i) (sql_bind (sql_bind (stmt flt (\<lambda>d. Inr (purge_condemned dir d, ())))
      (\<lambda>_. stmt flt (\<lambda>d. Inr (clear_condemned dir d, ()))))
      (\<lambda>_. sql_bind (query flt (rows_in dir)) (\<lambda>rows.
        sql_bind (query flt (\<lambda>d. list_ex (\<lambda>r. fe_id r = dir) (db_files d))) (\<lambda>ex. sql_ok (rows, ex))))) c1"
    by (intro bind_frame) (simp_all add: stmt_frame bind_frame)
qed

lemma dao_delete_frame:
  assumes "db_ok (cx_db c)" "i \<noteq> fe_parent e"
  shows "dir_view i (cx_db (fst (dao_delete flt e c))) = dir_view i (cx_db c)"
  unfolding dao_delete_def
proof (rule tx_frame, rule bind_frame)
  fix c1 c2 :: conn and found
  assume c: "cx_db c1 = cx_db c" "get_matching flt e c1 = (c2, Inr found)"
  show "at_frame (dir_view i) (case found of Some i \<Rightarrow> delete_raw_impl flt i
    | None \<Rightarrow> sql_bind (dao_exists flt (fe_parent e) (fe_name e)) (\<lambda>there.
        sql_ok (if there then DeleteNotMatched else DeleteNotFound))) c2"
  proof (cases found)
    case None
    then show ?thesis by (auto intro: bind_frame simp: dao_exists_def)
  next
    case (Some j)
    with get_matching_Some [of flt e c1 c2 j] c obtain r where r: "cx_db c2 = cx_db c"
      "find (matching e) (db_files (cx_db c)) = Some r" "j = fe_id r" by auto
    then have rm: "r \<in> set (db_files (cx_db c))" "fe_parent r = fe_parent e"
      by (auto simp: find_Some_iff dest: row_data_matching)
    have "at_frame (dir_view i) (delete_raw_impl flt j) c2"
      unfolding delete_raw_impl_def
    proof (rule bind_frame)
      fix c3 nonempty
      assume "has_children flt j c2 = (c3, Inr nonempty)"
      with r have "cx_db c3 = cx_db c" "nonempty = list_ex (\<lambda>q. fe_parent q = fe_id r) (db_files (cx_db c))"
        by (auto simp: has_children_def dest!: query_Inr)
      with r dir_view_delete [OF assms(1) rm(1), of i] rm(2) assms(2)
      show "at_frame (dir_view i) (if nonempty then sql_ok DeleteDirNotEmpty
          else sql_bind (stmt flt (\<lambda>d. Inr (delete_files (\<lambda>r. fe_id r = j) d, ()))) (\<lambda>_. sql_ok DeleteOk)) c3"
        by (auto intro!: bind_frame stmt_frame)
    qed (simp add: has_children_def)
    with Some show ?thesis by simp
  qed
qed (simp add: get_matching_def)

text \<open>A store operation on the directory with key \<open>h\<close> that leaves the directories of smaller
  keys alone.\<close>

lemma with_dao_frame:
  assumes "with_dao m s = (s', r)" "\<And>i. i < h \<Longrightarrow> dir_view i (cx_db (fst (m (an_conn s)))) = dir_view i (anc_db s)"
    "anc_rank s f < h"
  shows "anc_view s' f = anc_view s f \<and> anc_rank s' f = anc_rank s f"
proof -
  have c: "an_conn s' = fst (m (an_conn s))"
    using assms(1) by (auto simp: with_dao_def split: prod.splits sum.splits)
  have g: "get_h s' f = get_h s f"
    using get_h_cells [of s' s f] with_dao_cells [OF assms(1)] by simp
  show ?thesis
    using assms(2) [of "anc_rank s f"] assms(3) c g
    by (auto simp: anc_view_def anc_rank_def split: sum.splits)
qed

lemma anc_list_inv:
  assumes "anc_inv s" "handle_ok s d" "anc_list flt s d = Some (s', d', r)"
  shows "anc_inv s' \<and> keeps_dirs handle_ok s s' \<and> handle_ok s' d' \<and>
    (\<forall>f. anc_rank s f < anc_rank s d \<longrightarrow> anc_view s' f = anc_view s f \<and> anc_rank s' f = anc_rank s f) \<and>
    anc_rank s' d' = anc_rank s d"
proof (cases "is_deferred s d \<or> \<not> is_ok (get_h s d)")
  case True
  with assms show ?thesis by (auto simp: anc_list_def split: sum.splits if_splits)
next
  case False
  then obtain h where h: "get_h s d = Inr h" by (cases "get_h s d") auto
  obtain s1 q where w: "with_dao (dao_list flt True h) s = (s1, q)" by (cases "with_dao (dao_list flt True h) s")
  with False h assms(3) have s1: "s' = s1" "d' = d" by (auto simp: anc_list_def split: sum.splits prod.splits)
  have k: "anc_inv s1 \<and> keeps_dirs handle_ok s s1"
    by (rule with_dao_keeps [OF assms(1) w dao_list_safe])
  have "\<forall>f. anc_rank s f < h \<longrightarrow> anc_view s1 f = anc_view s f \<and> anc_rank s1 f = anc_rank s f"
    using with_dao_frame [OF w] dao_list_frame [OF anc_inv_db [OF assms(1)]] by blast
  moreover have "anc_rank s d = h" using h by (simp add: anc_rank_def)
  ultimately show ?thesis
    using k s1 assms(2) anc_rank_cells [OF with_dao_cells [OF w]] by (auto simp: keeps_dirs_def)
qed

lemma anc_list_law:
  assumes "anc_inv s" "handle_ok s d" "anc_list flt s d = Some (s', d', Inr fs)"
  shows "distinct (map fst fs) \<and> map_of fs = anc_view s' d'"
proof (cases "is_deferred s d")
  case True
  with assms(3) show ?thesis
    by (cases d) (auto simp: anc_list_def anc_view_def)
next
  case False
  with assms(3) obtain h where h: "get_h s d = Inr h" by (auto simp: anc_list_def split: sum.splits)
  with False assms(3) obtain rows ex where w: "with_dao (dao_list flt True h) s = (s', Inr (rows, ex))"
    and fs: "list_result (foldl list_row \<lparr>la_ret = [], la_nul = None, la_type = None, la_hash = False\<rparr> rows) ex = Inr fs"
    and d': "d' = d"
    by (auto simp: anc_list_def split: sum.splits prod.splits)
  have ok: "db_ok (anc_db s')"
    using with_dao_keeps [OF assms(1) w dao_list_safe] by (simp add: anc_inv_db)
  from dao_list_Inr [OF with_dao_Inr [OF w]] have rows: "rows = rows_in h (anc_db s')" by simp
  have h': "get_h s' d = Inr h" using get_h_cells [OF with_dao_cells [OF w], of d] h by simp
  from list_result_Inr [OF fs] rows have fs: "fs = map (\<lambda>r. (fe_name r, row_data r)) (rows_in h (anc_db s'))" by simp
  have "map_of fs = dir_view h (anc_db s')"
    unfolding fs by (rule ext) (simp add: map_of_find dir_view_def)
  moreover have "distinct (map fst fs)"
    using rows_in_names [OF ok, of h] unfolding fs by (simp add: comp_def)
  ultimately show ?thesis using d' h' by (simp add: anc_view_def)
qed

lemma anc_remove_inv:
  assumes "anc_inv s" "handle_ok s d" "anc_remove flt s d nf = Some (s', d', r)"
  shows "anc_inv s' \<and> keeps_dirs handle_ok s s' \<and> handle_ok s' d' \<and>
    (\<forall>f. anc_rank s f < anc_rank s d \<longrightarrow> anc_view s' f = anc_view s f \<and> anc_rank s' f = anc_rank s f) \<and>
    anc_rank s' d' = anc_rank s d"
proof (cases "get_h s d")
  case (Inl e)
  with assms show ?thesis by (auto simp: anc_remove_def)
next
  case (Inr h)
  with assms(3) obtain en where en: "file_as_entry nf h = Some en" by (auto simp: anc_remove_def split: option.splits)
  obtain s1 q where w: "with_dao (dao_delete flt en) s = (s1, q)" by (cases "with_dao (dao_delete flt en) s")
  with Inr en assms(3) have s1: "s' = s1" "d' = d"
    by (auto simp: anc_remove_def split: sum.splits delete_status.splits)
  have k: "anc_inv s1 \<and> keeps_dirs handle_ok s s1"
    by (rule with_dao_keeps [OF assms(1) w dao_delete_safe])
  have p: "fe_parent en = h" using file_as_entry_Some [of "fst nf" "snd nf" h en] en by simp
  have "\<forall>f. anc_rank s f < h \<longrightarrow> anc_view s1 f = anc_view s f \<and> anc_rank s1 f = anc_rank s f"
    using with_dao_frame [OF w] dao_delete_frame [OF anc_inv_db [OF assms(1)]] p by (metis less_irrefl)
  moreover have "anc_rank s d = h" using Inr by (simp add: anc_rank_def)
  ultimately show ?thesis
    using k s1 assms(2) anc_rank_cells [OF with_dao_cells [OF w]] by (auto simp: keeps_dirs_def)
qed

lemma anc_remove_law:
  assumes "anc_inv s" "handle_ok s d" "anc_remove flt s d (name, fd) = Some (s', d', Inr ())"
  shows "anc_view s d name = Some (anc_norm fd) \<and> anc_view s' d' = (anc_view s d)(name := None)"
proof -
  from assms(3) obtain h en where h: "get_h s d = Inr h" and en: "file_as_entry (name, fd) h = Some en"
    and w: "with_dao (dao_delete flt en) s = (s', Inr DeleteOk)" and d': "d' = d"
    by (auto simp: anc_remove_def split: sum.splits option.splits prod.splits delete_status.splits)
  note e = file_as_entry_Some [OF en] and ok = anc_inv_db [OF assms(1)]
  from dao_delete_Ok [OF with_dao_Inr [OF w]] obtain r where r: "find (matching en) (db_files (anc_db s)) = Some r"
    "anc_db s' = delete_files (\<lambda>q. fe_id q = fe_id r) (anc_db s)"
    "\<not> list_ex (\<lambda>q. fe_parent q = fe_id r) (db_files (anc_db s))" by blast
  from r(1) have rr: "r \<in> set (db_files (anc_db s))" "matching en r" by (auto simp: find_Some_iff)
  from row_data_matching [OF rr(2)] e have rd: "row_data r = anc_norm fd" "fe_parent r = h" "fe_name r = name" by auto
  have "fe_id r \<noteq> 0" using db_ok_root [OF ok rr(1)] r(3) rr(1) by (auto simp: list_ex_iff)
  then have "dir_view h (anc_db s) name = Some (anc_norm fd)"
    using dir_view_Some [OF ok] rr(1) rd by blast
  moreover have "dir_view h (anc_db s') = (dir_view h (anc_db s))(name := None)"
    using dir_view_delete [OF ok rr(1) r(3), of h] rd r(2) by simp
  moreover have "get_h s' d = Inr h" using get_h_cells [OF with_dao_cells [OF w], of d] h by simp
  ultimately show ?thesis using h d' by (simp add: anc_view_def)
qed

lemma anc_create_Inr:
  assumes "anc_create flt s d (name, fd) x = Some (s', d', Inr r)"
  obtains s1 h en i where "mk_h flt s d = (s1, Inr h)" "file_as_entry (name, x) h = Some en"
    "with_dao (dao_create flt en) s1 = (s', Inr (Some i))" "d' = d" "r = x"
proof -
  obtain s1 q where m: "mk_h flt s d = (s1, q)" by (cases "mk_h flt s d")
  with assms obtain h where h: "q = Inr h" by (cases q) (auto simp: anc_create_def)
  with m assms obtain en where en: "file_as_entry (name, x) h = Some en"
    by (cases "file_as_entry (name, x) h") (auto simp: anc_create_def)
  obtain s2 q2 where w: "with_dao (dao_create flt en) s1 = (s2, q2)" by (cases "with_dao (dao_create flt en) s1")
  with m h en assms obtain i where "q2 = Inr (Some i)" "s' = s2" "d' = d" "r = x"
    by (cases q2; cases "projr q2") (auto simp: anc_create_def split: option.splits)
  with that m h en w show thesis by blast
qed

lemma anc_create_inv:
  assumes "anc_inv s" "handle_ok s d" "anc_create flt s d nf x = Some (s', d', r)"
  shows "anc_inv s' \<and> keeps_dirs handle_ok s s' \<and> handle_ok s' d'"
proof -
  obtain s1 q where m: "mk_h flt s d = (s1, q)" by (cases "mk_h flt s d")
  from mk_h_keeps [OF assms(1,2) m] have 1: "anc_inv s1" "keeps_dirs handle_ok s s1"
    "\<And>h. q = Inr h \<Longrightarrow> get_h s1 d = Inr h" by auto
  have d1: "handle_ok s1 d" using 1(2) assms(2) by (rule keeps_dirsD)
  show ?thesis
  proof (cases q)
    case (Inl e)
    with m assms 1 d1 show ?thesis by (auto simp: anc_create_def)
  next
    case (Inr h)
    with m assms(3) obtain en where en: "file_as_entry (fst nf, x) h = Some en"
      by (auto simp: anc_create_def split: option.splits)
    obtain s2 q2 where w: "with_dao (dao_create flt en) s1 = (s2, q2)" by (cases "with_dao (dao_create flt en) s1")
    have "fe_parent en \<le> db_seq (anc_db s1)"
      using get_h_ok [OF d1 1(3) [OF Inr]] file_as_entry_Some [OF en] by simp
    from with_dao_keeps [OF 1(1) w dao_create_safe [OF this]] have "anc_inv s2 \<and> keeps_dirs handle_ok s1 s2" .
    moreover have "s' = s2" "d' = d"
      using m Inr en w assms(3) by (auto simp: anc_create_def split: sum.splits option.splits)
    ultimately show ?thesis using 1(2) d1 by (auto simp: keeps_dirs_def)
  qed
qed

lemma anc_create_law:
  assumes "anc_inv s" "handle_ok s d" "anc_create flt s d (name, fd) fd = Some (s', d', Inr r)"
  shows "anc_view s d name = None \<and> anc_view s' d' = (anc_view s d)(name \<mapsto> anc_norm r) \<and> r = fd"
proof -
  obtain s1 h en i where m: "mk_h flt s d = (s1, Inr h)" and en: "file_as_entry (name, fd) h = Some en"
    and w: "with_dao (dao_create flt en) s1 = (s', Inr (Some i))" and r: "d' = d" "r = fd"
    using assms(3) by (rule anc_create_Inr)
  from mk_h_keeps [OF assms(1,2) m] have 1: "anc_inv s1" "handle_ok s1 d" "get_h s1 d = Inr h"
    "anc_view s1 d = anc_view s d"
    using assms(2) by (auto dest: keeps_dirsD)
  note e = file_as_entry_Some [OF en]
  have h: "fe_parent en \<le> db_seq (anc_db s1)" using get_h_ok [OF 1(2,3)] e by simp
  from dao_create_Some [OF with_dao_Inr [OF w] anc_inv_db [OF 1(1)] h]
  have "insert_file en (anc_db s1) = Inr (anc_db s', ())" by simp
  from dir_view_insert [OF anc_inv_db [OF 1(1)] this h] e
  have "dir_view h (anc_db s1) name = None" "dir_view h (anc_db s') = (dir_view h (anc_db s1))(name \<mapsto> anc_norm fd)" by auto
  moreover have "get_h s' d = Inr h" using get_h_cells [OF with_dao_cells [OF w], of d] 1(3) by simp
  ultimately show ?thesis using 1(3,4) r by (simp add: anc_view_def)
qed

lemma anc_update_inv:
  assumes "anc_inv s" "handle_ok s d" "anc_update flt s d name old fd x = Some (s', d', r)"
  shows "anc_inv s' \<and> keeps_dirs handle_ok s s' \<and> handle_ok s' d'"
proof (cases "is_dir (Some old) \<and> \<not> is_dir (Some x)")
  case True
  with assms(3) obtain s1 d1 q where rm: "anc_remove flt s d (name, old) = Some (s1, d1, q)"
    by (auto simp: anc_update_def split: option.splits)
  from anc_remove_inv [OF assms(1,2) rm] have 1: "anc_inv s1" "keeps_dirs handle_ok s s1" "handle_ok s1 d1" by auto
  show ?thesis
  proof (cases q)
    case (Inl e)
    with True rm assms(3) 1 show ?thesis by (auto simp: anc_update_def)
  next
    case (Inr u)
    with True rm assms(3) have "anc_create flt s1 d1 (name, fd) x = Some (s', d', r)" by (auto simp: anc_update_def)
    from anc_create_inv [OF 1(1,3) this] 1(2) show ?thesis by (auto intro: keeps_dirs_trans)
  qed
next
  case False
  show ?thesis
  proof (cases "get_h s d")
    case (Inl e)
    with False assms show ?thesis by (auto simp: anc_update_def)
  next
    case (Inr h)
    with False assms(3) obtain oe ne where "file_as_entry (name, old) h = Some oe" "file_as_entry (name, x) h = Some ne"
      by (cases "file_as_entry (name, old) h"; cases "file_as_entry (name, x) h") (auto simp: anc_update_def)
    moreover obtain s1 q where w: "with_dao (dao_update flt oe ne) s = (s1, q)" by (cases "with_dao (dao_update flt oe ne) s")
    ultimately have "s' = s1" "d' = d"
      using False Inr assms(3) by (auto simp: anc_update_def split: sum.splits update_status.splits)
    with with_dao_keeps [OF assms(1) w dao_update_safe] assms(2) show ?thesis by (auto simp: keeps_dirs_def)
  qed
qed

lemma anc_update_law:
  assumes "anc_inv s" "handle_ok s d" "name \<noteq> []" "anc_update flt s d name old fd fd = Some (s', d', Inr r)"
  shows "anc_view s d name = Some (anc_norm old) \<and> anc_view s' d' = (anc_view s d)(name \<mapsto> anc_norm r) \<and> r = fd"
proof (cases "is_dir (Some old) \<and> \<not> is_dir (Some fd)")
  case True
  with assms(4) obtain s1 d1 where rm: "anc_remove flt s d (name, old) = Some (s1, d1, Inr ())"
    and cr: "anc_create flt s1 d1 (name, fd) fd = Some (s', d', Inr r)"
    by (auto simp: anc_update_def split: option.splits sum.splits)
  from anc_remove_inv [OF assms(1,2) rm] have 1: "anc_inv s1" "handle_ok s1 d1" by auto
  from anc_remove_law [OF assms(1,2) rm] anc_create_law [OF 1 cr] show ?thesis by auto
next
  case False
  with assms(4) obtain h where h: "get_h s d = Inr h" by (cases "get_h s d") (auto simp: anc_update_def)
  with False assms(4) obtain oe ne where oe: "file_as_entry (name, old) h = Some oe" and ne: "file_as_entry (name, fd) h = Some ne"
    by (cases "file_as_entry (name, old) h"; cases "file_as_entry (name, fd) h") (auto simp: anc_update_def)
  obtain s1 q where w: "with_dao (dao_update flt oe ne) s = (s1, q)" by (cases "with_dao (dao_update flt oe ne) s")
  with False h oe ne assms(4) have s1: "q = Inr UpdateOk" "s' = s1" "d' = d" "r = fd"
    by (auto simp: anc_update_def split: sum.splits update_status.splits)
  note ok = anc_inv_db [OF assms(1)]
  from dao_update_Ok [OF with_dao_Inr [OF w [unfolded s1(1)]]] obtain q where
    q: "find (matching oe) (db_files (anc_db s)) = Some q" "anc_db s1 = update_row (fe_id q) ne (anc_db s)" by blast
  from q(1) have qq: "q \<in> set (db_files (anc_db s))" "matching oe q" by (auto simp: find_Some_iff)
  from row_data_matching [OF qq(2)] file_as_entry_Some [OF oe]
  have rd: "row_data q = anc_norm old" "fe_parent q = h" "fe_name q = name" by auto
  have q0: "fe_id q \<noteq> 0" using db_ok_root [OF ok qq(1)] rd(3) assms(3) by auto
  have "dir_view h (anc_db s) name = Some (anc_norm old)"
    using dir_view_Some [OF ok] qq(1) rd q0 by blast
  moreover have "dir_view h (anc_db s1) = (dir_view h (anc_db s))(name \<mapsto> anc_norm fd)"
    using dir_view_update [OF ok qq(1) q0, of ne] rd q(2) file_as_entry_Some [OF ne] by simp
  moreover have "get_h s1 d = Inr h" using get_h_cells [OF with_dao_cells [OF w], of d] h by simp
  ultimately show ?thesis using h s1 by (simp add: anc_view_def)
qed

lemma anc_rename_inv:
  assumes "anc_inv s" "handle_ok s d" "n \<noteq> []" "anc_rename flt s d n n' = Some (s', d', r)"
  shows "anc_inv s' \<and> keeps_dirs handle_ok s s' \<and> handle_ok s' d'"
proof (cases "get_h s d")
  case (Inl e)
  with assms show ?thesis by (auto simp: anc_rename_def)
next
  case (Inr h)
  obtain s1 q where w: "with_dao (dao_rename flt h n n') s = (s1, q)" by (cases "with_dao (dao_rename flt h n n') s")
  with Inr assms(4) have "s' = s1" "d' = d" by (auto simp: anc_rename_def split: sum.splits rename_status.splits)
  with with_dao_keeps [OF assms(1) w dao_rename_safe [OF assms(3)]] assms(2) show ?thesis by (auto simp: keeps_dirs_def)
qed

lemma anc_rename_law:
  assumes "anc_inv s" "handle_ok s d" "n \<noteq> []" "anc_rename flt s d n n' = Some (s', d', Inr ())"
  shows "anc_view s d n \<noteq> None \<and> anc_view s d n' = None \<and>
    anc_view s' d' = ((anc_view s d)(n := None))(n' := anc_view s d n)"
proof -
  from assms(4) obtain h where h: "get_h s d = Inr h" by (cases "get_h s d") (auto simp: anc_rename_def)
  obtain s1 q where w: "with_dao (dao_rename flt h n n') s = (s1, q)" by (cases "with_dao (dao_rename flt h n n') s")
  with h assms(4) have s1: "q = Inr RenameOk" "s' = s1" "d' = d"
    by (auto simp: anc_rename_def split: sum.splits rename_status.splits)
  from dao_rename_Ok [OF with_dao_Inr [OF w [unfolded s1(1)]]]
  have r: "anc_db s1 = rename_rows h n n' (anc_db s)" "list_ex (\<lambda>r. same_name r h n) (db_files (anc_db s))"
    "\<not> list_ex (\<lambda>r. same_name r h n') (db_files (anc_db s))" by auto
  have "get_h s1 d = Inr h" using get_h_cells [OF with_dao_cells [OF w], of d] h by simp
  with dir_view_rename [OF anc_inv_db [OF assms(1)] assms(3) r(2,3)] r(1) h s1
  show ?thesis by (simp add: anc_view_def)
qed

lemma anc_chdir_inv:
  assumes "anc_inv s" "handle_ok s d" "anc_chdir flt s d name = Some (s', c)"
  shows "anc_inv s' \<and> keeps_dirs handle_ok s s' \<and> anc_view s' = anc_view s \<and> anc_rank s' = anc_rank s"
proof (cases "get_h s d")
  case (Inl e)
  with assms show ?thesis by (auto simp: anc_chdir_def)
next
  case (Inr h)
  obtain s1 q where w: "with_dao (get_by_name flt h name) s = (s1, q)" by (cases "with_dao (get_by_name flt h name) s")
  with Inr assms(3) have s1: "s' = s1" by (auto simp: anc_chdir_def split: sum.splits option.splits if_splits)
  have db: "anc_db s1 = anc_db s"
    using w by (cases "flt (cx_count (an_conn s))")
      (auto simp: with_dao_def get_by_name_def query_def stmt_def Let_def)
  have "sql_safe b (get_by_name flt h name)" for b by (simp add: get_by_name_def)
  from with_dao_keeps [OF assms(1) w this] have k: "anc_inv s1 \<and> keeps_dirs handle_ok s s1" .
  have "get_h s1 f = get_h s f" for f using get_h_cells [OF with_dao_cells [OF w]] .
  then have "anc_view s1 f = anc_view s f" "anc_rank s1 f = anc_rank s f" for f
    by (simp_all add: anc_view_def anc_rank_def db split: sum.splits)
  then have "anc_view s1 = anc_view s" "anc_rank s1 = anc_rank s" by auto
  with k s1 show ?thesis by simp
qed

lemma anc_chdir_law:
  assumes "anc_inv s" "handle_ok s d" "name \<noteq> [] \<or> anc_view s d name \<noteq> None"
    "anc_chdir flt s d name = Some (s', Inr d2)"
  shows "handle_ok s' d2 \<and> anc_rank s d < anc_rank s' d2 \<and> is_dir (anc_view s d name)"
proof -
  from assms(4) obtain h where h: "get_h s d = Inr h" by (cases "get_h s d") (auto simp: anc_chdir_def)
  obtain s1 q where w: "with_dao (get_by_name flt h name) s = (s1, q)" by (cases "with_dao (get_by_name flt h name) s")
  with h assms(4) obtain f where f: "q = Inr (Some f)" "fe_typ f = T_DIRECTORY" "s' = s1" "d2 = Real (fe_id f)"
    by (auto simp: anc_chdir_def split: sum.splits option.splits if_splits)
  from query_Inr [of flt] with_dao_Inr [OF w [unfolded f(1)]]
  have db: "anc_db s1 = anc_db s" "find (\<lambda>r. same_name r h name) (db_files (anc_db s)) = Some f"
    unfolding get_by_name_def by fastforce+
  then have ff: "f \<in> set (db_files (anc_db s))" "fe_parent f = h" "fe_name f = name"
    by (auto simp: find_Some_iff same_name_def)
  note ok = anc_inv_db [OF assms(1)]
  have f0: "fe_id f \<noteq> 0"
    using assms(3)
  proof
    assume "name \<noteq> []"
    with db_ok_root [OF ok ff(1)] ff(3) show ?thesis by auto
  next
    assume "anc_view s d name \<noteq> None"
    then obtain r where "r \<in> set (db_files (anc_db s))" "fe_parent r = h" "fe_id r \<noteq> 0" "fe_name r = name"
      using h dir_view_Some [OF ok, of h name] by (auto simp: anc_view_def)
    with db_ok_unique [OF ok, of r f] ff show ?thesis by auto
  qed
  have "dir_view h (anc_db s) name = Some (row_data f)"
    using dir_view_Some [OF ok] ff f0 by blast
  moreover have "fe_parent f < fe_id f" "0 \<le> fe_id f" "fe_id f \<le> db_seq (anc_db s)"
    using ok ff(1) f0 by (auto simp: db_ok_def)
  moreover have "is_dir (Some (row_data f))"
    using f(2) by (simp add: row_data_def T_REGULAR_def T_DIRECTORY_def T_SYMLINK_def)
  ultimately show ?thesis using f db(1) h ff(2) by (simp add: anc_view_def anc_rank_def)
qed

lemma anc_ops [simp]:
  "r_list (ancestor_replica flt) = anc_list flt" "r_rename (ancestor_replica flt) = anc_rename flt"
  "r_remove (ancestor_replica flt) = anc_remove flt" "r_create (ancestor_replica flt) = anc_create flt"
  "r_update (ancestor_replica flt) = anc_update flt" "r_chdir (ancestor_replica flt) = anc_chdir flt"
  "r_synthdir (ancestor_replica flt) = anc_synthdir" "r_rmdir (ancestor_replica flt) = anc_rmdir flt"
  "r_null_transfer (ancestor_replica flt) = (\<lambda>fd. fd)"
  "r_condemn (ancestor_replica flt) = anc_condemn flt" "r_uncondemn (ancestor_replica flt) = anc_uncondemn flt"
  by (simp_all add: ancestor_replica_def)

text \<open>Listing and removing give out no keys.\<close>

lemma delete_files_seq [simp]: "db_seq (delete_files p d) = db_seq d"
  by (simp add: delete_files_def delete_ids_def Let_def)

lemma dao_list_seq: "db_seq (cx_db (fst (dao_list flt True dir c))) = db_seq (cx_db c)"
  unfolding dao_list_def if_True
  by (rule tx_frame, intro bind_frame) (simp_all add: stmt_frame purge_condemned_def clear_condemned_def)

lemma dao_delete_seq: "db_seq (cx_db (fst (dao_delete flt e c))) = db_seq (cx_db c)"
  unfolding dao_delete_def delete_raw_impl_def
  by (rule tx_frame, intro bind_frame)
    (auto simp: get_matching_def has_children_def dao_exists_def
      intro!: bind_frame stmt_frame split: option.splits)

lemma with_dao_seq:
  assumes "with_dao m s = (s', r)" "db_seq (cx_db (fst (m (an_conn s)))) = db_seq (anc_db s)"
  shows "db_seq (anc_db s') = db_seq (anc_db s)"
  using assms by (auto simp: with_dao_def split: prod.splits sum.splits)

lemma list_rows_storable:
  "foldl list_row a rows = a' \<Longrightarrow> list_all (\<lambda>f. snd f \<noteq> Special) (la_ret a) \<Longrightarrow> list_all (\<lambda>f. snd f \<noteq> Special) (la_ret a')"
proof (induction rows arbitrary: a)
  case (Cons e rows)
  have "list_all (\<lambda>f. snd f \<noteq> Special) (la_ret (list_row a e))"
    using Cons.prems(2) by (auto simp: list_row_def split: sum.splits)
  with Cons show ?case by simp
qed simp

lemma anc_list_total:
  "\<exists>s' d' r. anc_list flt s d = Some (s', d', r) \<and> db_seq (anc_db s') \<le> db_seq (anc_db s) \<and>
     (\<forall>fs. r = Inr fs \<longrightarrow> list_all (\<lambda>f. snd f \<noteq> Special) fs)"
proof (cases "is_deferred s d \<or> \<not> is_ok (get_h s d)")
  case True
  then show ?thesis by (auto simp: anc_list_def split: sum.splits)
next
  case False
  then obtain h where h: "\<not> is_deferred s d" "get_h s d = Inr h" by (cases "get_h s d") auto
  obtain s1 q where w: "with_dao (dao_list flt True h) s = (s1, q)" by (cases "with_dao (dao_list flt True h) s")
  have s1: "db_seq (anc_db s1) \<le> db_seq (anc_db s)" using with_dao_seq [OF w] by (simp add: dao_list_seq)
  have "list_result (foldl list_row \<lparr>la_ret = [], la_nul = None, la_type = None, la_hash = False\<rparr> rows) ex = Inr fs \<Longrightarrow>
      list_all (\<lambda>f. snd f \<noteq> Special) fs" for rows ex fs
    using list_rows_storable [of "\<lparr>la_ret = [], la_nul = None, la_type = None, la_hash = False\<rparr>" rows, OF refl]
    by (auto simp: list_result_def split: option.splits if_splits)
  with h w s1 show ?thesis by (cases q) (auto simp: anc_list_def split: prod.splits)
qed

lemma anc_chdir_total: "\<exists>s' r. anc_chdir flt s d name = Some (s', r) \<and> db_seq (anc_db s') \<le> db_seq (anc_db s)"
proof (cases "get_h s d")
  case (Inr h)
  obtain s1 q where w: "with_dao (get_by_name flt h name) s = (s1, q)" by (cases "with_dao (get_by_name flt h name) s")
  have "db_seq (anc_db s1) = db_seq (anc_db s)"
    using w by (cases "flt (cx_count (an_conn s))") (auto simp: with_dao_def get_by_name_def query_def stmt_def Let_def)
  with Inr w show ?thesis by (cases q) (auto simp: anc_chdir_def split: option.splits)
qed (simp add: anc_chdir_def)

lemma file_as_entry_None [simp]: "file_as_entry (name, fd) h = None \<longleftrightarrow> fd = Special"
  by (cases fd) (auto simp: file_as_entry_def)

lemma anc_remove_total:
  assumes "fd \<noteq> Special"
  shows "\<exists>s' d' r. anc_remove flt s d (name, fd) = Some (s', d', r) \<and> db_seq (anc_db s') \<le> db_seq (anc_db s)"
proof (cases "get_h s d")
  case (Inr h)
  from assms obtain en where en: "file_as_entry (name, fd) h = Some en" by (cases "file_as_entry (name, fd) h") auto
  obtain s1 q where w: "with_dao (dao_delete flt en) s = (s1, q)" by (cases "with_dao (dao_delete flt en) s")
  have "db_seq (anc_db s1) = db_seq (anc_db s)" using with_dao_seq [OF w] by (simp add: dao_delete_seq)
  with Inr en w show ?thesis
    by (cases q) (auto simp: anc_remove_def split: delete_status.splits)
qed (simp add: anc_remove_def)

lemma anc_create_total: "fd \<noteq> Special \<Longrightarrow> anc_create flt s d (name, src) fd \<noteq> None"
  by (auto simp: anc_create_def split: prod.splits sum.splits option.splits)

lemma anc_update_total:
  assumes "old \<noteq> Special" "fd \<noteq> Special"
  shows "anc_update flt s d name old src fd \<noteq> None"
proof (cases "is_dir (Some old) \<and> \<not> is_dir (Some fd)")
  case True
  from anc_remove_total [OF assms(1)] obtain s1 d1 q where "anc_remove flt s d (name, old) = Some (s1, d1, q)" by blast
  with True anc_create_total [OF assms(2)] show ?thesis by (cases q) (auto simp: anc_update_def)
next
  case False
  with assms show ?thesis
    by (auto simp: anc_update_def split: sum.splits option.splits prod.splits update_status.splits)
qed

lemma dir_view_condemned [simp]: "dir_view h (d\<lparr>db_condemned := x\<rparr>) = dir_view h d"
  by (intro ext) (simp add: dir_view_def rows_in_def)

lemma with_dao_stmt_view:
  assumes "anc_inv s" "handle_ok s d" "get_h s d = Inr h" "with_dao (stmt flt f) s = (s', r)"
    "sql_safe (db_seq (anc_db s)) (stmt flt f)" "\<And>x y z. f x = Inr (y, z) \<Longrightarrow> dir_view h y = dir_view h x"
  shows "anc_inv s' \<and> keeps_dirs handle_ok s s' \<and> handle_ok s' d \<and> anc_view s' d = anc_view s d"
proof -
  have k: "anc_inv s' \<and> keeps_dirs handle_ok s s'" by (rule with_dao_keeps [OF assms(1,4,5)])
  have "get_h s' d = Inr h" using get_h_cells [OF with_dao_cells [OF assms(4)], of d] assms(3) by simp
  moreover have "dir_view h (anc_db s') = dir_view h (anc_db s)"
    using assms(4,6) by (auto simp: with_dao_def stmt_def Let_def split: prod.splits sum.splits option.splits)
  ultimately show ?thesis using k assms(2,3) by (auto simp: anc_view_def dest: keeps_dirsD)
qed

lemma anc_condemn_law:
  assumes "anc_inv s" "handle_ok s d" "name \<noteq> []" "anc_condemn flt s d name = Some (s', d', q)"
  shows "anc_inv s' \<and> keeps_dirs handle_ok s s' \<and> handle_ok s' d' \<and> anc_view s' d' = anc_view s d"
proof (cases "get_h s d")
  case (Inr h)
  obtain s1 r where w: "with_dao (dao_condemn flt h name) s = (s1, r)" by (cases "with_dao (dao_condemn flt h name) s")
  have "anc_inv s1 \<and> keeps_dirs handle_ok s s1 \<and> handle_ok s1 d \<and> anc_view s1 d = anc_view s d"
    by (rule with_dao_stmt_view [OF assms(1,2) Inr w [unfolded dao_condemn_def] dao_condemn_safe [OF assms(3), unfolded dao_condemn_def]])
      (auto simp: insert_condemned_def split: if_splits)
  with Inr w assms(4) show ?thesis by (auto simp: anc_condemn_def)
qed (use assms in \<open>auto simp: anc_condemn_def\<close>)

lemma anc_uncondemn_law:
  assumes "anc_inv s" "handle_ok s d" "anc_uncondemn flt s d name = Some (s', d', q)"
  shows "anc_inv s' \<and> keeps_dirs handle_ok s s' \<and> handle_ok s' d' \<and> anc_view s' d' = anc_view s d"
proof (cases "get_h s d")
  case (Inr h)
  obtain s1 r where w: "with_dao (dao_uncondemn flt h name) s = (s1, r)" by (cases "with_dao (dao_uncondemn flt h name) s")
  have "anc_inv s1 \<and> keeps_dirs handle_ok s s1 \<and> handle_ok s1 d \<and> anc_view s1 d = anc_view s d"
    by (rule with_dao_stmt_view [OF assms(1,2) Inr w [unfolded dao_uncondemn_def] dao_uncondemn_safe [unfolded dao_uncondemn_def]]) auto
  with Inr w assms(3) show ?thesis by (auto simp: anc_uncondemn_def)
qed (use assms in \<open>auto simp: anc_uncondemn_def\<close>)

lemma anc_rank_limit: "anc_inv s \<Longrightarrow> handle_ok s d \<Longrightarrow> anc_rank s d \<le> db_seq (anc_db s)"
  using get_h_ok [of s d] by (fastforce simp: anc_rank_def anc_inv_def db_ok_def split: sum.splits)

interpretation anc: ancestor_contract "ancestor_replica flt" anc_inv handle_ok anc_view anc_norm "(=)" anc_rank
  "\<lambda>s. db_seq (anc_db s)" "\<lambda>fd. fd \<noteq> Special"
  for flt :: faults
proof unfold_locales
qed (unfold anc_ops,
  ((rule anc_list_inv anc_list_law anc_create_inv anc_update_inv anc_remove_inv anc_remove_law anc_rename_inv
      anc_rename_law anc_chdir_inv anc_chdir_law anc_rank_limit anc_list_total anc_chdir_total anc_remove_total
      anc_create_total anc_update_total anc_condemn_law anc_uncondemn_law refl; assumption)
   | (auto dest: anc_create_law anc_update_law; fail)
   | (auto simp: anc_rename_def anc_condemn_def anc_uncondemn_def split: sum.splits prod.splits rename_status.splits; fail))+)

text \<open>A listing shows the directory without the names condemned in any directory.\<close>

lemma anc_list_restrict:
  assumes "anc_inv s" "handle_ok s d" "anc_list flt s d = Some (s', d', Inr fs)"
  shows "map_of fs = anc_view s d |` (- snd ` set (db_condemned (anc_db s)))"
proof (cases "is_deferred s d")
  case True
  with assms(3) show ?thesis by (cases d) (auto simp: anc_list_def anc_view_def)
next
  case False
  with assms(3) obtain h where h: "get_h s d = Inr h" by (auto simp: anc_list_def split: sum.splits)
  with False assms(3) obtain rows ex where w: "with_dao (dao_list flt True h) s = (s', Inr (rows, ex))" and d': "d' = d"
    by (auto simp: anc_list_def split: sum.splits prod.splits)
  note ok = anc_inv_db [OF assms(1)]
  have h': "get_h s' d = Inr h" using get_h_cells [OF with_dao_cells [OF w], of d] h by simp
  have "rows_in h (anc_db s') = filter (\<lambda>r. fe_name r \<notin> snd ` set (db_condemned (anc_db s))) (rows_in h (anc_db s))"
    using dao_list_Inr [OF with_dao_Inr [OF w]] rows_in_purge [OF ok, of h]
    by (simp add: clear_condemned_def rows_in_def)
  moreover have "find (\<lambda>r. fe_name r = n) (filter (\<lambda>r. fe_name r \<notin> C) rs) =
      (if n \<in> C then None else find (\<lambda>r. fe_name r = n) rs)" for n C and rs :: "file_entry list"
    by (induction rs) auto
  ultimately have "dir_view h (anc_db s') = dir_view h (anc_db s) |` (- snd ` set (db_condemned (anc_db s)))"
    by (intro ext) (simp add: dir_view_def restrict_map_def)
  moreover from anc.list_law [of s d flt s' d' fs] assms have "map_of fs = anc_view s' d'"
    by (simp add: ancestor_replica_def)
  ultimately show ?thesis using d' h h' by (simp add: anc_view_def)
qed

section \<open>Properties\<close>



end
