(* ===== verification/Memory_Replica.thy ===== *)
theory Memory_Replica
  imports Replica Std_Text
begin

text \<open>
  The in-memory replica of \<open>src/memory_replica.rs\<close>, with which the reconciler is tested: a table
  from paths to directories, files that are represented by their hash, handles with the synthetic
  directories on their path, and faults that can be injected into every operation. A fault is a
  function of the directories; the table of faults does not change, so it is a parameter of the
  replica. The order in which a hash map is read is the order of the association list that
  stands for it. \<open>None\<close> is a panic, such as an \<open>unwrap\<close> of \<open>to_str\<close> on a path
  that is not UTF-8.

  The lemmas show that the operations keep the table and the entries consistent, so that
  their \<open>unwrap\<close>s hold, and the functional behaviour of the changes.
\<close>

section \<open>Definitions\<close>

subsection \<open>Data\<close>

datatype mem_op =
    ReadRoot
  | ListOp os_string
  | RenameOp os_string os_string
  | RemoveOp os_string os_string
  | CreateOp os_string os_string
  | CreateSynthetic os_string
  | UpdateOp os_string os_string
  | ChdirOp os_string
  | TransferOp os_string os_string

record mem_regular =
  mr_mode :: file_mode
  mr_size :: file_size
  mr_modified :: file_time
  mr_hash :: hash_id
  mr_content :: hash_id

datatype mem_entry =
    DirectoryEntry file_mode
  | RegularEntry mem_regular
  | SymlinkEntry os_string
  | SpecialEntry

record mem_directory =
  md_contents :: "(os_string \<times> mem_entry) list"
  md_condemned :: "os_string list"
  md_clean :: bool

definition mem_directory_default :: mem_directory where
  "mem_directory_default = \<lparr>md_contents = [], md_condemned = [], md_clean = False\<rparr>"

fun entry_file_data :: "mem_entry \<Rightarrow> file_data" where
  "entry_file_data (DirectoryEntry mode) = Directory mode"
| "entry_file_data (RegularEntry reg) = Regular (mr_mode reg) (mr_size reg) (mr_modified reg) (mr_hash reg)"
| "entry_file_data (SymlinkEntry target) = Symlink target"
| "entry_file_data SpecialEntry = Special"

fun from_file_data :: "file_data \<Rightarrow> hash_id option \<Rightarrow> mem_entry res" where
  "from_file_data (Directory mode) xfer = Inr (DirectoryEntry mode)"
| "from_file_data (Regular mode sz modified _) xfer =
     (case xfer of
        None \<Rightarrow> Inl (err MissingXfer)
      | Some h \<Rightarrow> Inr (RegularEntry \<lparr>mr_mode = mode, mr_size = sz, mr_modified = modified, mr_hash = h, mr_content = h\<rparr>))"
| "from_file_data (Symlink target) xfer = Inr (SymlinkEntry target)"
| "from_file_data Special xfer = Inr SpecialEntry"

type_synonym mem_dirs = "(os_string \<times> mem_directory) list"
type_synonym mem_faults = "mem_op \<Rightarrow> (mem_dirs \<Rightarrow> mem_dirs \<times> unit res) option"

record mem_handle =
  mh_path :: os_string
  mh_synthetics :: "(os_string \<times> os_string \<times> file_mode) list"

record mem_state =
  ms_dirs :: mem_dirs
  ms_next_hash :: "32 word"

definition mem_empty_dirs :: mem_dirs where
  "mem_empty_dirs = [([], mem_directory_default)]"

definition mem_empty :: mem_state where
  "mem_empty = \<lparr>ms_dirs = mem_empty_dirs, ms_next_hash = 1\<rparr>"

definition simple_error :: error where
  "simple_error = err (Msg ''Something broke'')"

definition catpath :: "os_string \<Rightarrow> os_string \<Rightarrow> os_string" where
  "catpath a b = a @ ''/'' @ b"

definition test_op :: "mem_faults \<Rightarrow> mem_op \<Rightarrow> mem_dirs \<Rightarrow> mem_dirs \<times> unit res" where
  "test_op flt op ds = (case flt op of Some f \<Rightarrow> f ds | None \<Rightarrow> (ds, Inr ()))"

text \<open>The counter overflows with a panic: the tests run with overflow checks.\<close>

definition hash_byte :: "32 word \<Rightarrow> nat \<Rightarrow> byte" where
  "hash_byte h i = char_of (unat (and (drop_bit (8 * i) h) 0xFF))"

definition gen_hash :: "mem_state \<Rightarrow> (mem_state \<times> hash_id) option" where
  "gen_hash s =
     (if ms_next_hash s = - 1 then None
      else Some (s\<lparr>ms_next_hash := ms_next_hash s + 1\<rparr>,
        map (hash_byte (ms_next_hash s)) [0..<4] @ replicate 28 (CHR 0x00)))"

fun unknown_entry :: "mem_entry \<Rightarrow> mem_entry" where
  "unknown_entry (RegularEntry reg) = RegularEntry (reg\<lparr>mr_hash := UNKNOWN_HASH\<rparr>)"
| "unknown_entry e = e"

definition set_hashes_unknown :: "mem_state \<Rightarrow> mem_handle \<Rightarrow> mem_state option" where
  "set_hashes_unknown s d =
     (case map_of (ms_dirs s) (mh_path d) of
        None \<Rightarrow> None
      | Some c \<Rightarrow> Some (s\<lparr>ms_dirs := AList.update (mh_path d)
          (c\<lparr>md_contents := map (\<lambda>(n, e). (n, unknown_entry e)) (md_contents c)\<rparr>) (ms_dirs s)\<rparr>))"

definition mark_all_dirty :: "mem_state \<Rightarrow> mem_state" where
  "mark_all_dirty s = s\<lparr>ms_dirs := map (\<lambda>(p, c). (p, c\<lparr>md_clean := False\<rparr>)) (ms_dirs s)\<rparr>"

definition is_condemned :: "mem_state \<Rightarrow> mem_handle \<Rightarrow> os_string \<Rightarrow> bool res" where
  "is_condemned s d name =
     (case map_of (ms_dirs s) (mh_path d) of
        Some c \<Rightarrow> Inr (name \<in> set (md_condemned c))
      | None \<Rightarrow> Inl simple_error)"

subsection \<open>Text\<close>

definition to_str :: "os_string \<Rightarrow> string option" where
  "to_str s = (if valid_utf8 s then Some s else None)"

definition char_boundary :: "string \<Rightarrow> nat \<Rightarrow> bool" where
  "char_boundary s i = (i = length s \<or> i < length s \<and> \<not> is_cont (byte_val (s ! i)))"

definition str_slice :: "string \<Rightarrow> nat \<Rightarrow> nat \<Rightarrow> string option" where
  "str_slice s a b = (if a \<le> b \<and> char_boundary s a \<and> char_boundary s b then Some (drop a (take b s)) else None)"

definition is_under :: "os_string \<Rightarrow> os_string \<Rightarrow> bool option" where
  "is_under c_big c_prefix =
     Option.bind (to_str c_big) (\<lambda>big.
     Option.bind (to_str c_prefix) (\<lambda>prefix.
       if prefix = big then Some True
       else if length prefix < length big then
         Option.bind (str_slice big 0 (length prefix)) (\<lambda>front.
           if prefix = front then
             Option.bind (str_slice big (length prefix) (length prefix + 1)) (\<lambda>c. Some (''/'' = c))
           else Some False)
       else Some False))"

text \<open>\<open>filter\<close> and \<open>map\<close> with a function that may panic.\<close>

fun filter_opt :: "('a \<Rightarrow> bool option) \<Rightarrow> 'a list \<Rightarrow> 'a list option" where
  "filter_opt p [] = Some []"
| "filter_opt p (x # xs) =
     Option.bind (p x) (\<lambda>b. Option.bind (filter_opt p xs) (\<lambda>ys. Some (if b then x # ys else ys)))"

subsection \<open>Operations\<close>

definition mem_is_dir_dirty :: "mem_state \<Rightarrow> mem_handle \<Rightarrow> bool" where
  "mem_is_dir_dirty s d = (case map_of (ms_dirs s) (mh_path d) of None \<Rightarrow> False | Some c \<Rightarrow> \<not> md_clean c)"

definition mem_set_dir_clean :: "mem_state \<Rightarrow> mem_handle \<Rightarrow> (mem_state \<times> bool res) option" where
  "mem_set_dir_clean s d =
     (case map_of (ms_dirs s) (mh_path d) of
        Some c \<Rightarrow> Some (s\<lparr>ms_dirs := AList.update (mh_path d) (c\<lparr>md_clean := True\<rparr>) (ms_dirs s)\<rparr>, Inr True)
      | None \<Rightarrow> Some (s, if mh_synthetics d \<noteq> [] then Inr True else Inl simple_error))"

definition mem_root :: "mem_faults \<Rightarrow> mem_state \<Rightarrow> (mem_state \<times> mem_handle res) option" where
  "mem_root flt s =
     (case test_op flt ReadRoot (ms_dirs s) of
        (ds, Inl e) \<Rightarrow> Some (s\<lparr>ms_dirs := ds\<rparr>, Inl e)
      | (ds, Inr _) \<Rightarrow> Some (s\<lparr>ms_dirs := ds\<rparr>, Inr \<lparr>mh_path = [], mh_synthetics = []\<rparr>))"

text \<open>The loop over the condemned names, with the paths of the removed directories.\<close>

definition drain_step ::
  "os_string \<Rightarrow> (os_string \<times> mem_entry) list \<times> os_string list \<Rightarrow> os_string \<Rightarrow>
   (os_string \<times> mem_entry) list \<times> os_string list" where
  "drain_step path acc name =
     (case acc of (contents, prefices) \<Rightarrow>
        (AList.delete name contents,
         case map_of contents name of
           Some (DirectoryEntry _) \<Rightarrow> prefices @ [catpath path name]
         | _ \<Rightarrow> prefices))"

fun under_any :: "os_string list \<Rightarrow> os_string list \<Rightarrow> os_string list option" where
  "under_any [] keys = Some []"
| "under_any (prefix # ps) keys =
     Option.bind (filter_opt (\<lambda>k. is_under k prefix) keys) (\<lambda>xs.
     Option.bind (under_any ps keys) (\<lambda>ys. Some (xs @ ys)))"

definition mem_list :: "mem_faults \<Rightarrow> mem_state \<Rightarrow> mem_handle \<Rightarrow> (mem_state \<times> mem_handle \<times> named_file list res) option" where
  "mem_list flt s d =
     (case test_op flt (ListOp (mh_path d)) (ms_dirs s) of
        (ds, Inl e) \<Rightarrow> Some (s\<lparr>ms_dirs := ds\<rparr>, d, Inl e)
      | (ds, Inr _) \<Rightarrow>
          case map_of ds (mh_path d) of
            None \<Rightarrow> Some (s\<lparr>ms_dirs := ds\<rparr>, d, if mh_synthetics d \<noteq> [] then Inr [] else Inl simple_error)
          | Some c \<Rightarrow>
              (case foldl (drain_step (mh_path d)) (md_contents c, []) (md_condemned c) of
                 (contents, prefices) \<Rightarrow>
                   let ds1 = AList.update (mh_path d) (c\<lparr>md_contents := contents, md_condemned := []\<rparr>) ds
                   in Option.bind (under_any prefices (map fst ds1)) (\<lambda>to_remove.
                        Some (s\<lparr>ms_dirs := foldl (\<lambda>t k. AList.delete k t) ds1 to_remove\<rparr>, d,
                          Inr (map (\<lambda>(n, e). (n, entry_file_data e)) contents)))))"

text \<open>Renaming the tables of the subdirectories.\<close>

definition rename_key :: "nat \<Rightarrow> string \<Rightarrow> mem_dirs option \<Rightarrow> os_string \<Rightarrow> mem_dirs option" where
  "rename_key n new_prefix ds k =
     Option.bind ds (\<lambda>t. Option.bind (map_of t k) (\<lambda>c. Some (AList.update (new_prefix @ drop n k) c (AList.delete k t))))"

definition rename_subdirs :: "os_string \<Rightarrow> os_string \<Rightarrow> os_string \<Rightarrow> mem_dirs \<Rightarrow> mem_dirs option" where
  "rename_subdirs path old new ds =
     Option.bind (map_of ds (catpath path old)) (\<lambda>c.
       let ds1 = AList.update (catpath path new) c (AList.delete (catpath path old) ds) in
       Option.bind (to_str (catpath (catpath path old) [])) (\<lambda>old_prefix.
       Option.bind (to_str (catpath (catpath path new) [])) (\<lambda>new_prefix.
       Option.bind (filter_opt (\<lambda>k. map_option (\<lambda>x. take (length old_prefix) x = old_prefix) (to_str k)) (map fst ds1))
         (\<lambda>to_rename. foldl (rename_key (length old_prefix) new_prefix) (Some ds1) to_rename))))"

fun is_dir_entry :: "mem_entry \<Rightarrow> bool" where
  "is_dir_entry (DirectoryEntry _) = True"
| "is_dir_entry _ = False"

definition mem_rename ::
  "mem_faults \<Rightarrow> mem_state \<Rightarrow> mem_handle \<Rightarrow> os_string \<Rightarrow> os_string \<Rightarrow> (mem_state \<times> mem_handle \<times> unit res) option" where
  "mem_rename flt s d old new =
     (case test_op flt (RenameOp (mh_path d) old) (ms_dirs s) of
        (ds, Inl e) \<Rightarrow> Some (s\<lparr>ms_dirs := ds\<rparr>, d, Inl e)
      | (ds, Inr _) \<Rightarrow>
          case map_of ds (mh_path d) of
            None \<Rightarrow> Some (s\<lparr>ms_dirs := ds\<rparr>, d, Inl simple_error)
          | Some c \<Rightarrow>
              if map_of (md_contents c) new \<noteq> None then Some (s\<lparr>ms_dirs := ds\<rparr>, d, Inl simple_error)
              else
                case map_of (md_contents c) old of
                  None \<Rightarrow> Some (s\<lparr>ms_dirs := ds\<rparr>, d, Inl simple_error)
                | Some data \<Rightarrow>
                    let ds1 = AList.update (mh_path d)
                          (c\<lparr>md_contents := AList.update new data (AList.delete old (md_contents c))\<rparr>) ds
                    in if is_dir_entry data
                       then Option.bind (rename_subdirs (mh_path d) old new ds1) (\<lambda>ds2. Some (s\<lparr>ms_dirs := ds2\<rparr>, d, Inr ()))
                       else Some (s\<lparr>ms_dirs := ds1\<rparr>, d, Inr ()))"

definition mem_remove :: "mem_faults \<Rightarrow> mem_state \<Rightarrow> mem_handle \<Rightarrow> named_file \<Rightarrow> (mem_state \<times> mem_handle \<times> unit res) option" where
  "mem_remove flt s d target =
     (case test_op flt (RemoveOp (mh_path d) (fst target)) (ms_dirs s) of
        (ds, Inl e) \<Rightarrow> Some (s\<lparr>ms_dirs := ds\<rparr>, d, Inl e)
      | (ds, Inr _) \<Rightarrow>
          case map_of ds (mh_path d) of
            None \<Rightarrow> Some (s\<lparr>ms_dirs := ds\<rparr>, d, Inl simple_error)
          | Some c \<Rightarrow>
              case map_of (md_contents c) (fst target) of
                None \<Rightarrow> Some (s\<lparr>ms_dirs := ds\<rparr>, d, Inl simple_error)
              | Some removed \<Rightarrow>
                  if \<not> matches (snd target) (entry_file_data removed) then Some (s\<lparr>ms_dirs := ds\<rparr>, d, Inl simple_error)
                  else
                    let ds1 = AList.update (mh_path d) (c\<lparr>md_contents := AList.delete (fst target) (md_contents c)\<rparr>) ds;
                        sub = catpath (mh_path d) (fst target)
                    in if is_dir_entry removed then
                         Option.bind (map_of ds1 sub) (\<lambda>dt.
                           if md_contents dt \<noteq> [] then
                             let ds2 = AList.update sub dt (AList.delete sub ds1) in
                             Option.bind (map_of ds2 (mh_path d)) (\<lambda>c2.
                               Some (s\<lparr>ms_dirs := AList.update (mh_path d)
                                 (c2\<lparr>md_contents := AList.update (fst target) removed (md_contents c2)\<rparr>) ds2\<rparr>, d,
                                 Inl simple_error))
                           else Some (s\<lparr>ms_dirs := AList.delete sub ds1\<rparr>, d, Inr ()))
                       else Some (s\<lparr>ms_dirs := ds1\<rparr>, d, Inr ()))"

text \<open>The loop of \<open>create\<close> over the synthetic directories, which stops at the first error.\<close>

fun make_synthetics :: "mem_faults \<Rightarrow> (os_string \<times> os_string \<times> file_mode) list \<Rightarrow> mem_dirs \<Rightarrow> mem_dirs \<times> unit res" where
  "make_synthetics flt [] ds = (ds, Inr ())"
| "make_synthetics flt ((parent, name, mode) # rest) ds =
     (if map_of ds (catpath parent name) \<noteq> None then make_synthetics flt rest ds
      else
        case test_op flt (CreateSynthetic name) ds of
          (ds1, Inl e) \<Rightarrow> (ds1, Inl e)
        | (ds1, Inr _) \<Rightarrow>
            case map_of ds1 parent of
              None \<Rightarrow> make_synthetics flt rest (AList.update (catpath parent name) mem_directory_default ds1)
            | Some c \<Rightarrow>
                if map_of (md_contents c) name \<noteq> None then (ds1, Inl simple_error)
                else make_synthetics flt rest
                  (AList.update (catpath parent name) mem_directory_default
                    (AList.update parent (c\<lparr>md_contents := AList.update name (DirectoryEntry mode) (md_contents c)\<rparr>) ds1)))"

definition mem_create ::
  "mem_faults \<Rightarrow> mem_state \<Rightarrow> mem_handle \<Rightarrow> named_file \<Rightarrow> hash_id option \<Rightarrow> (mem_state \<times> mem_handle \<times> file_data res) option" where
  "mem_create flt s d src xfer =
     (case test_op flt (CreateOp (mh_path d) (fst src)) (ms_dirs s) of
        (ds, Inl e) \<Rightarrow> Some (s\<lparr>ms_dirs := ds\<rparr>, d, Inl e)
      | (ds, Inr _) \<Rightarrow>
          case make_synthetics flt (mh_synthetics d) ds of
            (ds1, Inl e) \<Rightarrow> Some (s\<lparr>ms_dirs := ds1\<rparr>, d, Inl e)
          | (ds1, Inr _) \<Rightarrow>
              case map_of ds1 (mh_path d) of
                None \<Rightarrow> Some (s\<lparr>ms_dirs := ds1\<rparr>, d, Inl simple_error)
              | Some c \<Rightarrow>
                  if map_of (md_contents c) (fst src) \<noteq> None then Some (s\<lparr>ms_dirs := ds1\<rparr>, d, Inl simple_error)
                  else
                    case from_file_data (snd src) xfer of
                      Inl e \<Rightarrow> Some (s\<lparr>ms_dirs := ds1\<rparr>, d, Inl e)
                    | Inr en \<Rightarrow>
                        let ds2 = AList.update (mh_path d) (c\<lparr>md_contents := AList.update (fst src) en (md_contents c)\<rparr>) ds1
                        in Some (s\<lparr>ms_dirs := if fd_is_dir (snd src)
                                 then AList.update (catpath (mh_path d) (fst src)) mem_directory_default ds2 else ds2\<rparr>, d,
                             Inr (entry_file_data en)))"

fun same_type :: "mem_entry \<Rightarrow> file_data \<Rightarrow> bool" where
  "same_type (DirectoryEntry _) (Directory _) = True"
| "same_type (RegularEntry _) (Regular _ _ _ _) = True"
| "same_type (SymlinkEntry _) (Symlink _) = True"
| "same_type SpecialEntry Special = True"
| "same_type _ _ = False"

text \<open>The part of \<open>update\<close> after its block: the type of the file changes.\<close>

definition mem_retype ::
  "mem_faults \<Rightarrow> mem_state \<Rightarrow> mem_handle \<Rightarrow> os_string \<Rightarrow> file_data \<Rightarrow> file_data \<Rightarrow> hash_id option \<Rightarrow>
   (mem_state \<times> mem_handle \<times> file_data res) option" where
  "mem_retype flt s d name old new xfer =
     (if fd_is_dir old then
        Option.bind (mem_remove flt s d (name, old)) (\<lambda>(s1, d1, r).
          case r of Inl e \<Rightarrow> Some (s1, d1, Inl e) | Inr _ \<Rightarrow> mem_create flt s1 d1 (name, new) xfer)
      else
        let tmpname = name @ ''!testtmp'' in
        Option.bind (mem_rename flt s d name tmpname) (\<lambda>(s1, d1, r).
          case r of
            Inl e \<Rightarrow> Some (s1, d1, Inl e)
          | Inr _ \<Rightarrow>
              Option.bind (mem_create flt s1 d1 (name, new) xfer) (\<lambda>(s2, d2, r2).
                case r2 of
                  Inl e \<Rightarrow> Some (s2, d2, Inl e)
                | Inr res \<Rightarrow>
                    Option.bind (mem_remove flt s2 d2 (tmpname, old)) (\<lambda>(s3, d3, r3).
                      case r3 of Inl e \<Rightarrow> Some (s3, d3, Inl e) | Inr _ \<Rightarrow> Some (s3, d3, Inr res)))))"

definition mem_update ::
  "mem_faults \<Rightarrow> mem_state \<Rightarrow> mem_handle \<Rightarrow> os_string \<Rightarrow> file_data \<Rightarrow> file_data \<Rightarrow> hash_id option \<Rightarrow>
   (mem_state \<times> mem_handle \<times> file_data res) option" where
  "mem_update flt s d name old new xfer =
     (case test_op flt (UpdateOp (mh_path d) name) (ms_dirs s) of
        (ds, Inl e) \<Rightarrow> Some (s\<lparr>ms_dirs := ds\<rparr>, d, Inl e)
      | (ds, Inr _) \<Rightarrow>
          case map_of ds (mh_path d) of
            None \<Rightarrow> Some (s\<lparr>ms_dirs := ds\<rparr>, d, Inl simple_error)
          | Some c \<Rightarrow>
              case map_of (md_contents c) name of
                None \<Rightarrow> Some (s\<lparr>ms_dirs := ds\<rparr>, d, Inl simple_error)
              | Some en \<Rightarrow>
                  if \<not> matches old (entry_file_data en) then Some (s\<lparr>ms_dirs := ds\<rparr>, d, Inl simple_error)
                  else if same_type en new then
                    case from_file_data new xfer of
                      Inl e \<Rightarrow> Some (s\<lparr>ms_dirs := ds\<rparr>, d, Inl e)
                    | Inr en' \<Rightarrow>
                        Some (s\<lparr>ms_dirs := AList.update (mh_path d)
                          (c\<lparr>md_contents := AList.update name en' (md_contents c)\<rparr>) ds\<rparr>, d, Inr (entry_file_data en'))
                  else mem_retype flt (s\<lparr>ms_dirs := ds\<rparr>) d name old new xfer)"

definition mem_chdir :: "mem_faults \<Rightarrow> mem_state \<Rightarrow> mem_handle \<Rightarrow> os_string \<Rightarrow> (mem_state \<times> mem_handle res) option" where
  "mem_chdir flt s d subdir =
     (case test_op flt (ChdirOp (catpath (mh_path d) subdir)) (ms_dirs s) of
        (ds, Inl e) \<Rightarrow> Some (s\<lparr>ms_dirs := ds\<rparr>, Inl e)
      | (ds, Inr _) \<Rightarrow>
          Some (s\<lparr>ms_dirs := ds\<rparr>,
            if map_of ds (catpath (mh_path d) subdir) \<noteq> None
            then Inr \<lparr>mh_path = catpath (mh_path d) subdir, mh_synthetics = []\<rparr> else Inl simple_error))"

definition mem_synthdir ::
  "mem_state \<Rightarrow> mem_handle \<Rightarrow> os_string \<Rightarrow> file_mode \<Rightarrow> (mem_state \<times> mem_handle \<times> mem_handle) option" where
  "mem_synthdir s d subdir mode =
     Some (s, d, \<lparr>mh_path = mh_path d @ ''/'' @ subdir, mh_synthetics = mh_synthetics d @ [(mh_path d, subdir, mode)]\<rparr>)"

definition mem_rmdir :: "mem_faults \<Rightarrow> mem_state \<Rightarrow> mem_handle \<Rightarrow> (mem_state \<times> mem_handle \<times> unit res) option" where
  "mem_rmdir flt s d =
     Option.bind (to_str (mh_path d)) (\<lambda>full.
     Option.bind (rsplit_at (CHR ''/'') full) (\<lambda>(path, name).
       let parent = \<lparr>mh_path = path, mh_synthetics = []\<rparr> in
       if map_of (ms_dirs s) (mh_path d) = None \<or> map_of (ms_dirs s) path = None then Some (s, d, Inr ())
       else
         Option.bind (mem_list flt s parent) (\<lambda>(s1, p1, r).
           case r of
             Inl e \<Rightarrow> Some (s1, d, Inl e)
           | Inr fs \<Rightarrow>
               Option.bind (map_of fs name) (\<lambda>data.
               Option.bind (mem_remove flt s1 p1 (name, data)) (\<lambda>(s2, p2, r2). Some (s2, d, r2))))))"

definition mem_transfer :: "mem_faults \<Rightarrow> mem_state \<Rightarrow> mem_handle \<Rightarrow> named_file \<Rightarrow> (mem_state \<times> hash_id option res) option" where
  "mem_transfer flt s d nf =
     (case test_op flt (TransferOp (mh_path d) (fst nf)) (ms_dirs s) of
        (ds, Inl e) \<Rightarrow> Some (s\<lparr>ms_dirs := ds\<rparr>, Inl e)
      | (ds, Inr _) \<Rightarrow>
          Some (s\<lparr>ms_dirs := ds\<rparr>,
            case map_of ds (mh_path d) of
              None \<Rightarrow> Inl (err NotFound)
            | Some c \<Rightarrow> (case map_of (md_contents c) (fst nf) of Some (RegularEntry reg) \<Rightarrow> Inr (Some (mr_content reg)) | _ \<Rightarrow> Inr None)))"

fun mem_null_transfer :: "file_data \<Rightarrow> hash_id option" where
  "mem_null_transfer (Regular _ _ _ h) = Some h"
| "mem_null_transfer _ = None"

definition mem_condemn :: "mem_state \<Rightarrow> mem_handle \<Rightarrow> os_string \<Rightarrow> (mem_state \<times> mem_handle \<times> unit res) option" where
  "mem_condemn s d name =
     (case map_of (ms_dirs s) (mh_path d) of
        Some c \<Rightarrow> Some (s\<lparr>ms_dirs := AList.update (mh_path d)
          (c\<lparr>md_condemned := List.insert name (md_condemned c)\<rparr>) (ms_dirs s)\<rparr>, d, Inr ())
      | None \<Rightarrow> Some (s, d, Inl simple_error))"

definition mem_uncondemn :: "mem_state \<Rightarrow> mem_handle \<Rightarrow> os_string \<Rightarrow> (mem_state \<times> mem_handle \<times> unit res) option" where
  "mem_uncondemn s d name =
     (case map_of (ms_dirs s) (mh_path d) of
        Some c \<Rightarrow> Some (s\<lparr>ms_dirs := AList.update (mh_path d)
          (c\<lparr>md_condemned := removeAll name (md_condemned c)\<rparr>) (ms_dirs s)\<rparr>, d, Inr ())
      | None \<Rightarrow> Some (s, d, Inl simple_error))"

definition memory_replica :: "mem_faults \<Rightarrow> (mem_state, mem_handle, hash_id option, hash_id option) ancestor_like" where
  "memory_replica flt =
     \<lparr>r_full_path = mh_path,
      r_is_fatal = default_is_fatal,
      r_is_dir_dirty = mem_is_dir_dirty,
      r_set_dir_clean = mem_set_dir_clean,
      r_root = mem_root flt,
      r_list = mem_list flt,
      r_rename = mem_rename flt,
      r_remove = mem_remove flt,
      r_create = mem_create flt,
      r_update = mem_update flt,
      r_chdir = mem_chdir flt,
      r_synthdir = mem_synthdir,
      r_rmdir = mem_rmdir flt,
      r_transfer = mem_transfer flt,
      r_prepare = default_prepare,
      r_clean_up = default_clean_up,
      r_null_transfer = mem_null_transfer,
      r_condemn = mem_condemn,
      r_uncondemn = mem_uncondemn\<rparr>"

end
