(* ===== verification/Reconcile_Mutate.thy ===== *)
theory Reconcile_Mutate
  imports Reconcile_Context Ancestor_Replica Memory_Replica
begin

text \<open>
  The mutation stage, \<open>src/reconcile/mutate.rs\<close>: writing the ancestor, transferring a file
  from one end replica to the other, renaming, and \<open>apply_reconciliation\<close>, which carries out
  the decision for one file. Every operation threads the replicas' states, the directory
  handles, the tables of files and the log. \<open>None\<close> is a panic: one of a replica, an
  \<open>expect\<close> on a table, the assertion of \<open>apply_use\<close>, or the recursive removal of an
  ancestor directory that never ends.

  The lemmas show that the tables follow the replicas and that the panics cannot happen for
  the decisions the reconciler takes.
\<close>

section \<open>Definitions\<close>

subsection \<open>The ancestor\<close>

text \<open>\<open>remove_recursively\<close> with the loop over the listing as its second phase: without a list
  of entries it lists the directory first.\<close>

partial_function (option) remove_recursively ::
  "('s, 'd, 'i, 'o, 'z) replica_scheme \<Rightarrow> 's \<Rightarrow> 'd \<Rightarrow> named_file list option \<Rightarrow> ('s \<times> 'd \<times> unit res) option" where
  "remove_recursively rep s d entries =
     (case entries of
        None \<Rightarrow>
          Option.bind (r_list rep s d) (\<lambda>(s1, d1, r).
            case r of
              Inl e \<Rightarrow> Some (s1, d1, Inl e)
            | Inr fs \<Rightarrow> remove_recursively rep s1 d1 (Some fs))
      | Some [] \<Rightarrow> Some (s, d, Inr ())
      | Some ((name, fd) # rest) \<Rightarrow>
          Option.bind
            (if fd_is_dir fd then
               Option.bind (r_chdir rep s d name) (\<lambda>(s1, r).
                 case r of
                   Inl e \<Rightarrow> Some (s1, Inl e)
                 | Inr sub \<Rightarrow>
                     Option.bind (remove_recursively rep s1 sub None) (\<lambda>(s2, sub', r2). Some (s2, r2)))
             else Some (s, Inr ()))
            (\<lambda>(s2, r2).
              case r2 of
                Inl e \<Rightarrow> Some (s2, d, Inl e)
              | Inr _ \<Rightarrow>
                  Option.bind (r_remove rep s2 d (name, fd)) (\<lambda>(s3, d3, r3).
                    case r3 of
                      Inl e \<Rightarrow> Some (s3, d3, Inl e)
                    | Inr _ \<Rightarrow> remove_recursively rep s3 d3 (Some rest))))"

declare remove_recursively.simps [code]

type_synonym ('s, 'd, 'a) mutated = "('s \<times> 'd \<times> file_data file_table \<times> 'a) option"

text \<open>The last part of \<open>replace_ancestor\<close>, the \<open>match (old, new)\<close>.\<close>

fun write_ancestor ::
  "('s, 'd, 'i, 'o, 'z) ancestor_like_scheme \<Rightarrow> 's \<Rightarrow> 'd \<Rightarrow> file_data file_table \<Rightarrow> os_string \<Rightarrow>
   file_data option \<Rightarrow> file_data option \<Rightarrow> ('s, 'd, unit res) mutated" where
  "write_ancestor rep s d files name None None = Some (s, d, files, Inr ())"
| "write_ancestor rep s d files name (Some oldfd) None =
     Option.bind (r_remove rep s d (name, oldfd)) (\<lambda>(s1, d1, r).
       case r of
         Inl e \<Rightarrow> Some (s1, d1, files, Inl e)
       | Inr _ \<Rightarrow>
           if table_has files name then Some (s1, d1, AList.delete name files, Inr ()) else None)"
| "write_ancestor rep s d files name None (Some newfd) =
     Option.bind (r_create rep s d (name, newfd) (r_null_transfer rep newfd)) (\<lambda>(s1, d1, r).
       case r of
         Inl e \<Rightarrow> Some (s1, d1, files, Inl e)
       | Inr _ \<Rightarrow>
           if table_has files name then None else Some (s1, d1, AList.update name newfd files, Inr ()))"
| "write_ancestor rep s d files name (Some oldfd) (Some newfd) =
     Option.bind (r_update rep s d name oldfd newfd (r_null_transfer rep newfd)) (\<lambda>(s1, d1, r).
       case r of
         Inl e \<Rightarrow> Some (s1, d1, files, Inl e)
       | Inr _ \<Rightarrow>
           if table_has files name then Some (s1, d1, AList.update name newfd files, Inr ()) else None)"

definition replace_ancestor ::
  "('s, 'd, 'i, 'o, 'z) ancestor_like_scheme \<Rightarrow> 's \<Rightarrow> 'd \<Rightarrow> file_data file_table \<Rightarrow> os_string \<Rightarrow>
   file_data option \<Rightarrow> file_data option \<Rightarrow> ('s, 'd, unit res) mutated" where
  "replace_ancestor rep s d files name old new =
     (if old = new then Some (s, d, files, Inr ())
      else if is_dir old \<and> \<not> is_dir new then
        Option.bind (r_chdir rep s d name) (\<lambda>(s1, r).
          case r of
            Inl e \<Rightarrow> Some (s1, d, files, Inl e)
          | Inr sub \<Rightarrow>
              Option.bind (remove_recursively rep s1 sub None) (\<lambda>(s2, sub', r2).
                case r2 of
                  Inl e \<Rightarrow> Some (s2, d, files, Inl e)
                | Inr _ \<Rightarrow> write_ancestor rep s2 d files name old new))
      else write_ancestor rep s d files name old new)"

text \<open>\<open>to_bool\<close> with a closure that logs the error.\<close>

definition to_bool :: "unit res \<Rightarrow> (error \<Rightarrow> log_level \<times> log) \<Rightarrow> (log_level \<times> log) list \<times> bool" where
  "to_bool r f = (case r of Inl e \<Rightarrow> ([f e], False) | Inr _ \<Rightarrow> ([], True))"

definition log_error :: "replica_side \<Rightarrow> os_string \<Rightarrow> error_operation \<Rightarrow> error \<Rightarrow> log_level \<times> log" where
  "log_error side dir_name op e = (level e, LError side dir_name op e)"

type_synonym logs = "(log_level \<times> log) list"

definition try_replace_ancestor ::
  "('s, 'd, 'i, 'o, 'z) ancestor_like_scheme \<Rightarrow> 's \<Rightarrow> 'd \<Rightarrow> file_data file_table \<Rightarrow> os_string \<Rightarrow> os_string \<Rightarrow>
   file_data option \<Rightarrow> file_data option \<Rightarrow> ('s, 'd, logs \<times> bool) mutated" where
  "try_replace_ancestor rep s d files dir_name name old new =
     Option.bind (replace_ancestor rep s d files name old new) (\<lambda>(s1, d1, files1, r).
       Some (s1, d1, files1, to_bool r (log_error SideAncestor dir_name (OpUpdate name))))"

subsection \<open>The end replicas\<close>

text \<open>The source replica is read through \<open>transfer\<close>; its error is returned by \<open>?\<close>, before
  the \<open>match\<close> that logs the errors of the destination.\<close>

definition replace_replica ::
  "('s, 'd, 'x, 'o, 'z) replica_scheme \<Rightarrow> 's \<Rightarrow> 'd \<Rightarrow> file_data file_table \<Rightarrow>
   ('s2, 'd2, 'i2, 'x, 'z2) replica_scheme \<Rightarrow> 's2 \<Rightarrow> 'd2 \<Rightarrow> os_string \<Rightarrow> os_string \<Rightarrow>
   file_data option \<Rightarrow> file_data option \<Rightarrow> replica_side \<Rightarrow>
   ('s \<times> 'd \<times> file_data file_table \<times> 's2 \<times> logs \<times> file_data option res) option" where
  "replace_replica dst s d files src s2 d2 dir_name name old new side =
     (if old = new then Some (s, d, files, s2, [], Inr old)
      else
        case (old, new) of
          (None, None) \<Rightarrow> Some (s, d, files, s2, [], Inr None)
        | (Some oldfd, None) \<Rightarrow>
            Option.bind (r_remove dst s d (name, oldfd)) (\<lambda>(s1, d1, r).
              case r of
                Inl e \<Rightarrow> Some (s1, d1, files, s2,
                  [(EDIT, LRemove side dir_name name oldfd), log_error side dir_name (OpRemove name) e], Inl e)
              | Inr _ \<Rightarrow>
                  if table_has files name then
                    Some (s1, d1, AList.delete name files, s2, [(EDIT, LRemove side dir_name name oldfd)], Inr None)
                  else None)
        | (Some oldfd, Some newfd) \<Rightarrow>
            Option.bind (r_transfer src s2 d2 (name, newfd)) (\<lambda>(s2', t).
              case t of
                Inl e \<Rightarrow> Some (s, d, files, s2', [(EDIT, LUpdate side dir_name name oldfd newfd)], Inl e)
              | Inr x \<Rightarrow>
                  Option.bind (r_update dst s d name oldfd newfd x) (\<lambda>(s1, d1, r).
                    case r of
                      Inl e \<Rightarrow> Some (s1, d1, files, s2',
                        [(EDIT, LUpdate side dir_name name oldfd newfd), log_error side dir_name (OpUpdate name) e], Inl e)
                    | Inr q \<Rightarrow>
                        if table_has files name then
                          Some (s1, d1, AList.update name q files, s2', [(EDIT, LUpdate side dir_name name oldfd newfd)], Inr (Some q))
                        else None))
        | (None, Some newfd) \<Rightarrow>
            Option.bind (r_transfer src s2 d2 (name, newfd)) (\<lambda>(s2', t).
              case t of
                Inl e \<Rightarrow> Some (s, d, files, s2', [(EDIT, LCreate side dir_name name newfd)], Inl e)
              | Inr x \<Rightarrow>
                  Option.bind (r_create dst s d (name, newfd) x) (\<lambda>(s1, d1, r).
                    case r of
                      Inl e \<Rightarrow> Some (s1, d1, files, s2',
                        [(EDIT, LCreate side dir_name name newfd), log_error side dir_name (OpCreate name) e], Inl e)
                    | Inr q \<Rightarrow>
                        if table_has files name then None
                        else Some (s1, d1, AList.update name q files, s2', [(EDIT, LCreate side dir_name name newfd)], Inr (Some q)))))"

definition try_rename_replica ::
  "('s, 'd, 'i, 'o, 'z) replica_scheme \<Rightarrow> 's \<Rightarrow> 'd \<Rightarrow> file_data file_table \<Rightarrow> os_string \<Rightarrow> os_string \<Rightarrow>
   os_string \<Rightarrow> replica_side \<Rightarrow> ('s, 'd, logs \<times> bool) mutated" where
  "try_rename_replica rep s d files dir_name old_name new_name side =
     Option.bind (r_rename rep s d old_name new_name) (\<lambda>(s1, d1, r).
       case r of
         Inl e \<Rightarrow> Some (s1, d1, files,
           [(EDIT, LRename side dir_name old_name new_name), log_error side dir_name (OpRename old_name) e], False)
       | Inr _ \<Rightarrow>
           case map_of files old_name of
             None \<Rightarrow> None
           | Some removed \<Rightarrow>
               Some (s1, d1, AList.update new_name removed (AList.delete old_name files),
                 [(EDIT, LRename side dir_name old_name new_name)], True))"

datatype apply_result =
    ApplyClean bool
  | ApplyFail
  | ApplyRecursiveDelete reconciliation_side file_mode

fun dir_mode :: "file_data option \<Rightarrow> file_mode option" where
  "dir_mode (Some (Directory mode)) = Some mode"
| "dir_mode _ = None"

text \<open>\<open>apply_use\<close>: the destination, the ancestor and the source, with the new state of the file on
  success. The states come back in the order destination, ancestor, source.\<close>

definition apply_use ::
  "('s, 'd, 'x, 'o, 'z) replica_scheme \<Rightarrow> 's \<Rightarrow> 'd single_dir_context \<Rightarrow>
   ('as, 'ad, 'ai, 'ao, 'z3) ancestor_like_scheme \<Rightarrow> 'as \<Rightarrow> 'ad single_dir_context \<Rightarrow>
   ('s2, 'd2, 'i2, 'x, 'z2) replica_scheme \<Rightarrow> 's2 \<Rightarrow> 'd2 \<Rightarrow> os_string \<Rightarrow> os_string \<Rightarrow>
   file_data option \<Rightarrow> file_data option \<Rightarrow> reconciliation_side \<Rightarrow>
   ('s \<times> 'd single_dir_context \<times> 'as \<times> 'ad single_dir_context \<times> 's2 \<times> logs \<times> (apply_result + file_data option)) option" where
  "apply_use dst s dc anc as ac src s2 d2 dir_name name old_dst old_src side =
     (if is_dir old_dst \<and> old_src = None then
        Option.bind (try_replace_ancestor anc as (sd_dir ac) (sd_files ac) dir_name name
            (map_of (sd_files ac) name) old_dst) (\<lambda>(as1, ad1, af1, lg, ok).
          let ac1 = ac\<lparr>sd_dir := ad1, sd_files := af1\<rparr> in
          if ok then
            Option.bind (dir_mode old_dst) (\<lambda>mode.
              Some (s, dc, as1, ac1, s2, lg, Inl (ApplyRecursiveDelete side mode)))
          else Some (s, dc, as1, ac1, s2, lg, Inl ApplyFail))
      else if is_dir old_src \<or> \<not> is_dir old_dst then
        Option.bind (replace_replica dst s (sd_dir dc) (sd_files dc) src s2 d2 dir_name name old_dst old_src (side_of side))
          (\<lambda>(s1, d1, f1, s2', lg, r).
            let dc1 = dc\<lparr>sd_dir := d1, sd_files := f1\<rparr> in
            case r of
              Inl _ \<Rightarrow> Some (s1, dc1, as, ac, s2', lg, Inl ApplyFail)
            | Inr q \<Rightarrow> Some (s1, dc1, as, ac, s2', lg, Inr q))
      else None)"

subsection \<open>One file\<close>

text \<open>\<open>should_stop\<close> of \<open>tree_walk.rs\<close>, which reads the interrupt flag once.\<close>

definition should_stop ::
  "('cs, 'cd, 'as, 'ad, 'vs, 'vd, 'x, 'y, 'ai, 'ao, 'rx) recon_context \<Rightarrow> ('cs, 'as, 'vs) world \<Rightarrow>
   ('cs, 'as, 'vs) world \<times> bool" where
  "should_stop ctx w =
     (w\<lparr>w_polls := w_polls w + 1\<rparr>,
      ctx_interrupted ctx (w_polls w) \<or> r_is_fatal (ctx_cli ctx) (w_cli w) \<or>
      r_is_fatal (ctx_anc ctx) (w_anc w) \<or> r_is_fatal (ctx_srv ctx) (w_srv w))"

definition add_logs :: "logs \<Rightarrow> ('cs, 'as, 'vs) world \<Rightarrow> ('cs, 'as, 'vs) world" where
  "add_logs lg w = w\<lparr>w_log := w_log w @ lg\<rparr>"

text \<open>The ancestor of the directory as one argument and result, for \<open>try_replace_ancestor\<close>,
  \<open>try_rename_replica\<close>, \<open>condemn\<close> and \<open>uncondemn\<close>.\<close>

type_synonym ('cs, 'cd, 'as, 'ad, 'vs, 'vd, 'rx, 'a) dir_step =
  "(('cs, 'as, 'vs) world \<times> ('cd, 'ad, 'vd, 'rx) dir_context \<times> 'a) option"

definition set_anc ::
  "('cs, 'as, 'vs) world \<Rightarrow> ('cd, 'ad, 'vd, 'rx) dir_context \<Rightarrow> 'as \<times> 'ad \<times> file_data file_table \<times> logs \<times> bool \<Rightarrow>
   ('cs, 'cd, 'as, 'ad, 'vs, 'vd, 'rx, bool) dir_step" where
  "set_anc w dir r = (case r of (as, ad, af, lg, ok) \<Rightarrow>
     Some (add_logs lg (w\<lparr>w_anc := as\<rparr>), dir\<lparr>dc_anc := \<lparr>sd_dir = ad, sd_files = af\<rparr>\<rparr>, ok))"

definition set_cli ::
  "('cs, 'as, 'vs) world \<Rightarrow> ('cd, 'ad, 'vd, 'rx) dir_context \<Rightarrow> 'cs \<times> 'cd \<times> file_data file_table \<times> logs \<times> bool \<Rightarrow>
   ('cs, 'cd, 'as, 'ad, 'vs, 'vd, 'rx, bool) dir_step" where
  "set_cli w dir r = (case r of (cs, cd, cf, lg, ok) \<Rightarrow>
     Some (add_logs lg (w\<lparr>w_cli := cs\<rparr>), dir\<lparr>dc_cli := \<lparr>sd_dir = cd, sd_files = cf\<rparr>\<rparr>, ok))"

definition set_srv ::
  "('cs, 'as, 'vs) world \<Rightarrow> ('cd, 'ad, 'vd, 'rx) dir_context \<Rightarrow> 'vs \<times> 'vd \<times> file_data file_table \<times> logs \<times> bool \<Rightarrow>
   ('cs, 'cd, 'as, 'ad, 'vs, 'vd, 'rx, bool) dir_step" where
  "set_srv w dir r = (case r of (vs, vd, vf, lg, ok) \<Rightarrow>
     Some (add_logs lg (w\<lparr>w_srv := vs\<rparr>), dir\<lparr>dc_srv := \<lparr>sd_dir = vd, sd_files = vf\<rparr>\<rparr>, ok))"

text \<open>A condemn operation of the ancestor with its error logged as an access error.\<close>

definition condemn_step ::
  "('as \<Rightarrow> 'ad \<Rightarrow> os_string \<Rightarrow> ('as \<times> 'ad \<times> unit res) option) \<Rightarrow> os_string \<Rightarrow> os_string \<Rightarrow>
   ('cs, 'as, 'vs) world \<Rightarrow> ('cd, 'ad, 'vd, 'rx) dir_context \<Rightarrow> ('cs, 'cd, 'as, 'ad, 'vs, 'vd, 'rx, bool) dir_step" where
  "condemn_step oper dir_name name w dir =
     Option.bind (oper (w_anc w) (sd_dir (dc_anc dir)) name) (\<lambda>(as, ad, r).
       set_anc w dir (as, ad, sd_files (dc_anc dir), to_bool r (log_error SideAncestor dir_name (OpAccess name))))"

text \<open>The three operands of the \<open>&&\<close> in the \<open>Split\<close> branch.\<close>

fun split_before ::
  "('cs, 'cd, 'as, 'ad, 'vs, 'vd, 'x, 'y, 'ai, 'ao, 'rx) recon_context \<Rightarrow> os_string \<Rightarrow> os_string \<Rightarrow>
   split_ancestor_state \<Rightarrow> ('cs, 'as, 'vs) world \<Rightarrow> ('cd, 'ad, 'vd, 'rx) dir_context \<Rightarrow>
   ('cs, 'cd, 'as, 'ad, 'vs, 'vd, 'rx, bool) dir_step" where
  "split_before ctx dir_name name Delete w dir =
     Option.bind (try_replace_ancestor (ctx_anc ctx) (w_anc w) (sd_dir (dc_anc dir)) (sd_files (dc_anc dir))
       dir_name name (map_of (sd_files (dc_anc dir)) name) None) (set_anc w dir)"
| "split_before ctx dir_name name Move w dir = condemn_step (r_condemn (ctx_anc ctx)) dir_name name w dir"

fun split_rename ::
  "('cs, 'cd, 'as, 'ad, 'vs, 'vd, 'x, 'y, 'ai, 'ao, 'rx) recon_context \<Rightarrow> os_string \<Rightarrow> os_string \<Rightarrow> os_string \<Rightarrow>
   reconciliation_side \<Rightarrow> ('cs, 'as, 'vs) world \<Rightarrow> ('cd, 'ad, 'vd, 'rx) dir_context \<Rightarrow>
   ('cs, 'cd, 'as, 'ad, 'vs, 'vd, 'rx, bool) dir_step" where
  "split_rename ctx dir_name name new_name Client w dir =
     Option.bind (try_rename_replica (ctx_cli ctx) (w_cli w) (sd_dir (dc_cli dir)) (sd_files (dc_cli dir))
       dir_name name new_name SideClient) (set_cli w dir)"
| "split_rename ctx dir_name name new_name Server w dir =
     Option.bind (try_rename_replica (ctx_srv ctx) (w_srv w) (sd_dir (dc_srv dir)) (sd_files (dc_srv dir))
       dir_name name new_name SideServer) (set_srv w dir)"

fun split_after ::
  "('cs, 'cd, 'as, 'ad, 'vs, 'vd, 'x, 'y, 'ai, 'ao, 'rx) recon_context \<Rightarrow> os_string \<Rightarrow> os_string \<Rightarrow> os_string \<Rightarrow>
   split_ancestor_state \<Rightarrow> ('cs, 'as, 'vs) world \<Rightarrow> ('cd, 'ad, 'vd, 'rx) dir_context \<Rightarrow>
   ('cs, 'cd, 'as, 'ad, 'vs, 'vd, 'rx, bool) dir_step" where
  "split_after ctx dir_name name new_name Delete w dir = Some (w, dir, True)"
| "split_after ctx dir_name name new_name Move w dir =
     Option.bind
       (if \<not> table_has (sd_files (dc_anc dir)) name then Some (w, dir, True)
        else Option.bind (try_rename_replica (ctx_anc ctx) (w_anc w) (sd_dir (dc_anc dir)) (sd_files (dc_anc dir))
          dir_name name new_name SideAncestor) (set_anc w dir))
       (\<lambda>(w1, dir1, ok).
         if ok then condemn_step (r_uncondemn (ctx_anc ctx)) dir_name name w1 dir1 else Some (w1, dir1, False))"

definition apply_split ::
  "('cs, 'cd, 'as, 'ad, 'vs, 'vd, 'x, 'y, 'ai, 'ao, 'rx) recon_context \<Rightarrow> ('cs, 'as, 'vs) world \<Rightarrow>
   ('cd, 'ad, 'vd, 'rx) dir_context \<Rightarrow> os_string \<Rightarrow> os_string \<Rightarrow> reconciliation_side \<Rightarrow> split_ancestor_state \<Rightarrow>
   ('cs, 'cd, 'as, 'ad, 'vs, 'vd, 'rx, bool) dir_step" where
  "apply_split ctx w dir dir_name name side anc_state =
     Option.bind (gen_alternate_name name (name_in_use dir)) (\<lambda>new_name.
     Option.bind (split_before ctx dir_name name anc_state w dir) (\<lambda>(w1, dir1, ok1).
       if \<not> ok1 then Some (w1, dir1, False)
       else Option.bind (split_rename ctx dir_name name new_name side w1 dir1) (\<lambda>(w2, dir2, ok2).
         if \<not> ok2 then Some (w2, dir2, False)
         else Option.bind (split_after ctx dir_name name new_name anc_state w2 dir2) (\<lambda>(w3, dir3, ok3).
           if \<not> ok3 then Some (w3, dir3, False)
           else Some (w3, dir3\<lparr>dc_todo := heap_push new_name (heap_push name (dc_todo dir3))\<rparr>, True)))))"

text \<open>The last part of \<open>apply_reconciliation\<close>, and the two directions of \<open>Use\<close>.\<close>

definition finish_ancestor ::
  "('cs, 'cd, 'as, 'ad, 'vs, 'vd, 'x, 'y, 'ai, 'ao, 'rx) recon_context \<Rightarrow> os_string \<Rightarrow> os_string \<Rightarrow> file_data option \<Rightarrow>
   ('cs, 'as, 'vs) world \<Rightarrow> ('cd, 'ad, 'vd, 'rx) dir_context \<Rightarrow>
   ('cs, 'cd, 'as, 'ad, 'vs, 'vd, 'rx, apply_result) dir_step" where
  "finish_ancestor ctx dir_name name new_ancestor w dir =
     Option.bind (Option.bind (try_replace_ancestor (ctx_anc ctx) (w_anc w) (sd_dir (dc_anc dir))
         (sd_files (dc_anc dir)) dir_name name (map_of (sd_files (dc_anc dir)) name) new_ancestor) (set_anc w dir))
       (\<lambda>(w1, dir1, ok). Some (w1, dir1, if \<not> ok then ApplyFail else ApplyClean (is_dir new_ancestor)))"

definition use_client ::
  "('cs, 'cd, 'as, 'ad, 'vs, 'vd, 'x, 'y, 'ai, 'ao, 'rx) recon_context \<Rightarrow> ('cs, 'as, 'vs) world \<Rightarrow>
   ('cd, 'ad, 'vd, 'rx) dir_context \<Rightarrow> os_string \<Rightarrow> os_string \<Rightarrow> file_data option \<Rightarrow> file_data option \<Rightarrow>
   ('cs, 'cd, 'as, 'ad, 'vs, 'vd, 'rx, apply_result) dir_step" where
  "use_client ctx w dir dir_name name old_cli old_srv =
     Option.bind (apply_use (ctx_srv ctx) (w_srv w) (dc_srv dir) (ctx_anc ctx) (w_anc w) (dc_anc dir)
         (ctx_cli ctx) (w_cli w) (sd_dir (dc_cli dir)) dir_name name old_srv old_cli Server)
       (\<lambda>(vs, vc, as, ac, cs, lg, r).
         let w1 = add_logs lg (w\<lparr>w_cli := cs, w_anc := as, w_srv := vs\<rparr>); dir1 = dir\<lparr>dc_anc := ac, dc_srv := vc\<rparr>
         in case r of
              Inl res \<Rightarrow> Some (w1, dir1, res)
            | Inr q \<Rightarrow> finish_ancestor ctx dir_name name q w1 dir1)"

definition use_server ::
  "('cs, 'cd, 'as, 'ad, 'vs, 'vd, 'x, 'y, 'ai, 'ao, 'rx) recon_context \<Rightarrow> ('cs, 'as, 'vs) world \<Rightarrow>
   ('cd, 'ad, 'vd, 'rx) dir_context \<Rightarrow> os_string \<Rightarrow> os_string \<Rightarrow> file_data option \<Rightarrow> file_data option \<Rightarrow>
   ('cs, 'cd, 'as, 'ad, 'vs, 'vd, 'rx, apply_result) dir_step" where
  "use_server ctx w dir dir_name name old_cli old_srv =
     Option.bind (apply_use (ctx_cli ctx) (w_cli w) (dc_cli dir) (ctx_anc ctx) (w_anc w) (dc_anc dir)
         (ctx_srv ctx) (w_srv w) (sd_dir (dc_srv dir)) dir_name name old_cli old_srv Client)
       (\<lambda>(cs, cc, as, ac, vs, lg, r).
         let w1 = add_logs lg (w\<lparr>w_cli := cs, w_anc := as, w_srv := vs\<rparr>); dir1 = dir\<lparr>dc_cli := cc, dc_anc := ac\<rparr>
         in case r of
              Inl res \<Rightarrow> Some (w1, dir1, res)
            | Inr q \<Rightarrow> finish_ancestor ctx dir_name name q w1 dir1)"

definition apply_reconciliation ::
  "('cs, 'cd, 'as, 'ad, 'vs, 'vd, 'x, 'y, 'ai, 'ao, 'rx) recon_context \<Rightarrow> ('cs, 'as, 'vs) world \<Rightarrow>
   ('cd, 'ad, 'vd, 'rx) dir_context \<Rightarrow> os_string \<Rightarrow> os_string \<Rightarrow> reconciliation \<Rightarrow> file_data option \<Rightarrow>
   file_data option \<Rightarrow> ('cs, 'cd, 'as, 'ad, 'vs, 'vd, 'rx, apply_result) dir_step" where
  "apply_reconciliation ctx w0 dir dir_name name recon old_cli old_srv =
     (case should_stop ctx w0 of (w, stop) \<Rightarrow>
       if stop then Some (w, dir, ApplyFail)
       else
         case recon of
           InSync \<Rightarrow> finish_ancestor ctx dir_name name old_cli w dir
         | Unsync \<Rightarrow> Some (w, dir, ApplyClean False)
         | Irreconcilable \<Rightarrow> Some (w, dir, ApplyClean False)
         | Use Client \<Rightarrow> use_client ctx w dir dir_name name old_cli old_srv
         | Use Server \<Rightarrow> use_server ctx w dir dir_name name old_cli old_srv
         | Split side anc_state \<Rightarrow>
             Option.bind (apply_split ctx w dir dir_name name side anc_state) (\<lambda>(w1, dir1, ok).
               Some (w1, dir1, if ok then ApplyClean False else ApplyFail)))"

subsection \<open>Tables and replicas\<close>

text \<open>The table of a directory shows what the replica lists for it.\<close>

definition sync_table :: "(file_data \<Rightarrow> file_data) \<Rightarrow> (os_string \<rightharpoonup> file_data) \<Rightarrow> file_data file_table \<Rightarrow> bool" where
  "sync_table norm v files = (\<forall>n. map_option norm (map_of files n) = v n)"

text \<open>What an operation inside the directory \<open>d\<close> keeps: the invariant, the handles, the limit of
  the ranks, and all that is listed above \<open>d\<close>.\<close>

definition stays_below ::
  "('s \<Rightarrow> bool) \<Rightarrow> ('s \<Rightarrow> 'd \<Rightarrow> bool) \<Rightarrow> ('s \<Rightarrow> 'd \<Rightarrow> os_string \<rightharpoonup> file_data) \<Rightarrow> ('s \<Rightarrow> 'd \<Rightarrow> int) \<Rightarrow> ('s \<Rightarrow> int) \<Rightarrow>
   's \<Rightarrow> 'd \<Rightarrow> 's \<Rightarrow> 'd \<Rightarrow> bool" where
  "stays_below iv dir_ok view rank limit s d s' d' =
     (iv s' \<and> keeps_dirs dir_ok s s' \<and> dir_ok s' d' \<and> limit s' \<le> limit s \<and> rank s' d' = rank s d \<and>
      (\<forall>f. rank s f < rank s d \<longrightarrow> view s' f = view s f \<and> rank s' f = rank s f))"

fun side_files :: "reconciliation_side \<Rightarrow> ('cd, 'ad, 'vd, 'rx) dir_context \<Rightarrow> file_data file_table" where
  "side_files Client dir = sd_files (dc_cli dir)"
| "side_files Server dir = sd_files (dc_srv dir)"

abbreviation anc_files :: "('cd, 'ad, 'vd, 'rx) dir_context \<Rightarrow> file_data file_table" where
  "anc_files dir \<equiv> sd_files (dc_anc dir)"

fun is_error_entry :: "log \<Rightarrow> bool" where
  "is_error_entry (LError _ _ _ _) = True"
| "is_error_entry _ = False"

text \<open>A client with a symbolic link \<open>a\<close>, an empty server and an empty ancestor.\<close>

definition demo_mode :: sync_mode where
  "demo_mode = \<lparr>inbound = half_all On, outbound = half_all On\<rparr>"

definition demo_ctx ::
  "mem_faults \<Rightarrow> (mem_state, mem_handle, anc_state, dir_handle, mem_state, mem_handle, hash_id option, hash_id option,
    file_data, unit, unit) recon_context" where
  "demo_ctx flt =
     \<lparr>ctx_cli = replica.truncate (memory_replica flt), ctx_anc = ancestor_replica (\<lambda>_. None),
      ctx_srv = replica.truncate (memory_replica (\<lambda>_. None)), ctx_rx_match = (\<lambda>_ _. False),
      ctx_root_rules = file_engine_new (single_mode demo_mode True), ctx_interrupted = (\<lambda>_. False)\<rparr>"

definition demo_world :: "(mem_state, anc_state, mem_state) world" where
  "demo_world =
     \<lparr>w_cli = mem_empty\<lparr>ms_dirs := [([], mem_directory_default\<lparr>md_contents := [(''a'', SymlinkEntry ''t'')]\<rparr>)]\<rparr>,
      w_anc = \<lparr>an_conn = \<lparr>cx_db = empty_db, cx_tx = None, cx_count = 0\<rparr>, an_cells = []\<rparr>,
      w_srv = mem_empty, w_log = [], w_polls = 0\<rparr>"

definition demo_dir :: "(mem_handle, dir_handle, mem_handle, unit) dir_context" where
  "demo_dir =
     \<lparr>dc_cli = \<lparr>sd_dir = \<lparr>mh_path = [], mh_synthetics = []\<rparr>, sd_files = [(''a'', Symlink ''t'')]\<rparr>,
      dc_anc = \<lparr>sd_dir = Real 0, sd_files = []\<rparr>,
      dc_srv = \<lparr>sd_dir = \<lparr>mh_path = [], mh_synthetics = []\<rparr>, sd_files = []\<rparr>,
      dc_todo = [], dc_rules = \<lparr>de_rules = single_mode demo_mode True, de_state = engine_state_new 0\<rparr>\<rparr>"

section \<open>Lemmas\<close>

subsection \<open>Removing recursively\<close>

lemma stays_below_refl: "iv s \<Longrightarrow> dir_ok s d \<Longrightarrow> stays_below iv dir_ok view rank limit s d s d"
  by (simp add: stays_below_def keeps_dirs_def)

lemma stays_below_trans:
  assumes "stays_below iv dir_ok view rank limit s d s1 d1" "stays_below iv dir_ok view rank limit s1 d1 s2 d2"
  shows "stays_below iv dir_ok view rank limit s d s2 d2"
  using assms keeps_dirs_trans [of dir_ok s s1 s2] unfolding stays_below_def by (metis order_trans)

text \<open>Going through a deeper directory \<open>b\<close> and back.\<close>

lemma stays_below_deeper:
  assumes "stays_below iv dir_ok view rank limit s b s' b'" "rank s d < rank s b" "dir_ok s d"
  shows "stays_below iv dir_ok view rank limit s d s' d \<and> view s' d = view s d"
  using assms by (auto simp: stays_below_def dest: keeps_dirsD)

context ancestor_contract
begin

lemma list_below:
  assumes "inv s" "dir_ok s d"
  shows "\<exists>s' d' r. r_list rep s d = Some (s', d', r) \<and> stays_below inv dir_ok view rank limit s d s' d' \<and>
    (\<forall>fs. r = Inr fs \<longrightarrow> distinct (map fst fs) \<and> map_of fs = view s' d' \<and> list_all (\<lambda>f. storable (snd f)) fs)"
proof -
  from list_total [OF assms] obtain s' d' r where l: "r_list rep s d = Some (s', d', r)" "limit s' \<le> limit s"
    "\<forall>fs. r = Inr fs \<longrightarrow> list_all (\<lambda>f. storable (snd f)) fs" by blast
  have "stays_below inv dir_ok view rank limit s d s' d'"
    unfolding stays_below_def using list_inv [OF assms l(1)] l(2) by blast
  moreover have "\<forall>fs. r = Inr fs \<longrightarrow> distinct (map fst fs) \<and> map_of fs = view s' d'"
    using list_law [OF assms] l(1) by blast
  ultimately show ?thesis using l by blast
qed

lemma chdir_below:
  assumes "inv s" "dir_ok s d" "view s d name \<noteq> None"
  shows "\<exists>s' r. r_chdir rep s d name = Some (s', r) \<and> stays_below inv dir_ok view rank limit s d s' d \<and>
    view s' = view s \<and> rank s' = rank s \<and> (\<forall>b. r = Inr b \<longrightarrow> dir_ok s' b \<and> rank s d < rank s' b)"
proof -
  from chdir_total [OF assms(1,2)] obtain s' r where c: "r_chdir rep s d name = Some (s', r)" "limit s' \<le> limit s" by blast
  note i = chdir_inv [OF assms(1,2) c(1)]
  have "stays_below inv dir_ok view rank limit s d s' d"
    unfolding stays_below_def using i c(2) keeps_dirsD [of dir_ok s s' d] assms(2) by simp
  moreover have "\<forall>b. r = Inr b \<longrightarrow> dir_ok s' b \<and> rank s d < rank s' b"
    using chdir_law [OF assms(1,2)] c(1) assms(3) by blast
  ultimately show ?thesis using c i by blast
qed

lemma remove_below:
  assumes "inv s" "dir_ok s d" "storable fd"
  shows "\<exists>s' d' r. r_remove rep s d (name, fd) = Some (s', d', r) \<and> stays_below inv dir_ok view rank limit s d s' d' \<and>
    (r = Inr () \<longrightarrow> view s' d' = (view s d)(name := None))"
proof -
  from remove_total [OF assms] obtain s' d' r where c: "r_remove rep s d (name, fd) = Some (s', d', r)" "limit s' \<le> limit s" by blast
  have "stays_below inv dir_ok view rank limit s d s' d'"
    unfolding stays_below_def using remove_inv [OF assms(1,2) c(1)] c(2) by blast
  with c remove_law [OF assms(1,2)] show ?thesis by blast
qed

lemma remove_entries_total:
  assumes IH: "\<And>s d. inv s \<Longrightarrow> dir_ok s d \<Longrightarrow> nat (limit s - rank s d) < K \<Longrightarrow>
      \<exists>s' d' r. remove_recursively rep s d None = Some (s', d', r) \<and> stays_below inv dir_ok view rank limit s d s' d'"
    and "inv s" "dir_ok s d" "nat (limit s - rank s d) \<le> K"
    and "distinct (map fst fs)" "map_of fs = view s d" "list_all (\<lambda>f. storable (snd f)) fs"
  shows "\<exists>s' d' r. remove_recursively rep s d (Some fs) = Some (s', d', r) \<and>
    stays_below inv dir_ok view rank limit s d s' d' \<and> (r = Inr () \<longrightarrow> view s' d' = Map.empty)"
  using assms(2-7)
proof (induction fs arbitrary: s d)
  case Nil
  then show ?case by (subst remove_recursively.simps) (simp add: stays_below_refl)
next
  case (Cons nf rest)
  obtain name fd where nf: "nf = (name, fd)" by (cases nf)
  from Cons.prems nf have fd: "storable fd" "view s d name = Some fd" by (auto simp: fun_eq_iff dest: spec [of _ name])
  have "\<exists>s2 r2. (if fd_is_dir fd then
               Option.bind (r_chdir rep s d name) (\<lambda>(s1, r).
                 case r of Inl e \<Rightarrow> Some (s1, Inl e)
                 | Inr sub \<Rightarrow> Option.bind (remove_recursively rep s1 sub None) (\<lambda>(s2, sub', r2). Some (s2, r2)))
             else Some (s, Inr ())) = Some (s2, r2) \<and>
       stays_below inv dir_ok view rank limit s d s2 d \<and> view s2 d = view s d"
  proof (cases "fd_is_dir fd")
    case False
    with Cons.prems show ?thesis by (simp add: stays_below_refl)
  next
    case True
    from chdir_below [OF Cons.prems(1,2), of name] fd obtain s1 r where
      c: "r_chdir rep s d name = Some (s1, r)" "stays_below inv dir_ok view rank limit s d s1 d" "view s1 = view s"
      "rank s1 = rank s" "\<forall>b. r = Inr b \<longrightarrow> dir_ok s1 b \<and> rank s d < rank s1 b" by auto
    show ?thesis
    proof (cases r)
      case (Inl e)
      with True c show ?thesis by simp
    next
      case (Inr b)
      with c have b: "dir_ok s1 b" "rank s1 d < rank s1 b" "inv s1" "dir_ok s1 d" "limit s1 \<le> limit s"
        by (auto simp: stays_below_def)
      with rank_limit [OF b(3,1)] c(4) Cons.prems(3) have "nat (limit s1 - rank s1 b) < K" by simp
      from IH [OF b(3,1) this] obtain s2 b' r2 where
        r: "remove_recursively rep s1 b None = Some (s2, b', r2)" "stays_below inv dir_ok view rank limit s1 b s2 b'" by blast
      from stays_below_deeper [OF r(2) b(2,4)] stays_below_trans [OF c(2)] c True Inr r(1) show ?thesis by auto
    qed
  qed
  then obtain s2 r2 where s2: "(if fd_is_dir fd then
               Option.bind (r_chdir rep s d name) (\<lambda>(s1, r).
                 case r of Inl e \<Rightarrow> Some (s1, Inl e)
                 | Inr sub \<Rightarrow> Option.bind (remove_recursively rep s1 sub None) (\<lambda>(s2, sub', r2). Some (s2, r2)))
             else Some (s, Inr ())) = Some (s2, r2)"
    and b2: "stays_below inv dir_ok view rank limit s d s2 d" "view s2 d = view s d" by blast
  show ?case
  proof (cases r2)
    case (Inl e)
    with s2 b2 nf show ?thesis by (subst remove_recursively.simps) simp
  next
    case (Inr u)
    from b2(1) have i2: "inv s2" "dir_ok s2 d" by (auto simp: stays_below_def)
    from remove_below [OF i2 fd(1), of name] obtain s3 d3 r3 where
      r3: "r_remove rep s2 d (name, fd) = Some (s3, d3, r3)" "stays_below inv dir_ok view rank limit s2 d s3 d3"
        "r3 = Inr () \<longrightarrow> view s3 d3 = (view s2 d)(name := None)" by blast
    note b3 = stays_below_trans [OF b2(1) r3(2)]
    show ?thesis
    proof (cases r3)
      case (Inl e)
      with s2 \<open>r2 = Inr u\<close> r3 b3 nf show ?thesis by (subst remove_recursively.simps) simp
    next
      case (Inr v)
      have "map_of rest = (map_of (nf # rest))(name := None)"
        using Cons.prems(4) nf by (intro ext) (auto simp: map_of_eq_None_iff)
      then have "map_of rest = view s3 d3"
        unfolding Cons.prems(5) using r3(3) Inr b2(2) by simp
      moreover from b3 have "inv s3" "dir_ok s3 d3" "nat (limit s3 - rank s3 d3) \<le> K"
        using Cons.prems(3) by (auto simp: stays_below_def)
      ultimately obtain s' d' r where "remove_recursively rep s3 d3 (Some rest) = Some (s', d', r)"
        "stays_below inv dir_ok view rank limit s3 d3 s' d'" "r = Inr () \<longrightarrow> view s' d' = Map.empty"
        using Cons.IH [of s3 d3] Cons.prems(4,6) nf by auto
      with s2 \<open>r2 = Inr u\<close> r3(1) Inr nf stays_below_trans [OF b3] show ?thesis
        by (subst remove_recursively.simps) auto
    qed
  qed
qed

lemma remove_recursively_total:
  assumes "inv s" "dir_ok s d"
  shows "\<exists>s' d' r. remove_recursively rep s d None = Some (s', d', r) \<and>
    stays_below inv dir_ok view rank limit s d s' d' \<and> (r = Inr () \<longrightarrow> view s' d' = Map.empty)"
  using assms
proof (induction "nat (limit s - rank s d)" arbitrary: s d rule: less_induct)
  case less
  from list_below [OF less.prems] obtain s1 d1 r where l: "r_list rep s d = Some (s1, d1, r)"
    "stays_below inv dir_ok view rank limit s d s1 d1"
    "\<forall>fs. r = Inr fs \<longrightarrow> distinct (map fst fs) \<and> map_of fs = view s1 d1 \<and> list_all (\<lambda>f. storable (snd f)) fs" by blast
  show ?case
  proof (cases r)
    case (Inl e)
    with l show ?thesis by (subst remove_recursively.simps) simp
  next
    case (Inr fs)
    from l(2) have 1: "inv s1" "dir_ok s1 d1" "nat (limit s1 - rank s1 d1) \<le> nat (limit s - rank s d)"
      by (auto simp: stays_below_def)
    have "\<exists>s' d' r. remove_recursively rep s1 d1 (Some fs) = Some (s', d', r) \<and>
        stays_below inv dir_ok view rank limit s1 d1 s' d' \<and> (r = Inr () \<longrightarrow> view s' d' = Map.empty)"
    proof (rule remove_entries_total [OF _ 1])
      fix s2 d2
      assume "inv s2" "dir_ok s2 d2" "nat (limit s2 - rank s2 d2) < nat (limit s - rank s d)"
      with less.hyps [of s2 d2] show "\<exists>s' d' r. remove_recursively rep s2 d2 None = Some (s', d', r) \<and>
          stays_below inv dir_ok view rank limit s2 d2 s' d'" by blast
    qed (use l(3) Inr in auto)
    with l Inr stays_below_trans [OF l(2)] show ?thesis by (subst remove_recursively.simps) fastforce
  qed
qed


lemma write_ancestor_ok:
  assumes "inv s" "dir_ok s d" "name \<noteq> []" "pred_option storable old" "pred_option storable new" "old \<noteq> new"
    and "old = map_of files name" "sync_table norm (view s d) files"
  shows "\<exists>s' d' files' r. write_ancestor rep s d files name old new = Some (s', d', files', r) \<and>
    inv s' \<and> keeps_dirs dir_ok s s' \<and> dir_ok s' d' \<and>
    (case r of Inl _ \<Rightarrow> files' = files
     | Inr _ \<Rightarrow> map_of files' = (map_of files)(name := new) \<and> sync_table norm (view s' d') files')"
proof (cases old)
  case None
  with assms(6) obtain fd where fd: "new = Some fd" by (cases new) auto
  with assms(5) create_total [of fd s d name] obtain s' d' r where
    c: "r_create rep s d (name, fd) (r_null_transfer rep fd) = Some (s', d', r)" by auto
  from None assms(7) have "\<not> table_has files name" by (simp add: table_has_def)
  with c None fd create_inv [OF assms(1-3) c] create_law [OF assms(1-3) null_carries, of fd s' d'] assms(8)
  show ?thesis by (cases r) (auto simp: update_conv' sync_table_def)
next
  case (Some o')
  with assms(7) have h: "table_has files name" by (metis table_has_Some)
  show ?thesis
  proof (cases new)
    case None
    from remove_total [OF assms(1,2), of o' name] Some assms(4) obtain s' d' r where
      c: "r_remove rep s d (name, o') = Some (s', d', r)" by auto
    from c h None Some remove_inv [OF assms(1,2) c] remove_law [OF assms(1,2), of name o' s' d'] assms(8)
    show ?thesis by (cases r) (auto simp: delete_conv' sync_table_def)
  next
    case fd: (Some fd)
    with Some assms(4,5) update_total [of o' fd s d name] obtain s' d' r where
      c: "r_update rep s d name o' fd (r_null_transfer rep fd) = Some (s', d', r)" by auto
    from c h fd Some update_inv [OF assms(1-3) c] update_law [OF assms(1-3) null_carries, of o' fd s' d'] assms(8)
    show ?thesis by (cases r) (auto simp: update_conv' sync_table_def)
  qed
qed

lemma replace_ancestor_ok:
  assumes "inv s" "dir_ok s d" "name \<noteq> []" "pred_option storable old" "pred_option storable new"
    and "old = map_of files name" "sync_table norm (view s d) files"
  shows "\<exists>s' d' files' r. replace_ancestor rep s d files name old new = Some (s', d', files', r) \<and>
    inv s' \<and> keeps_dirs dir_ok s s' \<and> dir_ok s' d' \<and>
    (case r of Inl _ \<Rightarrow> files' = files
     | Inr _ \<Rightarrow> map_of files' = (map_of files)(name := new) \<and> sync_table norm (view s' d') files')"
proof (cases "old \<noteq> new \<and> is_dir old \<and> \<not> is_dir new")
  case False
  with assms write_ancestor_ok [OF assms(1-5) _ assms(6,7)] show ?thesis
    by (cases "old = new") (auto simp: replace_ancestor_def)
next
  case True
  with assms(6,7) have "view s d name \<noteq> None" by (cases old) (auto simp: sync_table_def dest!: spec [of _ name], metis option.simps(9))
  from chdir_below [OF assms(1,2) this] obtain s1 r where
    c: "r_chdir rep s d name = Some (s1, r)" "stays_below inv dir_ok view rank limit s d s1 d" "view s1 = view s"
    "rank s1 = rank s" "\<forall>b. r = Inr b \<longrightarrow> dir_ok s1 b \<and> rank s d < rank s1 b" by blast
  then have 1: "inv s1" "keeps_dirs dir_ok s s1" "dir_ok s1 d" by (auto simp: stays_below_def)
  show ?thesis
  proof (cases r)
    case (Inl e)
    with True c 1 show ?thesis by (simp add: replace_ancestor_def)
  next
    case (Inr b)
    with c have b: "dir_ok s1 b" "rank s1 d < rank s1 b" by auto
    from remove_recursively_total [OF 1(1) b(1)] obtain s2 b' r2 where
      rr: "remove_recursively rep s1 b None = Some (s2, b', r2)" "stays_below inv dir_ok view rank limit s1 b s2 b'" by blast
    from stays_below_deeper [OF rr(2) b(2) 1(3)] have 2: "inv s2" "keeps_dirs dir_ok s1 s2" "dir_ok s2 d" "view s2 d = view s d"
      using c(3) by (auto simp: stays_below_def)
    with write_ancestor_ok [OF 2(1,3) assms(3-5) _ assms(6)] True assms(7) obtain s' d' files' q where
      w: "write_ancestor rep s2 d files name old new = Some (s', d', files', q)" "inv s'" "keeps_dirs dir_ok s2 s'" "dir_ok s' d'"
      "case q of Inl _ \<Rightarrow> files' = files
       | Inr _ \<Rightarrow> map_of files' = (map_of files)(name := new) \<and> sync_table norm (view s' d') files'" by auto
    note k = keeps_dirs_trans [OF 1(2) 2(2)]
    from keeps_dirs_trans [OF k w(3)] k w True c(1) rr(1) Inr 2 show ?thesis
      by (cases r2) (auto simp: replace_ancestor_def)
  qed
qed

end

subsection \<open>What the tables become\<close>

text \<open>Whatever the replicas do, a table changes only for the named file, and only on success.\<close>

lemma write_ancestor_table:
  assumes "write_ancestor rep s d files name old new = Some (s', d', files', r)" "old = map_of files name"
  shows "case r of Inl _ \<Rightarrow> files' = files | Inr _ \<Rightarrow> map_of files' = (map_of files)(name := new)"
  using assms
  by (cases "(rep, s, d, files, name, old, new)" rule: write_ancestor.cases)
    (auto simp: update_conv' delete_conv' split: Option.bind_splits sum.splits if_splits)

lemma replace_ancestor_cases:
  assumes "replace_ancestor rep s d files name old new = Some (s', d', files', r)"
  shows "files' = files \<and> (old = new \<or> \<not> is_ok r) \<or>
    (\<exists>s1. write_ancestor rep s1 d files name old new = Some (s', d', files', r))"
  using assms unfolding replace_ancestor_def
  by (auto split: Option.bind_split_asm if_split_asm sum.split_asm)

lemma replace_ancestor_table:
  assumes "replace_ancestor rep s d files name old new = Some (s', d', files', r)" "old = map_of files name"
  shows "case r of Inl _ \<Rightarrow> files' = files | Inr _ \<Rightarrow> map_of files' = (map_of files)(name := new)"
  using replace_ancestor_cases [OF assms(1)]
proof
  assume "files' = files \<and> (old = new \<or> \<not> is_ok r)"
  with assms(2) show ?thesis by (cases r) auto
qed (elim exE, erule write_ancestor_table [OF _ assms(2)])

lemma replace_replica_table:
  assumes "replace_replica dst s d files src s2 d2 dir_name name old new side = Some (s', d', files', s2', lg, r)"
    and "old = map_of files name"
  shows "case r of Inl _ \<Rightarrow> files' = files | Inr q \<Rightarrow> map_of files' = (map_of files)(name := q)"
  using assms
  by (auto simp: replace_replica_def update_conv' delete_conv'
      split: Option.bind_splits sum.splits if_splits option.splits)

lemma try_replace_ancestor_table:
  assumes "try_replace_ancestor rep s d files dir_name name old new = Some (s', d', files', lg, ok)"
    and "old = map_of files name"
  shows "map_of files' = (if ok then (map_of files)(name := new) else map_of files)"
proof -
  from assms(1) obtain r where r: "replace_ancestor rep s d files name old new = Some (s', d', files', r)"
    and ok: "ok = is_ok r"
    by (auto simp: try_replace_ancestor_def to_bool_def split: Option.bind_splits sum.splits)
  from replace_ancestor_table [OF r assms(2)] ok show ?thesis by (cases r) auto
qed

lemma finish_ancestor_tables:
  assumes "finish_ancestor ctx dir_name name new w dir = Some (w', dir', res)"
  shows "w_cli w' = w_cli w \<and> w_srv w' = w_srv w \<and> dc_cli dir' = dc_cli dir \<and> dc_srv dir' = dc_srv dir \<and>
    dc_todo dir' = dc_todo dir \<and> dc_rules dir' = dc_rules dir \<and>
    (res = ApplyFail \<and> map_of (sd_files (dc_anc dir')) = map_of (sd_files (dc_anc dir)) \<or>
     res = ApplyClean (is_dir new) \<and>
     map_of (sd_files (dc_anc dir')) = (map_of (sd_files (dc_anc dir)))(name := new))"
proof -
  from assms obtain as ad af lg ok where
    t: "try_replace_ancestor (ctx_anc ctx) (w_anc w) (sd_dir (dc_anc dir)) (sd_files (dc_anc dir)) dir_name name
      (map_of (sd_files (dc_anc dir)) name) new = Some (as, ad, af, lg, ok)"
    and r: "set_anc w dir (as, ad, af, lg, ok) = Some (w', dir', ok)" "res = (if ok then ApplyClean (is_dir new) else ApplyFail)"
    by (auto simp: finish_ancestor_def set_anc_def split: Option.bind_splits)
  from try_replace_ancestor_table [OF t refl] r show ?thesis
    by (auto simp: set_anc_def add_logs_def)
qed

lemma apply_use_tables:
  assumes "apply_use dst s dc anc as ac src s2 d2 dir_name name old_dst old_src side = Some (s', dc', as', ac', s2', lg, r)"
    and "old_dst = map_of (sd_files dc) name"
  shows "case r of
      Inl res \<Rightarrow> sd_files dc' = sd_files dc \<and> (res = ApplyFail \<or> (\<exists>mode. res = ApplyRecursiveDelete side mode)) \<and>
        (as' = as \<and> ac' = ac \<or> is_dir old_dst \<and> old_src = None)
    | Inr q \<Rightarrow> map_of (sd_files dc') = (map_of (sd_files dc))(name := q) \<and> as' = as \<and> ac' = ac"
proof (cases "is_dir old_dst \<and> old_src = None")
  case True
  with assms show ?thesis by (auto simp: apply_use_def Let_def split: Option.bind_splits if_splits)
next
  case False
  with assms(1) obtain d1 f1 q where
    rr: "replace_replica dst s (sd_dir dc) (sd_files dc) src s2 d2 dir_name name old_dst old_src (side_of side) =
      Some (s', d1, f1, s2', lg, q)"
    and eqs: "dc' = dc\<lparr>sd_dir := d1, sd_files := f1\<rparr>" "as' = as" "ac' = ac"
      "r = (case q of Inl _ \<Rightarrow> Inl ApplyFail | Inr x \<Rightarrow> Inr x)"
    by (auto simp: apply_use_def Let_def split: Option.bind_splits if_splits sum.splits)
  from replace_replica_table [OF rr assms(2)] eqs show ?thesis by (cases q) auto
qed

text \<open>The two directions of \<open>Use\<close> end in one of three ways: the change of the end replica fails and
  the ancestor is not touched, both succeed, or the ancestor's change fails.\<close>

lemma use_client_cases:
  assumes "use_client ctx w dir dir_name name old_cli old_srv = Some (w', dir', res)"
    and "old_srv = map_of (sd_files (dc_srv dir)) name" and "\<not> (is_dir old_srv \<and> old_cli = None)"
  shows "dc_cli dir' = dc_cli dir \<and> dc_todo dir' = dc_todo dir \<and>
    (res = ApplyFail \<and> w_anc w' = w_anc w \<and> dc_anc dir' = dc_anc dir \<and> sd_files (dc_srv dir') = sd_files (dc_srv dir) \<or>
     (\<exists>q. map_of (sd_files (dc_srv dir')) = (map_of (sd_files (dc_srv dir)))(name := q) \<and>
        (res = ApplyClean (is_dir q) \<and> map_of (anc_files dir') = (map_of (anc_files dir))(name := q) \<or>
         res = ApplyFail \<and> map_of (anc_files dir') = map_of (anc_files dir))))"
proof -
  from assms(1) obtain vs vc as ac cs lg r where
    u: "apply_use (ctx_srv ctx) (w_srv w) (dc_srv dir) (ctx_anc ctx) (w_anc w) (dc_anc dir)
         (ctx_cli ctx) (w_cli w) (sd_dir (dc_cli dir)) dir_name name old_srv old_cli Server = Some (vs, vc, as, ac, cs, lg, r)"
    by (auto simp: use_client_def split: Option.bind_splits)
  note t = apply_use_tables [OF u assms(2)]
  show ?thesis
  proof (cases r)
    case (Inl x)
    with t assms(3) have "as = w_anc w" "ac = dc_anc dir" "sd_files vc = sd_files (dc_srv dir)" by auto
    moreover have "x = ApplyFail"
      using u Inl assms(3) by (auto simp: apply_use_def Let_def split: Option.bind_splits if_splits sum.splits)
    ultimately show ?thesis using assms(1) u Inl by (auto simp: use_client_def add_logs_def)
  next
    case (Inr q)
    with assms(1) u have
      "finish_ancestor ctx dir_name name q (add_logs lg (w\<lparr>w_cli := cs, w_anc := as, w_srv := vs\<rparr>))
         (dir\<lparr>dc_anc := ac, dc_srv := vc\<rparr>) = Some (w', dir', res)" by (simp add: use_client_def)
    from finish_ancestor_tables [OF this] t Inr show ?thesis by auto
  qed
qed

lemma use_server_cases:
  assumes "use_server ctx w dir dir_name name old_cli old_srv = Some (w', dir', res)"
    and "old_cli = map_of (sd_files (dc_cli dir)) name" and "\<not> (is_dir old_cli \<and> old_srv = None)"
  shows "dc_srv dir' = dc_srv dir \<and> dc_todo dir' = dc_todo dir \<and>
    (res = ApplyFail \<and> w_anc w' = w_anc w \<and> dc_anc dir' = dc_anc dir \<and> sd_files (dc_cli dir') = sd_files (dc_cli dir) \<or>
     (\<exists>q. map_of (sd_files (dc_cli dir')) = (map_of (sd_files (dc_cli dir)))(name := q) \<and>
        (res = ApplyClean (is_dir q) \<and> map_of (anc_files dir') = (map_of (anc_files dir))(name := q) \<or>
         res = ApplyFail \<and> map_of (anc_files dir') = map_of (anc_files dir))))"
proof -
  from assms(1) obtain vs vc as ac cs lg r where
    u: "apply_use (ctx_cli ctx) (w_cli w) (dc_cli dir) (ctx_anc ctx) (w_anc w) (dc_anc dir)
         (ctx_srv ctx) (w_srv w) (sd_dir (dc_srv dir)) dir_name name old_cli old_srv Client = Some (vs, vc, as, ac, cs, lg, r)"
    by (auto simp: use_server_def split: Option.bind_splits)
  note t = apply_use_tables [OF u assms(2)]
  show ?thesis
  proof (cases r)
    case (Inl x)
    with t assms(3) have "as = w_anc w" "ac = dc_anc dir" "sd_files vc = sd_files (dc_cli dir)" by auto
    moreover have "x = ApplyFail"
      using u Inl assms(3) by (auto simp: apply_use_def Let_def split: Option.bind_splits if_splits sum.splits)
    ultimately show ?thesis using assms(1) u Inl by (auto simp: use_server_def add_logs_def)
  next
    case (Inr q)
    with assms(1) u have
      "finish_ancestor ctx dir_name name q (add_logs lg (w\<lparr>w_cli := vs, w_anc := as, w_srv := cs\<rparr>))
         (dir\<lparr>dc_cli := vc, dc_anc := ac\<rparr>) = Some (w', dir', res)" by (simp add: use_server_def)
    from finish_ancestor_tables [OF this] t Inr show ?thesis by auto
  qed
qed

text \<open>Renaming.\<close>

lemma try_rename_replica_table:
  assumes "try_rename_replica rep s d files dir_name n n' side = Some (s', d', files', lg, ok)"
  shows "if ok then map_of files n \<noteq> None \<and> map_of files' = (map_of files)(n := None, n' := map_of files n) else files' = files"
  using assms by (auto simp: try_rename_replica_def update_conv' delete_conv' split: Option.bind_splits sum.splits option.splits)

lemma condemn_step_tables:
  assumes "condemn_step oper dir_name name w dir = Some (w', dir', ok)"
  shows "dc_cli dir' = dc_cli dir \<and> dc_srv dir' = dc_srv dir \<and> anc_files dir' = anc_files dir \<and> dc_todo dir' = dc_todo dir \<and>
    w_cli w' = w_cli w \<and> w_srv w' = w_srv w"
  using assms by (auto simp: condemn_step_def set_anc_def add_logs_def split: Option.bind_splits prod.splits)

lemma split_before_tables:
  assumes "split_before ctx dir_name name st w dir = Some (w', dir', ok)"
  shows "dc_cli dir' = dc_cli dir \<and> dc_srv dir' = dc_srv dir \<and> dc_todo dir' = dc_todo dir \<and>
    w_cli w' = w_cli w \<and> w_srv w' = w_srv w \<and>
    map_of (anc_files dir') = (if ok \<and> st = Delete then (map_of (anc_files dir))(name := None) else map_of (anc_files dir))"
proof (cases st)
  case Delete
  with assms obtain as ad af lg where
    t: "try_replace_ancestor (ctx_anc ctx) (w_anc w) (sd_dir (dc_anc dir)) (anc_files dir) dir_name name
      (map_of (anc_files dir) name) None = Some (as, ad, af, lg, ok)"
    and e: "w' = add_logs lg (w\<lparr>w_anc := as\<rparr>)" "dir' = dir\<lparr>dc_anc := \<lparr>sd_dir = ad, sd_files = af\<rparr>\<rparr>"
    by (auto simp: set_anc_def split: Option.bind_splits)
  from try_replace_ancestor_table [OF t refl] e Delete show ?thesis by (auto simp: add_logs_def)
next
  case Move
  with assms condemn_step_tables show ?thesis by fastforce
qed

lemma split_rename_tables:
  assumes "split_rename ctx dir_name name new side w dir = Some (w', dir', True)"
  shows "map_of (side_files side dir) name \<noteq> None \<and>
    map_of (side_files side dir') = (map_of (side_files side dir))(name := None, new := map_of (side_files side dir) name) \<and>
    side_files (rev_side side) dir' = side_files (rev_side side) dir \<and> dc_anc dir' = dc_anc dir \<and>
    dc_todo dir' = dc_todo dir \<and> w_anc w' = w_anc w"
  using assms
  by (cases side) (auto simp: set_cli_def set_srv_def add_logs_def split: Option.bind_splits dest!: try_rename_replica_table)

lemma split_after_tables:
  assumes "split_after ctx dir_name name new st w dir = Some (w', dir', True)"
  shows "dc_cli dir' = dc_cli dir \<and> dc_srv dir' = dc_srv dir \<and> dc_todo dir' = dc_todo dir \<and>
    map_of (anc_files dir') = (if st = Move \<and> table_has (anc_files dir) name
      then (map_of (anc_files dir))(name := None, new := map_of (anc_files dir) name) else map_of (anc_files dir))"
proof (cases "st = Move")
  case True
  with assms obtain w1 dir1 where
    m: "(if \<not> table_has (anc_files dir) name then Some (w, dir, True)
        else Option.bind (try_rename_replica (ctx_anc ctx) (w_anc w) (sd_dir (dc_anc dir)) (anc_files dir)
          dir_name name new SideAncestor) (set_anc w dir)) = Some (w1, dir1, True)"
    and c: "condemn_step (r_uncondemn (ctx_anc ctx)) dir_name name w1 dir1 = Some (w', dir', True)"
    by (fastforce split: Option.bind_splits if_splits)
  from m have "dc_cli dir1 = dc_cli dir \<and> dc_srv dir1 = dc_srv dir \<and> dc_todo dir1 = dc_todo dir \<and>
    map_of (anc_files dir1) = (if table_has (anc_files dir) name
      then (map_of (anc_files dir))(name := None, new := map_of (anc_files dir) name) else map_of (anc_files dir))"
    by (auto simp: set_anc_def split: if_splits Option.bind_splits dest!: try_rename_replica_table)
  with condemn_step_tables [OF c] True show ?thesis by auto
next
  case False
  with assms show ?thesis by (cases st) auto
qed

lemma gen_alternate_name_unused: "gen_alternate_name orig in_use = Some new \<Longrightarrow> \<not> in_use new"
  by (auto simp: gen_alternate_name_def dest!: gen_alternate_loop_Some split: option.splits prod.splits)

section \<open>Properties\<close>





text \<open>C23. The table of a directory of the ancestor replica follows the database: with any statement
  failing, \<open>replace_ancestor\<close> returns (the recursive removal of a directory always
  ends), keeps the database well formed, and on success the table with the file replaced again
  shows exactly what the directory holds; on failure the table is unchanged.\<close>

theorem replace_ancestor_follows:
  assumes "anc_inv s" "handle_ok s d" "name \<noteq> []"
    and "old = map_of files name" "old \<noteq> Some Special" "new \<noteq> Some Special"
    and "sync_table anc_norm (anc_view s d) files"
  shows "\<exists>s' d' files' r. replace_ancestor (ancestor_replica flt) s d files name old new = Some (s', d', files', r) \<and>
    anc_inv s' \<and> handle_ok s' d' \<and>
    (case r of Inl _ \<Rightarrow> files' = files
     | Inr _ \<Rightarrow> map_of files' = (map_of files)(name := new) \<and> sync_table anc_norm (anc_view s' d') files')"
proof -
  have "pred_option (\<lambda>fd. fd \<noteq> Special) old" "pred_option (\<lambda>fd. fd \<noteq> Special) new"
    using assms(5,6) by (cases old; cases new; simp)+
  from anc.replace_ancestor_ok [OF assms(1-3) this assms(4,7), of flt] show ?thesis by blast
qed

theorem replace_ancestor_follows_witness:
  "let s = \<lparr>an_conn = \<lparr>cx_db = demo_db, cx_tx = None, cx_count = 0\<rparr>, an_cells = []\<rparr>;
       files = [(''d'', Directory 0), (''x'', Regular 0 0 0 [])] in
   sync_table anc_norm (anc_view s (Real 0)) files \<and>
   (\<exists>s' d' files' r. replace_ancestor (ancestor_replica (\<lambda>_. None)) s (Real 0) files ''d'' (Some (Directory 0))
      (Some (Symlink ''t'')) = Some (s', d', files', r) \<and> anc_inv s')"
proof -
  let ?s = "\<lparr>an_conn = \<lparr>cx_db = demo_db, cx_tx = None, cx_count = 0\<rparr>, an_cells = []\<rparr>"
  let ?files = "[(''d'', Directory 0), (''x'', Regular 0 0 0 [])]"
  have i: "anc_inv ?s" "handle_ok ?s (Real 0)"
    by (auto simp: anc_inv_def committed_def demo_db_def root_row_def db_ok_def)
  have t: "sync_table anc_norm (anc_view ?s (Real 0)) ?files"
    by (auto simp: sync_table_def anc_view_def dir_view_def rows_in_def demo_db_def root_row_def row_data_def
        T_REGULAR_def T_DIRECTORY_def T_SYMLINK_def)
  from replace_ancestor_follows [OF i, of "''d''" "Some (Directory 0)" ?files "Some (Symlink ''t'')" "\<lambda>_. None"] t
  show ?thesis by (auto simp: Let_def)
qed



end
