(* ===== verification/Tree_Walk.thy ===== *)
theory Tree_Walk
  imports Reconcile_Mutate "HOL-Library.Multiset"
begin

text \<open>
  The walk over the directory tree, \<open>src/reconcile/tree_walk.rs\<close>. A task is a closure in the
  source; here the two closures of \<open>recurse_and_then\<close> are the constructors of \<open>walk_task\<close>,
  with what they capture, and the two closures passed as \<open>on_success\<close> are those of
  \<open>on_success\<close>. The shared \<open>DirState\<close>s are the cells of a store, addressed by their index.
  The counters of pending children are natural numbers: decrementing one that is zero, which would
  wrap, is a failure of the model (\<open>None\<close>), as are the panics.

  \<open>walk_step\<close> runs any queued task to its end, so the lemmas hold for every order in which the
  work stack gives the tasks out, and in particular for its last-in first-out order. The
  interleaving of the single operations of two running tasks is not modelled.

  The lemmas show that the accounting is right: every task finds its completion, when the
  queue is empty every directory has been completed, and a failure anywhere reaches the root.
\<close>

section \<open>Definitions\<close>

subsection \<open>State\<close>

record dir_state =
  ds_success :: bool
  ds_empty :: bool
  ds_pending :: nat
  ds_on_complete :: usize

definition dir_state_new :: dir_state where
  "dir_state_new = \<lparr>ds_success = True, ds_empty = True, ds_pending = 1, ds_on_complete = 0\<rparr>"

datatype on_success = MarkBothClean | DeleteOrMarkClean

datatype ('cd, 'ad, 'vd, 'rx) walk_task =
    ProcessTask 'cd 'ad 'vd "'rx file_engine" nat on_success
  | CompleteTask "('cd, 'ad, 'vd, 'rx) dir_context" nat nat on_success

record ('cs, 'cd, 'as, 'ad, 'vs, 'vd, 'rx) walk =
  wk_world :: "('cs, 'as, 'vs) world"
  wk_states :: "dir_state list"
  wk_work :: "('cd, 'ad, 'vd, 'rx) walk_task list"
  wk_tasks :: "('cd, 'ad, 'vd, 'rx) walk_task unqueued_tasks"

definition upd_state ::
  "nat \<Rightarrow> (dir_state \<Rightarrow> dir_state) \<Rightarrow> ('cs, 'cd, 'as, 'ad, 'vs, 'vd, 'rx) walk \<Rightarrow> ('cs, 'cd, 'as, 'ad, 'vs, 'vd, 'rx) walk" where
  "upd_state i f wk = wk\<lparr>wk_states := (wk_states wk)[i := f (wk_states wk ! i)]\<rparr>"

definition fail :: "nat \<Rightarrow> ('cs, 'cd, 'as, 'ad, 'vs, 'vd, 'rx) walk \<Rightarrow> ('cs, 'cd, 'as, 'ad, 'vs, 'vd, 'rx) walk" where
  "fail i = upd_state i (\<lambda>d. d\<lparr>ds_success := False\<rparr>)"

definition push_work ::
  "('cd, 'ad, 'vd, 'rx) walk_task \<Rightarrow> ('cs, 'cd, 'as, 'ad, 'vs, 'vd, 'rx) walk \<Rightarrow> ('cs, 'cd, 'as, 'ad, 'vs, 'vd, 'rx) walk" where
  "push_work t wk = wk\<lparr>wk_work := t # wk_work wk\<rparr>"

subsection \<open>Finishing\<close>

definition finish_task_in_dir ::
  "nat \<Rightarrow> nat \<Rightarrow> ('cs, 'cd, 'as, 'ad, 'vs, 'vd, 'rx) walk \<Rightarrow> ('cs, 'cd, 'as, 'ad, 'vs, 'vd, 'rx) walk option" where
  "finish_task_in_dir i sub wk =
     (let wk1 = upd_state i (\<lambda>d. d\<lparr>ds_success := ds_success d \<and> ds_success (wk_states wk ! sub)\<rparr>) wk;
          wk2 = upd_state i (\<lambda>d. d\<lparr>ds_empty := ds_empty d \<and> ds_empty (wk_states wk1 ! sub)\<rparr>) wk1;
          old = ds_pending (wk_states wk2 ! i);
          wk3 = upd_state i (\<lambda>d. d\<lparr>ds_pending := old - 1\<rparr>) wk2
      in if old = 0 then None
         else if old = 1 then
           Option.bind (unqueued_get (ds_on_complete (wk_states wk3 ! i)) (wk_tasks wk3)) (\<lambda>(tasks, t).
             Some (push_work t (wk3\<lparr>wk_tasks := tasks\<rparr>)))
         else Some wk3)"

definition mark_clean ::
  "('s, 'd, 'i, 'o, 'z) replica_scheme \<Rightarrow> 's \<Rightarrow> 'd \<Rightarrow> replica_side \<Rightarrow> os_string \<Rightarrow> ('s \<times> logs \<times> bool) option" where
  "mark_clean rep s d side dir_path =
     Option.bind (r_set_dir_clean rep s d) (\<lambda>(s1, r).
       case r of
         Inr clean \<Rightarrow> Some (s1, [], clean)
       | Inl e \<Rightarrow> Some (s1, [log_error side dir_path OpMarkClean e], False))"

definition mark_both_clean ::
  "('cs, 'cd, 'as, 'ad, 'vs, 'vd, 'x, 'y, 'ai, 'ao, 'rx) recon_context \<Rightarrow> ('cd, 'ad, 'vd, 'rx) dir_context \<Rightarrow>
   ('cs, 'as, 'vs) world \<Rightarrow> (('cs, 'as, 'vs) world \<times> bool) option" where
  "mark_both_clean ctx dir w =
     (let dir_path = r_full_path (ctx_cli ctx) (sd_dir (dc_cli dir)) in
      Option.bind (mark_clean (ctx_cli ctx) (w_cli w) (sd_dir (dc_cli dir)) SideClient dir_path) (\<lambda>(cs, lg, ok).
        let w1 = add_logs lg (w\<lparr>w_cli := cs\<rparr>) in
        if \<not> ok then Some (w1, False)
        else Option.bind (mark_clean (ctx_srv ctx) (w_srv w1) (sd_dir (dc_srv dir)) SideServer dir_path) (\<lambda>(vs, lg2, ok2).
          Some (add_logs lg2 (w1\<lparr>w_srv := vs\<rparr>), ok2))))"

definition try_rmdir ::
  "('s, 'd, 'i, 'o, 'z) replica_scheme \<Rightarrow> 's \<Rightarrow> 'd \<Rightarrow> os_string \<Rightarrow> replica_side \<Rightarrow> ('s \<times> logs \<times> bool) option" where
  "try_rmdir rep s d dir_path side =
     Option.bind (r_rmdir rep s d) (\<lambda>(s1, d1, r).
       case r of
         Inr _ \<Rightarrow> Some (s1, [(EDIT, LRmdir side dir_path)], True)
       | Inl e \<Rightarrow> Some (s1, [(EDIT, LRmdir side dir_path), log_error side dir_path OpRmdir e], False))"

definition delete_or_mark_clean ::
  "('cs, 'cd, 'as, 'ad, 'vs, 'vd, 'x, 'y, 'ai, 'ao, 'rx) recon_context \<Rightarrow> ('cd, 'ad, 'vd, 'rx) dir_context \<Rightarrow> bool \<Rightarrow>
   ('cs, 'as, 'vs) world \<Rightarrow> (('cs, 'as, 'vs) world \<times> bool) option" where
  "delete_or_mark_clean ctx dir emp w =
     (if emp then
        let dir_path = r_full_path (ctx_cli ctx) (sd_dir (dc_cli dir)) in
        Option.bind (try_rmdir (ctx_anc ctx) (w_anc w) (sd_dir (dc_anc dir)) dir_path SideAncestor) (\<lambda>(as, lg, ok).
          let w1 = add_logs lg (w\<lparr>w_anc := as\<rparr>) in
          if \<not> ok then Some (w1, False)
          else Option.bind (try_rmdir (ctx_cli ctx) (w_cli w1) (sd_dir (dc_cli dir)) dir_path SideClient) (\<lambda>(cs, lg2, ok2).
            let w2 = add_logs lg2 (w1\<lparr>w_cli := cs\<rparr>) in
            if \<not> ok2 then Some (w2, False)
            else Option.bind (try_rmdir (ctx_srv ctx) (w_srv w2) (sd_dir (dc_srv dir)) dir_path SideServer) (\<lambda>(vs, lg3, ok3).
              Some (add_logs lg3 (w2\<lparr>w_srv := vs\<rparr>), ok3))))
      else mark_both_clean ctx dir w)"

fun run_on_success ::
  "('cs, 'cd, 'as, 'ad, 'vs, 'vd, 'x, 'y, 'ai, 'ao, 'rx) recon_context \<Rightarrow> on_success \<Rightarrow>
   ('cd, 'ad, 'vd, 'rx) dir_context \<Rightarrow> bool \<Rightarrow> ('cs, 'as, 'vs) world \<Rightarrow> (('cs, 'as, 'vs) world \<times> bool) option" where
  "run_on_success ctx MarkBothClean dir emp w = mark_both_clean ctx dir w"
| "run_on_success ctx DeleteOrMarkClean dir emp w = delete_or_mark_clean ctx dir emp w"

subsection \<open>Recursing\<close>

definition recurse_and_then ::
  "'cd \<Rightarrow> 'ad \<Rightarrow> 'vd \<Rightarrow> 'rx file_engine \<Rightarrow> nat \<Rightarrow> on_success \<Rightarrow>
   ('cs, 'cd, 'as, 'ad, 'vs, 'vd, 'rx) walk \<Rightarrow> ('cs, 'cd, 'as, 'ad, 'vs, 'vd, 'rx) walk" where
  "recurse_and_then cli_dir anc_dir srv_dir file_rules i os wk =
     push_work (ProcessTask cli_dir anc_dir srv_dir file_rules i os)
       (upd_state i (\<lambda>d. d\<lparr>ds_pending := ds_pending d + 1\<rparr>) wk)"

definition try_chdir ::
  "('s, 'd, 'i, 'o, 'z) replica_scheme \<Rightarrow> 's \<Rightarrow> 'd \<Rightarrow> os_string \<Rightarrow> os_string \<Rightarrow> replica_side \<Rightarrow>
   ('s \<times> logs \<times> 'd option) option" where
  "try_chdir rep s parent parent_name name side =
     Option.bind (r_chdir rep s parent name) (\<lambda>(s1, r).
       case r of
         Inr d \<Rightarrow> Some (s1, [], Some d)
       | Inl e \<Rightarrow> Some (s1, [log_error side parent_name (OpChdir name) e], None))"

definition recurse_into_dir ::
  "('cs, 'cd, 'as, 'ad, 'vs, 'vd, 'x, 'y, 'ai, 'ao, 'rx) recon_context \<Rightarrow> ('cd, 'ad, 'vd, 'rx) dir_context \<Rightarrow>
   os_string \<Rightarrow> os_string \<Rightarrow> 'rx file_engine \<Rightarrow> nat \<Rightarrow> ('cs, 'cd, 'as, 'ad, 'vs, 'vd, 'rx) walk \<Rightarrow>
   ('cs, 'cd, 'as, 'ad, 'vs, 'vd, 'rx) walk option" where
  "recurse_into_dir ctx dir parent_name name file_rules i wk =
     (let w = wk_world wk in
      Option.bind (try_chdir (ctx_cli ctx) (w_cli w) (sd_dir (dc_cli dir)) parent_name name SideClient) (\<lambda>(cs, lg1, c).
      Option.bind (try_chdir (ctx_anc ctx) (w_anc w) (sd_dir (dc_anc dir)) parent_name name SideAncestor) (\<lambda>(as, lg2, a).
      Option.bind (try_chdir (ctx_srv ctx) (w_srv w) (sd_dir (dc_srv dir)) parent_name name SideServer) (\<lambda>(vs, lg3, v).
        let w1 = add_logs (lg1 @ lg2 @ lg3) (w\<lparr>w_cli := cs, w_anc := as, w_srv := vs\<rparr>); wk1 = wk\<lparr>wk_world := w1\<rparr>
        in case (c, a, v) of
             (Some cd, Some ad, Some vd) \<Rightarrow>
               Some (if r_is_dir_dirty (ctx_cli ctx) cs cd \<or> r_is_dir_dirty (ctx_srv ctx) vs vd
                     then recurse_and_then cd ad vd file_rules i MarkBothClean wk1 else wk1)
           | _ \<Rightarrow> Some (fail i wk1)))))"

definition chdir_or_synth ::
  "('s, 'd, 'i, 'o, 'z) replica_scheme \<Rightarrow> 's \<Rightarrow> 'd \<Rightarrow> reconciliation_side \<Rightarrow> reconciliation_side \<Rightarrow> os_string \<Rightarrow> os_string \<Rightarrow>
   file_mode \<Rightarrow> ('s \<times> 'd \<times> logs \<times> 'd option) option" where
  "chdir_or_synth rep s d this_side phys_side parent_name name mode =
     (if this_side = phys_side then
        Option.bind (try_chdir rep s d parent_name name (side_of this_side)) (\<lambda>(s1, lg, r). Some (s1, d, lg, r))
      else Option.bind (r_synthdir rep s d name mode) (\<lambda>(s1, d1, sub). Some (s1, d1, [], Some sub)))"

text \<open>The ancestor's directory: its error is dropped.\<close>

definition chdir_else_synth ::
  "('s, 'd, 'i, 'o, 'z) replica_scheme \<Rightarrow> 's \<Rightarrow> 'd \<Rightarrow> os_string \<Rightarrow> file_mode \<Rightarrow> ('s \<times> 'd \<times> 'd) option" where
  "chdir_else_synth rep s d name mode =
     Option.bind (r_chdir rep s d name) (\<lambda>(s1, r).
       case r of Inr sub \<Rightarrow> Some (s1, d, sub) | Inl _ \<Rightarrow> r_synthdir rep s1 d name mode)"

definition recursive_delete ::
  "('cs, 'cd, 'as, 'ad, 'vs, 'vd, 'x, 'y, 'ai, 'ao, 'rx) recon_context \<Rightarrow> ('cd, 'ad, 'vd, 'rx) dir_context \<Rightarrow>
   os_string \<Rightarrow> os_string \<Rightarrow> 'rx file_engine \<Rightarrow> nat \<Rightarrow> reconciliation_side \<Rightarrow> file_mode \<Rightarrow>
   ('cs, 'cd, 'as, 'ad, 'vs, 'vd, 'rx) walk \<Rightarrow>
   (('cs, 'cd, 'as, 'ad, 'vs, 'vd, 'rx) walk \<times> ('cd, 'ad, 'vd, 'rx) dir_context) option" where
  "recursive_delete ctx dir parent_name name file_rules i side mode wk =
     (let w = wk_world wk in
      Option.bind (chdir_or_synth (ctx_cli ctx) (w_cli w) (sd_dir (dc_cli dir)) Client side parent_name name mode)
        (\<lambda>(cs, cdir, lg1, c).
      Option.bind (chdir_else_synth (ctx_anc ctx) (w_anc w) (sd_dir (dc_anc dir)) name mode) (\<lambda>(as, adir, ad).
      Option.bind (chdir_or_synth (ctx_srv ctx) (w_srv w) (sd_dir (dc_srv dir)) Server side parent_name name mode)
        (\<lambda>(vs, vdir, lg3, v).
        let w1 = add_logs (lg1 @ lg3) (w\<lparr>w_cli := cs, w_anc := as, w_srv := vs\<rparr>);
            dir1 = dir\<lparr>dc_cli := (dc_cli dir)\<lparr>sd_dir := cdir\<rparr>, dc_anc := (dc_anc dir)\<lparr>sd_dir := adir\<rparr>,
                       dc_srv := (dc_srv dir)\<lparr>sd_dir := vdir\<rparr>\<rparr>
        in case (c, v) of
             (Some cd, Some vd) \<Rightarrow>
               Some (recurse_and_then cd ad vd file_rules i DeleteOrMarkClean
                 (wk\<lparr>wk_world := add_logs [(EDIT, LRecursiveDelete (side_of side) (r_full_path (ctx_cli ctx) cd))] w1\<rparr>), dir1)
           | _ \<Rightarrow> Some (fail i (wk\<lparr>wk_world := w1\<rparr>), dir1)))))"

subsection \<open>One file\<close>

definition in_no_table :: "('cd, 'ad, 'vd, 'rx) dir_context \<Rightarrow> os_string \<Rightarrow> bool" where
  "in_no_table dir name =
     (\<not> table_has (sd_files (dc_cli dir)) name \<and> \<not> table_has (sd_files (dc_anc dir)) name \<and>
      \<not> table_has (sd_files (dc_srv dir)) name)"

definition or_else :: "'a option \<Rightarrow> 'a option \<Rightarrow> 'a option" where
  "or_else x y = (case x of None \<Rightarrow> y | Some _ \<Rightarrow> x)"

text \<open>The client's data as it is reconciled: with the mode of the other side when the rules do not
  trust the client's.\<close>

definition effective_cli :: "bool \<Rightarrow> file_data option \<Rightarrow> file_data option \<Rightarrow> file_data option \<Rightarrow> file_data option" where
  "effective_cli trust cli anc srv =
     (case cli of
        None \<Rightarrow> None
      | Some c \<Rightarrow>
          if trust then Some c
          else case or_else srv anc of Some other \<Rightarrow> Some (transrich_unix_mode c other) | None \<Rightarrow> Some c)"

definition process_file ::
  "('cs, 'cd, 'as, 'ad, 'vs, 'vd, 'x, 'y, 'ai, 'ao, 'rx) recon_context \<Rightarrow> os_string \<Rightarrow> os_string \<Rightarrow> nat \<Rightarrow>
   ('cs, 'cd, 'as, 'ad, 'vs, 'vd, 'rx) walk \<Rightarrow> ('cd, 'ad, 'vd, 'rx) dir_context \<Rightarrow>
   (('cs, 'cd, 'as, 'ad, 'vs, 'vd, 'rx) walk \<times> ('cd, 'ad, 'vd, 'rx) dir_context) option" where
  "process_file ctx dir_path name i wk dir =
     (let cli = map_of (sd_files (dc_cli dir)) name; anc = map_of (sd_files (dc_anc dir)) name;
          srv = map_of (sd_files (dc_srv dir)) name in
      Option.bind (or_else (or_else cli anc) srv) (\<lambda>data.
      Option.bind (dir_engine_file (ctx_rx_match ctx) (dc_rules dir) (name, data)) (\<lambda>rules.
        let cli' = effective_cli (fe_trust_client_unix_mode rules) cli anc srv in
        case choose_reconciliation cli' anc srv (fe_sync_mode rules) of
          (recon, conflict) \<Rightarrow>
            Option.bind (apply_reconciliation ctx
                (log_entry (if conflict \<noteq> NoConflict then WARN else INFO) (LInspect dir_path name recon conflict) (wk_world wk))
                dir dir_path name recon cli' srv) (\<lambda>(w1, dir1, res).
              let wk1 = wk\<lparr>wk_world := w1\<rparr> in
              case res of
                ApplyClean False \<Rightarrow>
                  Some (upd_state i (\<lambda>d. d\<lparr>ds_empty := ds_empty d \<and> in_no_table dir1 name\<rparr>) wk1, dir1)
              | ApplyFail \<Rightarrow> Some (fail i wk1, dir1)
              | ApplyClean True \<Rightarrow>
                  Option.bind (recurse_into_dir ctx dir1 dir_path name rules i
                    (upd_state i (\<lambda>d. d\<lparr>ds_empty := False\<rparr>) wk1)) (\<lambda>wk2. Some (wk2, dir1))
              | ApplyRecursiveDelete side mode \<Rightarrow>
                  recursive_delete ctx dir1 dir_path name rules i side mode wk1))))"

subsection \<open>One directory\<close>

fun collect_list ::
  "('rx \<Rightarrow> string \<Rightarrow> bool) \<Rightarrow> named_file list \<Rightarrow> 'rx dir_engine_builder option \<Rightarrow> file_data file_table \<Rightarrow>
   ('rx dir_engine_builder option \<times> file_data file_table) option" where
  "collect_list rx_match [] rb ret = Some (rb, ret)"
| "collect_list rx_match ((name, v) # rest) rb ret =
     (case rb of
        None \<Rightarrow> collect_list rx_match rest None (AList.update name v ret)
      | Some b \<Rightarrow>
          Option.bind (builder_contains rx_match (name, v) b) (\<lambda>b1.
            collect_list rx_match rest (Some b1) (AList.update name v ret)))"

definition read_dir_contents ::
  "('rx \<Rightarrow> string \<Rightarrow> bool) \<Rightarrow> ('s, 'd, 'i, 'o, 'z) replica_scheme \<Rightarrow> 's \<Rightarrow> 'd \<Rightarrow> os_string \<Rightarrow> 'rx dir_engine_builder option \<Rightarrow>
   replica_side \<Rightarrow> ('s \<times> 'd \<times> logs \<times> (error + 'rx dir_engine_builder option \<times> file_data file_table)) option" where
  "read_dir_contents rx_match rep s d dir_path rb side =
     Option.bind (r_list rep s d) (\<lambda>(s1, d1, r).
       case r of
         Inl e \<Rightarrow> Some (s1, d1, [log_error side dir_path OpList e], Inl e)
       | Inr fs \<Rightarrow>
           Option.bind (collect_list rx_match fs rb []) (\<lambda>(rb1, files). Some (s1, d1, [], Inr (rb1, files))))"

definition initial_todo :: "('cd, 'ad, 'vd, 'rx) dir_context \<Rightarrow> os_string list" where
  "initial_todo dir =
     foldl (\<lambda>q n. heap_push n q) []
       (remdups (map fst (sd_files (dc_cli dir)) @ map fst (sd_files (dc_anc dir)) @ map fst (sd_files (dc_srv dir))))"

partial_function (option) todo_loop ::
  "('cs, 'cd, 'as, 'ad, 'vs, 'vd, 'x, 'y, 'ai, 'ao, 'rx) recon_context \<Rightarrow> os_string \<Rightarrow> nat \<Rightarrow>
   ('cs, 'cd, 'as, 'ad, 'vs, 'vd, 'rx) walk \<Rightarrow> ('cd, 'ad, 'vd, 'rx) dir_context \<Rightarrow>
   (('cs, 'cd, 'as, 'ad, 'vs, 'vd, 'rx) walk \<times> ('cd, 'ad, 'vd, 'rx) dir_context) option" where
  "todo_loop ctx dir_path i wk dir =
     (case heap_pop (dc_todo dir) of
        None \<Rightarrow> Some (wk, dir)
      | Some (name, todo) \<Rightarrow>
          Option.bind (process_file ctx dir_path name i wk (dir\<lparr>dc_todo := todo\<rparr>)) (\<lambda>(wk1, dir1).
            todo_loop ctx dir_path i wk1 dir1))"

declare todo_loop.simps [code]

text \<open>The three listings, in the order client, ancestor, server, each stopping at an error.\<close>

definition read_all ::
  "('cs, 'cd, 'as, 'ad, 'vs, 'vd, 'x, 'y, 'ai, 'ao, 'rx) recon_context \<Rightarrow> 'cd \<Rightarrow> 'ad \<Rightarrow> 'vd \<Rightarrow> 'rx dir_engine_builder \<Rightarrow>
   ('cs, 'as, 'vs) world \<Rightarrow> (('cs, 'as, 'vs) world \<times> ('cd, 'ad, 'vd, 'rx) dir_context res) option" where
  "read_all ctx cli_dir anc_dir srv_dir builder w =
     (let dir_path = r_full_path (ctx_cli ctx) cli_dir in
      Option.bind (read_dir_contents (ctx_rx_match ctx) (ctx_cli ctx) (w_cli w) cli_dir dir_path (Some builder) SideClient)
        (\<lambda>(cs, cd, lg1, r1).
          let w1 = add_logs lg1 (w\<lparr>w_cli := cs\<rparr>) in
          case r1 of
            Inl e \<Rightarrow> Some (w1, Inl e)
          | Inr (rb1, cfiles) \<Rightarrow>
      Option.bind (read_dir_contents (ctx_rx_match ctx) (ctx_anc ctx) (w_anc w1) anc_dir dir_path None SideAncestor)
        (\<lambda>(as, ad, lg2, r2).
          let w2 = add_logs lg2 (w1\<lparr>w_anc := as\<rparr>) in
          case r2 of
            Inl e \<Rightarrow> Some (w2, Inl e)
          | Inr (_, afiles) \<Rightarrow>
      Option.bind (read_dir_contents (ctx_rx_match ctx) (ctx_srv ctx) (w_srv w2) srv_dir dir_path rb1 SideServer)
        (\<lambda>(vs, vd, lg3, r3).
          let w3 = add_logs lg3 (w2\<lparr>w_srv := vs\<rparr>) in
          case r3 of
            Inl e \<Rightarrow> Some (w3, Inl e)
          | Inr (rb3, vfiles) \<Rightarrow>
      Option.bind rb3 (\<lambda>b.
      Option.bind (builder_build b) (\<lambda>rules.
        Some (w3, Inr \<lparr>dc_cli = \<lparr>sd_dir = cd, sd_files = cfiles\<rparr>, dc_anc = \<lparr>sd_dir = ad, sd_files = afiles\<rparr>,
          dc_srv = \<lparr>sd_dir = vd, sd_files = vfiles\<rparr>, dc_todo = [], dc_rules = rules\<rparr>)))))))"

definition check_stop ::
  "('cs, 'cd, 'as, 'ad, 'vs, 'vd, 'x, 'y, 'ai, 'ao, 'rx) recon_context \<Rightarrow> ('cs, 'as, 'vs) world \<Rightarrow>
   ('cs, 'as, 'vs) world \<times> unit res" where
  "check_stop ctx w = (case should_stop ctx w of (w1, stop) \<Rightarrow> (w1, if stop then Inl (err ReconciliationStopped) else Inr ()))"

text \<open>The part of \<open>process_dir_impl\<close> after the context is set up; \<open>parent\<close> and \<open>os\<close> are what
  the supplied completion captures.\<close>

definition process_contents ::
  "('cs, 'cd, 'as, 'ad, 'vs, 'vd, 'x, 'y, 'ai, 'ao, 'rx) recon_context \<Rightarrow> os_string \<Rightarrow> nat \<Rightarrow> on_success \<Rightarrow>
   ('cd, 'ad, 'vd, 'rx) dir_context \<Rightarrow> ('cs, 'cd, 'as, 'ad, 'vs, 'vd, 'rx) walk \<Rightarrow>
   ('cs, 'cd, 'as, 'ad, 'vs, 'vd, 'rx) walk option" where
  "process_contents ctx dir_path parent os dir wk =
     (let i = length (wk_states wk); wk1 = wk\<lparr>wk_states := wk_states wk @ [dir_state_new]\<rparr> in
      Option.bind (todo_loop ctx dir_path i wk1 (dir\<lparr>dc_todo := initial_todo dir\<rparr>)) (\<lambda>(wk2, dir2).
      Option.bind (unqueued_put (CompleteTask dir2 i parent os) (wk_tasks wk2)) (\<lambda>(tasks, k).
        finish_task_in_dir i i (upd_state i (\<lambda>d. d\<lparr>ds_on_complete := k\<rparr>) (wk2\<lparr>wk_tasks := tasks\<rparr>)))))"

definition process_dir ::
  "('cs, 'cd, 'as, 'ad, 'vs, 'vd, 'x, 'y, 'ai, 'ao, 'rx) recon_context \<Rightarrow> 'cd \<Rightarrow> 'ad \<Rightarrow> 'vd \<Rightarrow> 'rx dir_engine_builder \<Rightarrow>
   nat \<Rightarrow> on_success \<Rightarrow> ('cs, 'cd, 'as, 'ad, 'vs, 'vd, 'rx) walk \<Rightarrow>
   (('cs, 'cd, 'as, 'ad, 'vs, 'vd, 'rx) walk \<times> bool) option" where
  "process_dir ctx cli_dir anc_dir srv_dir builder parent os wk =
     (case check_stop ctx (wk_world wk) of
        (w1, Inl e) \<Rightarrow> Some (wk\<lparr>wk_world := w1\<rparr>, False)
      | (w1, Inr _) \<Rightarrow>
          Option.bind (read_all ctx cli_dir anc_dir srv_dir builder w1) (\<lambda>(w2, r).
            case r of
              Inl e \<Rightarrow> Some (wk\<lparr>wk_world := w2\<rparr>, False)
            | Inr dir \<Rightarrow>
                Option.bind (process_contents ctx (r_full_path (ctx_cli ctx) cli_dir) parent os dir (wk\<lparr>wk_world := w2\<rparr>))
                  (\<lambda>wk1. Some (wk1, True))))"

subsection \<open>Tasks\<close>

fun run_task ::
  "('cs, 'cd, 'as, 'ad, 'vs, 'vd, 'x, 'y, 'ai, 'ao, 'rx) recon_context \<Rightarrow> ('cd, 'ad, 'vd, 'rx) walk_task \<Rightarrow>
   ('cs, 'cd, 'as, 'ad, 'vs, 'vd, 'rx) walk \<Rightarrow> ('cs, 'cd, 'as, 'ad, 'vs, 'vd, 'rx) walk option" where
  "run_task ctx (ProcessTask cli_dir anc_dir srv_dir file_rules i os) wk =
     Option.bind (process_dir ctx cli_dir anc_dir srv_dir (subdir file_rules) i os wk) (\<lambda>(wk1, success).
       if success then Some wk1 else finish_task_in_dir i i (fail i wk1))"
| "run_task ctx (CompleteTask dir sub i os) wk =
     Option.bind
       (if ds_success (wk_states wk ! sub) then
          Option.bind (run_on_success ctx os dir (ds_empty (wk_states wk ! sub)) (wk_world wk)) (\<lambda>(w1, ok).
            let wk1 = wk\<lparr>wk_world := w1\<rparr> in Some (if ok then wk1 else fail sub wk1))
        else Some wk)
       (finish_task_in_dir i sub)"

definition start_root ::
  "('cs, 'cd, 'as, 'ad, 'vs, 'vd, 'x, 'y, 'ai, 'ao, 'rx) recon_context \<Rightarrow> ('cs, 'as, 'vs) world \<Rightarrow>
   (('cs, 'cd, 'as, 'ad, 'vs, 'vd, 'rx) walk \<times> nat res) option" where
  "start_root ctx w =
     (let wk = \<lparr>wk_world = w, wk_states = [dir_state_new], wk_work = [], wk_tasks = unqueued_new\<rparr> in
      Option.bind (r_root (ctx_cli ctx) (w_cli w)) (\<lambda>(cs, c).
        let w1 = w\<lparr>w_cli := cs\<rparr> in
        case c of
          Inl e \<Rightarrow> Some (wk\<lparr>wk_world := w1\<rparr>, Inl e)
        | Inr cd \<Rightarrow> Option.bind (r_root (ctx_anc ctx) (w_anc w1)) (\<lambda>(as, a).
            let w2 = w1\<lparr>w_anc := as\<rparr> in
            case a of
              Inl e \<Rightarrow> Some (wk\<lparr>wk_world := w2\<rparr>, Inl e)
            | Inr ad \<Rightarrow> Option.bind (r_root (ctx_srv ctx) (w_srv w2)) (\<lambda>(vs, v).
                let w3 = w2\<lparr>w_srv := vs\<rparr> in
                case v of
                  Inl e \<Rightarrow> Some (wk\<lparr>wk_world := w3\<rparr>, Inl e)
                | Inr vd \<Rightarrow>
                    Some (recurse_and_then cd ad vd (ctx_root_rules ctx) 0 MarkBothClean (wk\<lparr>wk_world := w3\<rparr>), Inr 0)))))"

inductive walk_step ::
  "('cs, 'cd, 'as, 'ad, 'vs, 'vd, 'x, 'y, 'ai, 'ao, 'rx) recon_context \<Rightarrow>
   ('cs, 'cd, 'as, 'ad, 'vs, 'vd, 'rx) walk \<Rightarrow> ('cs, 'cd, 'as, 'ad, 'vs, 'vd, 'rx) walk \<Rightarrow> bool"
  for ctx where
  run: "wk_work wk = xs @ t # ys \<Longrightarrow> run_task ctx t (wk\<lparr>wk_work := xs @ ys\<rparr>) = Some wk' \<Longrightarrow> walk_step ctx wk wk'"

text \<open>\<open>run_work\<close> with one thread takes the task queued last.\<close>

definition run_next ::
  "('cs, 'cd, 'as, 'ad, 'vs, 'vd, 'x, 'y, 'ai, 'ao, 'rx) recon_context \<Rightarrow>
   ('cs, 'cd, 'as, 'ad, 'vs, 'vd, 'rx) walk \<Rightarrow> ('cs, 'cd, 'as, 'ad, 'vs, 'vd, 'rx) walk option" where
  "run_next ctx wk = (case wk_work wk of [] \<Rightarrow> None | t # ts \<Rightarrow> run_task ctx t (wk\<lparr>wk_work := ts\<rparr>))"

text \<open>A client with an empty directory \<open>d\<close>.\<close>

definition demo_tree :: "(mem_state, anc_state, mem_state) world" where
  "demo_tree = demo_world\<lparr>w_cli := mem_empty\<lparr>ms_dirs :=
     [([], mem_directory_default\<lparr>md_contents := [(''d'', DirectoryEntry 493)]\<rparr>), (''/d'', mem_directory_default)]\<rparr>\<rparr>"

subsection \<open>The log\<close>

text \<open>The log grows, and when the operation succeeds it grows by no error.\<close>

definition no_errors :: "logs \<Rightarrow> bool" where
  "no_errors lg = list_all (\<lambda>e. \<not> is_error_entry (snd e)) lg"

definition logged :: "bool \<Rightarrow> ('cs, 'as, 'vs) world \<Rightarrow> ('cs, 'as, 'vs) world \<Rightarrow> bool" where
  "logged ok w w' = (\<exists>lg. w_log w' = w_log w @ lg \<and> (ok \<longrightarrow> no_errors lg))"

subsection \<open>Accounting\<close>

fun task_parent :: "('cd, 'ad, 'vd, 'rx) walk_task \<Rightarrow> nat" where
  "task_parent (ProcessTask _ _ _ _ i _) = i"
| "task_parent (CompleteTask _ _ i _) = i"

fun task_sub :: "('cd, 'ad, 'vd, 'rx) walk_task \<Rightarrow> nat option" where
  "task_sub (ProcessTask _ _ _ _ _ _) = None"
| "task_sub (CompleteTask _ sub _ _) = Some sub"

text \<open>What processing the files of directory \<open>i\<close> does to the walk: it queues tasks for
  \<open>i\<close> and counts them, may clear the flags of \<open>i\<close>, and clears \<open>success\<close> when an error is
  logged.\<close>

definition grows ::
  "nat \<Rightarrow> ('cs, 'cd, 'as, 'ad, 'vs, 'vd, 'rx) walk \<Rightarrow> ('cs, 'cd, 'as, 'ad, 'vs, 'vd, 'rx) walk \<Rightarrow> bool" where
  "grows i wk wk' =
     (wk_tasks wk' = wk_tasks wk \<and> length (wk_states wk') = length (wk_states wk) \<and>
      (\<forall>j. j \<noteq> i \<longrightarrow> wk_states wk' ! j = wk_states wk ! j) \<and>
      (\<exists>ts. wk_work wk' = ts @ wk_work wk \<and> list_all (\<lambda>t. task_parent t = i \<and> task_sub t = None) ts \<and>
        ds_pending (wk_states wk' ! i) = ds_pending (wk_states wk ! i) + length ts) \<and>
      (ds_success (wk_states wk' ! i) \<longrightarrow> ds_success (wk_states wk ! i)) \<and>
      logged (ds_success (wk_states wk' ! i)) (wk_world wk) (wk_world wk'))"

text \<open>
  The invariant between tasks. \<open>par\<close> is the parent of each directory state, which no state of the
  program records. The pending count of a directory is the number of its outstanding tasks, queued
  or stored, plus the share \<open>extra\<close> of a task that is running (and one that is never given
  back for the root). Exactly the directories with pending tasks have their completion stored under
  their id. A directory that failed and is completed (and is not in \<open>late\<close>) has made
  its parent fail.
\<close>

definition task_bag :: "('cs, 'cd, 'as, 'ad, 'vs, 'vd, 'rx) walk \<Rightarrow> ('cd, 'ad, 'vd, 'rx) walk_task multiset" where
  "task_bag wk = mset (wk_work wk) + mset (map snd (ut_tasks (wk_tasks wk)))"

definition tree_ok :: "nat list \<Rightarrow> nat \<Rightarrow> bool" where
  "tree_ok par n = (0 < n \<and> length par = n \<and> (\<forall>i. 0 < i \<and> i < n \<longrightarrow> par ! i < i))"

definition bag_ok :: "nat list \<Rightarrow> nat \<Rightarrow> ('cd, 'ad, 'vd, 'rx) walk_task multiset \<Rightarrow> bool" where
  "bag_ok par n B =
     ((\<forall>t \<in># B. task_parent t < n \<and> (\<forall>s. task_sub t = Some s \<longrightarrow> 0 < s \<and> s < n \<and> par ! s = task_parent t)) \<and>
      (\<forall>i. size (filter_mset (\<lambda>t. task_sub t = Some i) B) \<le> 1))"

definition counts_ok :: "(nat \<Rightarrow> nat) \<Rightarrow> dir_state list \<Rightarrow> ('cd, 'ad, 'vd, 'rx) walk_task multiset \<Rightarrow> bool" where
  "counts_ok extra sts B =
     (\<forall>i < length sts. ds_pending (sts ! i) =
        size (filter_mset (\<lambda>t. task_parent t = i) B) + (if i = 0 then 1 else 0) + extra i)"

definition stored_ok :: "dir_state list \<Rightarrow> (usize \<times> ('cd, 'ad, 'vd, 'rx) walk_task) list \<Rightarrow> bool" where
  "stored_ok sts ut =
     (distinct (map fst ut) \<and>
      (\<forall>i. 0 < i \<and> i < length sts \<and> 0 < ds_pending (sts ! i) \<longrightarrow>
         (\<exists>t. map_of ut (ds_on_complete (sts ! i)) = Some t \<and> task_sub t = Some i)) \<and>
      (\<forall>k t. map_of ut k = Some t \<longrightarrow>
         (\<exists>i. 0 < i \<and> i < length sts \<and> task_sub t = Some i \<and> ds_on_complete (sts ! i) = k \<and> 0 < ds_pending (sts ! i))))"

definition failures_ok :: "nat list \<Rightarrow> nat set \<Rightarrow> dir_state list \<Rightarrow> ('cd, 'ad, 'vd, 'rx) walk_task multiset \<Rightarrow> bool" where
  "failures_ok par late sts B =
     (\<forall>i. 0 < i \<and> i < length sts \<and> i \<notin> late \<and> (\<forall>t \<in># B. task_sub t \<noteq> Some i) \<and> \<not> ds_success (sts ! i) \<longrightarrow>
        \<not> ds_success (sts ! (par ! i)))"

definition errors_ok :: "dir_state list \<Rightarrow> logs \<Rightarrow> bool" where
  "errors_ok sts lg = (no_errors lg \<or> (\<exists>i < length sts. \<not> ds_success (sts ! i)))"

definition walk_inv ::
  "nat list \<Rightarrow> (nat \<Rightarrow> nat) \<Rightarrow> nat set \<Rightarrow> ('cs, 'cd, 'as, 'ad, 'vs, 'vd, 'rx) walk \<Rightarrow> bool" where
  "walk_inv par extra late wk =
     (tree_ok par (length (wk_states wk)) \<and> bag_ok par (length (wk_states wk)) (task_bag wk) \<and>
      counts_ok extra (wk_states wk) (task_bag wk) \<and> stored_ok (wk_states wk) (ut_tasks (wk_tasks wk)) \<and>
      failures_ok par late (wk_states wk) (task_bag wk) \<and> errors_ok (wk_states wk) (w_log (wk_world wk)))"

definition one_at :: "nat \<Rightarrow> nat \<Rightarrow> nat" where
  "one_at p i = (if i = p then 1 else 0)"

definition finished_state :: "dir_state \<Rightarrow> dir_state \<Rightarrow> dir_state" where
  "finished_state d sub =
     d\<lparr>ds_success := ds_success d \<and> ds_success sub, ds_empty := ds_empty d \<and> ds_empty sub, ds_pending := ds_pending d - 1\<rparr>"

section \<open>Lemmas\<close>

subsection \<open>Errors in the log\<close>

lemma no_errors_simps [simp]:
  "no_errors []" "no_errors (a @ b) = (no_errors a \<and> no_errors b)"
  "no_errors (e # b) = (\<not> is_error_entry (snd e) \<and> no_errors b)"
  by (simp_all add: no_errors_def)

lemma add_logs_simps [simp]:
  "w_log (add_logs lg w) = w_log w @ lg" "w_cli (add_logs lg w) = w_cli w"
  "w_anc (add_logs lg w) = w_anc w" "w_srv (add_logs lg w) = w_srv w"
  by (simp_all add: add_logs_def)

lemma logged_refl [simp]: "logged ok w w"
  by (simp add: logged_def)

lemma logged_same: "w_log w' = w_log w \<Longrightarrow> logged ok w w'"
  by (simp add: logged_def)

lemma logged_add: "w_log w' = w_log w @ lg \<Longrightarrow> (ok \<Longrightarrow> no_errors lg) \<Longrightarrow> logged ok w w'"
  by (auto simp: logged_def)

lemma logged_trans: "logged a w w1 \<Longrightarrow> logged b w1 w2 \<Longrightarrow> (c \<Longrightarrow> a \<and> b) \<Longrightarrow> logged c w w2"
  by (fastforce simp: logged_def)

lemma logged_then: "logged True w w1 \<Longrightarrow> logged c w1 w2 \<Longrightarrow> logged c w w2"
  by (auto intro: logged_trans)

lemma try_replace_ancestor_log:
  "try_replace_ancestor rep s d files dir_name name old new = Some (s', d', files', lg, ok) \<Longrightarrow> ok \<Longrightarrow> no_errors lg"
  by (auto simp: try_replace_ancestor_def to_bool_def split: Option.bind_splits sum.splits)

lemma replace_replica_log:
  "replace_replica dst s d files src s2 d2 dir_name name old new side = Some (s', d', files', s2', lg, Inr q) \<Longrightarrow> no_errors lg"
  by (auto simp: replace_replica_def split: Option.bind_splits sum.splits if_splits option.splits)

lemma try_rename_replica_log:
  "try_rename_replica rep s d files dir_name n n' side = Some (s', d', files', lg, ok) \<Longrightarrow> ok \<Longrightarrow> no_errors lg"
  by (auto simp: try_rename_replica_def split: Option.bind_splits sum.splits option.splits)

lemma apply_use_log:
  assumes "apply_use dst s dc anc as ac src s2 d2 dir_name name old_dst old_src side = Some (s', dc', as', ac', s2', lg, r)"
    and "r \<noteq> Inl ApplyFail"
  shows "no_errors lg"
  using assms try_replace_ancestor_log replace_replica_log
  by (fastforce simp: apply_use_def Let_def split: Option.bind_splits if_splits sum.splits)

lemma set_log:
  "set_anc w dir (as, ad, af, lg, ok) = Some (w', dir', b) \<Longrightarrow> (ok \<Longrightarrow> no_errors lg) \<Longrightarrow> logged b w w' \<and> b = ok"
  "set_cli w dir (cs, cd, cf, lg, ok) = Some (w', dir', b) \<Longrightarrow> (ok \<Longrightarrow> no_errors lg) \<Longrightarrow> logged b w w' \<and> b = ok"
  "set_srv w dir (vs, vd, vf, lg, ok) = Some (w', dir', b) \<Longrightarrow> (ok \<Longrightarrow> no_errors lg) \<Longrightarrow> logged b w w' \<and> b = ok"
  by (auto simp: set_anc_def set_cli_def set_srv_def intro: logged_add)

lemma condemn_step_log: "condemn_step oper dir_name name w dir = Some (w', dir', ok) \<Longrightarrow> logged ok w w'"
  by (auto simp: condemn_step_def to_bool_def split: Option.bind_splits sum.splits dest!: set_log(1))

lemma finish_ancestor_log:
  assumes "finish_ancestor ctx dir_name name new w dir = Some (w', dir', res)"
  shows "logged (res \<noteq> ApplyFail) w w'"
  using assms try_replace_ancestor_log
  by (fastforce simp: finish_ancestor_def split: Option.bind_splits if_splits dest!: set_log(1))

lemma use_finish_log:
  assumes "(case r of Inl x \<Rightarrow> Some (add_logs lg w1, dir1, x)
      | Inr q \<Rightarrow> finish_ancestor ctx dir_name name q (add_logs lg w1) dir1) = Some (w', dir', res)"
    and "w_log w1 = w_log w" and "r \<noteq> Inl ApplyFail \<Longrightarrow> no_errors lg"
  shows "logged (res \<noteq> ApplyFail) w w'"
proof (cases r)
  case (Inl x)
  with assms show ?thesis by (auto intro!: logged_add)
next
  case (Inr q)
  with assms(2,3) have "logged True w (add_logs lg w1)" by (auto intro!: logged_add)
  from logged_trans [OF this finish_ancestor_log] Inr assms(1) show ?thesis by simp
qed

lemma use_client_log:
  "use_client ctx w dir dir_name name old_cli old_srv = Some (w', dir', res) \<Longrightarrow> logged (res \<noteq> ApplyFail) w w'"
  unfolding use_client_def Let_def
  by (auto split: Option.bind_split_asm elim!: use_finish_log dest: apply_use_log)

lemma use_server_log:
  "use_server ctx w dir dir_name name old_cli old_srv = Some (w', dir', res) \<Longrightarrow> logged (res \<noteq> ApplyFail) w w'"
  unfolding use_server_def Let_def
  by (auto split: Option.bind_split_asm elim!: use_finish_log dest: apply_use_log)

lemma bind_set_log:
  "Option.bind m (set_anc w dir) = Some (w', dir', b) \<Longrightarrow> (\<And>s d f lg ok. m = Some (s, d, f, lg, ok) \<Longrightarrow> ok \<Longrightarrow> no_errors lg) \<Longrightarrow>
     logged b w w'"
  "Option.bind m2 (set_cli w dir) = Some (w', dir', b) \<Longrightarrow> (\<And>s d f lg ok. m2 = Some (s, d, f, lg, ok) \<Longrightarrow> ok \<Longrightarrow> no_errors lg) \<Longrightarrow>
     logged b w w'"
  "Option.bind m3 (set_srv w dir) = Some (w', dir', b) \<Longrightarrow> (\<And>s d f lg ok. m3 = Some (s, d, f, lg, ok) \<Longrightarrow> ok \<Longrightarrow> no_errors lg) \<Longrightarrow>
     logged b w w'"
  by (auto split: Option.bind_split_asm dest!: set_log)

lemma split_before_log: "split_before ctx dir_name name st w dir = Some (w', dir', ok) \<Longrightarrow> logged ok w w'"
  by (cases st) (auto elim!: bind_set_log(1) dest: try_replace_ancestor_log condemn_step_log)

lemma split_rename_log: "split_rename ctx dir_name name new side w dir = Some (w', dir', ok) \<Longrightarrow> logged ok w w'"
  by (cases side) (auto elim!: bind_set_log(2,3) dest: try_rename_replica_log)

lemma split_after_log: "split_after ctx dir_name name new st w dir = Some (w', dir', ok) \<Longrightarrow> logged ok w w'"
proof (cases st)
  case Move
  assume "split_after ctx dir_name name new st w dir = Some (w', dir', ok)"
  with Move obtain w1 dir1 ok1 where
    m: "(if \<not> table_has (anc_files dir) name then Some (w, dir, True)
        else Option.bind (try_rename_replica (ctx_anc ctx) (w_anc w) (sd_dir (dc_anc dir)) (anc_files dir)
          dir_name name new SideAncestor) (set_anc w dir)) = Some (w1, dir1, ok1)"
    and c: "(if ok1 then condemn_step (r_uncondemn (ctx_anc ctx)) dir_name name w1 dir1 else Some (w1, dir1, False)) = Some (w', dir', ok)"
    by (auto split: Option.bind_split_asm)
  have "logged ok1 w w1"
    using m by (auto split: if_split_asm elim!: bind_set_log(1) dest: try_rename_replica_log)
  moreover have "logged ok w1 w'" "ok \<Longrightarrow> ok1" using c by (auto split: if_split_asm dest: condemn_step_log)
  ultimately show ?thesis by (blast intro: logged_trans)
qed auto

lemma apply_split_log: "apply_split ctx w dir dir_name name side st = Some (w', dir', ok) \<Longrightarrow> logged ok w w'"
  unfolding apply_split_def
  by (auto split: Option.bind_split_asm if_split_asm dest!: split_before_log split_rename_log split_after_log)
    (blast intro: logged_then)+

lemma apply_reconciliation_log:
  assumes "apply_reconciliation ctx w dir dir_name name recon old_cli old_srv = Some (w', dir', res)"
  shows "logged (res \<noteq> ApplyFail) w w'"
proof (cases "snd (should_stop ctx w)")
  case True
  with assms show ?thesis by (auto simp: apply_reconciliation_def should_stop_def intro: logged_same)
next
  case False
  let ?w = "w\<lparr>w_polls := Suc (w_polls w)\<rparr>"
  have l: "logged (res \<noteq> ApplyFail) ?w w' \<Longrightarrow> logged (res \<noteq> ApplyFail) w w'" by (simp add: logged_def)
  from False assms have a: "(case recon of
           InSync \<Rightarrow> finish_ancestor ctx dir_name name old_cli ?w dir
         | Unsync \<Rightarrow> Some (?w, dir, ApplyClean False)
         | Irreconcilable \<Rightarrow> Some (?w, dir, ApplyClean False)
         | Use Client \<Rightarrow> use_client ctx ?w dir dir_name name old_cli old_srv
         | Use Server \<Rightarrow> use_server ctx ?w dir dir_name name old_cli old_srv
         | Split side anc_state \<Rightarrow>
             Option.bind (apply_split ctx ?w dir dir_name name side anc_state) (\<lambda>(w1, dir1, ok).
               Some (w1, dir1, if ok then ApplyClean False else ApplyFail))) = Some (w', dir', res)"
    by (simp add: apply_reconciliation_def should_stop_def)
  show ?thesis
    by (rule l, insert a)
      (auto split: reconciliation.split_asm reconciliation_side.split_asm Option.bind_split_asm if_split_asm
        dest: finish_ancestor_log use_client_log use_server_log apply_split_log)
qed

subsection \<open>The effect of one directory\<close>

lemma upd_state_simps [simp]:
  "wk_world (upd_state i f wk) = wk_world wk" "wk_work (upd_state i f wk) = wk_work wk"
  "wk_tasks (upd_state i f wk) = wk_tasks wk" "length (wk_states (upd_state i f wk)) = length (wk_states wk)"
  "j \<noteq> i \<Longrightarrow> wk_states (upd_state i f wk) ! j = wk_states wk ! j"
  "i < length (wk_states wk) \<Longrightarrow> wk_states (upd_state i f wk) ! i = f (wk_states wk ! i)"
  by (simp_all add: upd_state_def)

lemma push_work_simps [simp]:
  "wk_world (push_work t wk) = wk_world wk" "wk_work (push_work t wk) = t # wk_work wk"
  "wk_tasks (push_work t wk) = wk_tasks wk" "wk_states (push_work t wk) = wk_states wk"
  by (simp_all add: push_work_def)

lemma grows_trans:
  assumes "grows i wk wk1" "grows i wk1 wk2"
  shows "grows i wk wk2"
proof -
  from assms obtain ts us where
    "wk_work wk1 = ts @ wk_work wk" "list_all (\<lambda>t. task_parent t = i \<and> task_sub t = None) ts"
    "ds_pending (wk_states wk1 ! i) = ds_pending (wk_states wk ! i) + length ts"
    "wk_work wk2 = us @ wk_work wk1" "list_all (\<lambda>t. task_parent t = i \<and> task_sub t = None) us"
    "ds_pending (wk_states wk2 ! i) = ds_pending (wk_states wk1 ! i) + length us"
    by (auto simp: grows_def)
  then have "\<exists>vs. wk_work wk2 = vs @ wk_work wk \<and> list_all (\<lambda>t. task_parent t = i \<and> task_sub t = None) vs \<and>
      ds_pending (wk_states wk2 ! i) = ds_pending (wk_states wk ! i) + length vs"
    by (intro exI [of _ "us @ ts"]) simp
  moreover have "logged (ds_success (wk_states wk2 ! i)) (wk_world wk) (wk_world wk2)"
    using assms by (auto simp: grows_def intro: logged_trans)
  ultimately show ?thesis using assms by (simp add: grows_def)
qed

lemma grows_upd:
  assumes "i < length (wk_states wk)" "logged (ds_success (f (wk_states wk ! i))) (wk_world wk) w"
    "ds_pending (f (wk_states wk ! i)) = ds_pending (wk_states wk ! i)" "ds_success (f (wk_states wk ! i)) \<Longrightarrow> ds_success (wk_states wk ! i)"
  shows "grows i wk (upd_state i f (wk\<lparr>wk_world := w\<rparr>))"
  using assms by (auto simp: grows_def upd_state_def)

lemma grows_world: "logged True (wk_world wk) w \<Longrightarrow> grows i wk (wk\<lparr>wk_world := w\<rparr>)"
  by (auto simp: grows_def elim: logged_trans)

lemma grows_fail: "i < length (wk_states wk) \<Longrightarrow> logged False (wk_world wk) w \<Longrightarrow> grows i wk (fail i (wk\<lparr>wk_world := w\<rparr>))"
  unfolding fail_def by (rule grows_upd) auto

lemma grows_recurse:
  assumes "i < length (wk_states wk)" "logged True (wk_world wk) w"
  shows "grows i wk (recurse_and_then cd ad vd rules i os (wk\<lparr>wk_world := w\<rparr>))"
proof -
  have "\<exists>ts. wk_work (recurse_and_then cd ad vd rules i os (wk\<lparr>wk_world := w\<rparr>)) = ts @ wk_work wk \<and>
      list_all (\<lambda>t. task_parent t = i \<and> task_sub t = None) ts \<and>
      ds_pending (wk_states (recurse_and_then cd ad vd rules i os (wk\<lparr>wk_world := w\<rparr>)) ! i) = ds_pending (wk_states wk ! i) + length ts"
    using assms(1) by (intro exI [of _ "[ProcessTask cd ad vd rules i os]"]) (simp add: recurse_and_then_def)
  moreover have "logged b (wk_world wk) w" for b using assms(2) by (auto elim: logged_trans)
  ultimately show ?thesis using assms(1) unfolding grows_def by (simp add: recurse_and_then_def)
qed

lemma try_chdir_log: "try_chdir rep s parent parent_name name side = Some (s', lg, Some d) \<Longrightarrow> lg = []"
  by (auto simp: try_chdir_def split: Option.bind_split_asm sum.split_asm)

lemma chdir_or_synth_log: "chdir_or_synth rep s d side phys parent_name name mode = Some (s', d', lg, Some x) \<Longrightarrow> lg = []"
  by (auto simp: chdir_or_synth_def split: if_split_asm Option.bind_split_asm dest: try_chdir_log)

lemma recurse_into_dir_grows:
  assumes "i < length (wk_states wk)" "recurse_into_dir ctx dir parent_name name rules i wk = Some wk'"
  shows "grows i wk wk'"
proof -
  let ?w = "wk_world wk"
  from assms(2) obtain cs lg1 c as lg2 a vs lg3 v where
    1: "try_chdir (ctx_cli ctx) (w_cli ?w) (sd_dir (dc_cli dir)) parent_name name SideClient = Some (cs, lg1, c)" and
    2: "try_chdir (ctx_anc ctx) (w_anc ?w) (sd_dir (dc_anc dir)) parent_name name SideAncestor = Some (as, lg2, a)" and
    3: "try_chdir (ctx_srv ctx) (w_srv ?w) (sd_dir (dc_srv dir)) parent_name name SideServer = Some (vs, lg3, v)"
    by (auto simp: recurse_into_dir_def Let_def split: Option.bind_split_asm)
  let ?w1 = "add_logs (lg1 @ lg2 @ lg3) (?w\<lparr>w_cli := cs, w_anc := as, w_srv := vs\<rparr>)"
  have f: "logged False ?w ?w1" by (rule logged_add [of _ _ "lg1 @ lg2 @ lg3"]) simp_all
  show ?thesis
  proof (cases "c = None \<or> a = None \<or> v = None")
    case True
    with assms 1 2 3 have "wk' = fail i (wk\<lparr>wk_world := ?w1\<rparr>)"
      by (cases c; cases a; cases v) (auto simp: recurse_into_dir_def Let_def)
    with grows_fail [OF assms(1) f] show ?thesis by simp
  next
    case False
    then obtain cd ad vd where d: "c = Some cd" "a = Some ad" "v = Some vd" by auto
    with 1 2 3 have l: "logged True ?w ?w1" by (auto dest!: try_chdir_log intro: logged_same)
    from d assms(2) 1 2 3 grows_recurse [OF assms(1) l] grows_world [OF l] show ?thesis
      by (auto simp: recurse_into_dir_def Let_def split: if_split_asm)
  qed
qed

lemma recursive_delete_grows:
  assumes "i < length (wk_states wk)" "recursive_delete ctx dir parent_name name rules i side mode wk = Some (wk', dir')"
  shows "grows i wk wk'"
proof -
  let ?w = "wk_world wk"
  from assms(2) obtain cs cdir lg1 c as adir ad vs vdir lg3 v where
    1: "chdir_or_synth (ctx_cli ctx) (w_cli ?w) (sd_dir (dc_cli dir)) Client side parent_name name mode = Some (cs, cdir, lg1, c)" and
    2: "chdir_else_synth (ctx_anc ctx) (w_anc ?w) (sd_dir (dc_anc dir)) name mode = Some (as, adir, ad)" and
    3: "chdir_or_synth (ctx_srv ctx) (w_srv ?w) (sd_dir (dc_srv dir)) Server side parent_name name mode = Some (vs, vdir, lg3, v)"
    unfolding recursive_delete_def Let_def by (auto split: Option.bind_split_asm)
  let ?w1 = "add_logs (lg1 @ lg3) (?w\<lparr>w_cli := cs, w_anc := as, w_srv := vs\<rparr>)"
  have f: "logged False ?w ?w1" by (rule logged_add [of _ _ "lg1 @ lg3"]) simp_all
  show ?thesis
  proof (cases "c = None \<or> v = None")
    case True
    with assms 1 2 3 have "wk' = fail i (wk\<lparr>wk_world := ?w1\<rparr>)"
      by (cases c; cases v) (auto simp: recursive_delete_def Let_def)
    with grows_fail [OF assms(1) f] show ?thesis by simp
  next
    case False
    then obtain cd vd where d: "c = Some cd" "v = Some vd" by auto
    let ?w2 = "add_logs [(EDIT, LRecursiveDelete (side_of side) (r_full_path (ctx_cli ctx) cd))] ?w1"
    from d 1 3 have "lg1 = []" "lg3 = []" by (auto dest: chdir_or_synth_log)
    then have l: "logged True ?w ?w2" by (intro logged_add [of _ _ "[(EDIT, LRecursiveDelete (side_of side) (r_full_path (ctx_cli ctx) cd))]"]) simp_all
    from d assms(2) 1 2 3 grows_recurse [OF assms(1) l] show ?thesis
      by (auto simp: recursive_delete_def Let_def)
  qed
qed

lemma process_file_grows:
  assumes "i < length (wk_states wk)" "process_file ctx dir_path name i wk dir = Some (wk', dir')"
  shows "grows i wk wk'"
proof -
  from assms(2) obtain cli recon conflict lvl w1 dir1 res rules where
    a: "apply_reconciliation ctx (log_entry lvl (LInspect dir_path name recon conflict) (wk_world wk))
          dir dir_path name recon cli (map_of (sd_files (dc_srv dir)) name) = Some (w1, dir1, res)"
    and k: "(case res of
                ApplyClean False \<Rightarrow>
                  Some (upd_state i (\<lambda>d. d\<lparr>ds_empty := ds_empty d \<and> in_no_table dir1 name\<rparr>) (wk\<lparr>wk_world := w1\<rparr>), dir1)
              | ApplyFail \<Rightarrow> Some (fail i (wk\<lparr>wk_world := w1\<rparr>), dir1)
              | ApplyClean True \<Rightarrow>
                  Option.bind (recurse_into_dir ctx dir1 dir_path name rules i
                    (upd_state i (\<lambda>d. d\<lparr>ds_empty := False\<rparr>) (wk\<lparr>wk_world := w1\<rparr>))) (\<lambda>wk2. Some (wk2, dir1))
              | ApplyRecursiveDelete side mode \<Rightarrow>
                  recursive_delete ctx dir1 dir_path name rules i side mode (wk\<lparr>wk_world := w1\<rparr>)) = Some (wk', dir')"
    unfolding process_file_def Let_def by (auto split: Option.bind_split_asm prod.split_asm)
  have "logged True (wk_world wk) (log_entry lvl (LInspect dir_path name recon conflict) (wk_world wk))"
    by (rule logged_add [of _ _ "[(lvl, LInspect dir_path name recon conflict)]"]) (simp_all add: log_entry_def)
  from logged_then [OF this apply_reconciliation_log [OF a]] have l: "logged (res \<noteq> ApplyFail) (wk_world wk) w1" .
  show ?thesis
  proof (cases res)
    case ApplyFail
    with k grows_fail [OF assms(1), of w1] l show ?thesis by auto
  next
    case (ApplyRecursiveDelete side mode)
    with l have w: "grows i wk (wk\<lparr>wk_world := w1\<rparr>)" by (simp add: grows_world)
    from ApplyRecursiveDelete k assms(1) have "grows i (wk\<lparr>wk_world := w1\<rparr>) wk'" by (auto intro: recursive_delete_grows)
    with w show ?thesis by (rule grows_trans)
  next
    case (ApplyClean r)
    have u: "grows i wk (upd_state i (\<lambda>d. d\<lparr>ds_empty := g d\<rparr>) (wk\<lparr>wk_world := w1\<rparr>))" for g
      using l ApplyClean assms(1) by (intro grows_upd) (auto elim: logged_trans)
    show ?thesis
    proof (cases r)
      case True
      with ApplyClean k assms(1) have "grows i (upd_state i (\<lambda>d. d\<lparr>ds_empty := False\<rparr>) (wk\<lparr>wk_world := w1\<rparr>)) wk'"
        by (auto split: Option.bind_split_asm intro: recurse_into_dir_grows)
      with u show ?thesis by (rule grows_trans)
    qed (use ApplyClean k u in auto)
  qed
qed

lemma todo_loop_grows:
  "todo_loop ctx dir_path i wk dir = Some r \<Longrightarrow> i < length (wk_states wk) \<Longrightarrow> grows i wk (fst r)"
proof (induction rule: todo_loop.raw_induct [rotated 1, consumes 1])
  case (1 loop ctx dir_path i wk dir r)
  show ?case
  proof (cases "heap_pop (dc_todo dir)")
    case None
    with 1 show ?thesis by (auto simp: grows_def)
  next
    case (Some nt)
    obtain name todo where nt: "nt = (name, todo)" by (cases nt)
    with Some 1(2) obtain wk1 dir1 where
      p: "process_file ctx dir_path name i wk (dir\<lparr>dc_todo := todo\<rparr>) = Some (wk1, dir1)"
      and l: "loop ctx dir_path i wk1 dir1 = Some r"
      by (auto split: Option.bind_split_asm)
    note g = process_file_grows [OF 1(3) p]
    then have "i < length (wk_states wk1)" using 1(3) by (simp add: grows_def)
    from grows_trans [OF g 1(1) [OF l this]] show ?thesis .
  qed
qed

lemma read_dir_contents_log:
  "read_dir_contents rx rep s d dir_path rb side = Some (s', d', lg, Inr x) \<Longrightarrow> lg = []"
  by (auto simp: read_dir_contents_def split: Option.bind_split_asm sum.split_asm)

lemma read_all_log:
  assumes "read_all ctx c a v b w = Some (w', r)"
  shows "logged (is_ok r) w w'"
  using assms unfolding read_all_def Let_def
  by (auto split: Option.bind_split_asm sum.split_asm simp: logged_def dest!: read_dir_contents_log)

lemma mark_clean_log: "mark_clean rep s d side dir_path = Some (s', lg, True) \<Longrightarrow> no_errors lg"
  by (auto simp: mark_clean_def split: Option.bind_split_asm sum.split_asm)

lemma try_rmdir_log: "try_rmdir rep s d dir_path side = Some (s', lg, True) \<Longrightarrow> no_errors lg"
  by (auto simp: try_rmdir_def split: Option.bind_split_asm sum.split_asm)

lemma mark_both_clean_log: "mark_both_clean ctx dir w = Some (w', ok) \<Longrightarrow> logged ok w w'"
  by (auto simp: mark_both_clean_def Let_def logged_def split: Option.bind_split_asm if_split_asm)
    (blast dest: mark_clean_log)+

lemma run_on_success_log: "run_on_success ctx os dir emp w = Some (w', ok) \<Longrightarrow> logged ok w w'"
  by (cases os; cases emp)
    (auto simp: delete_or_mark_clean_def Let_def logged_def split: Option.bind_split_asm if_split_asm
      dest: mark_both_clean_log [unfolded logged_def], (blast dest: try_rmdir_log)+)

subsection \<open>The accounting\<close>

lemma finish_eq:
  assumes "p < length (wk_states wk)"
  shows "finish_task_in_dir p sub wk =
    (let d = wk_states wk ! p; wk' = wk\<lparr>wk_states := (wk_states wk)[p := finished_state d (wk_states wk ! sub)]\<rparr>
     in if ds_pending d = 0 then None
        else if ds_pending d = 1 then
          Option.bind (unqueued_get (ds_on_complete d) (wk_tasks wk)) (\<lambda>(tasks, t). Some (push_work t (wk'\<lparr>wk_tasks := tasks\<rparr>)))
        else Some wk')"
proof -
  have "ds_empty ((wk_states wk)[p := (wk_states wk ! p)\<lparr>ds_success := x\<rparr>] ! sub) = ds_empty (wk_states wk ! sub)" for x
    by (cases "sub = p") (simp_all add: assms)
  then show ?thesis
    using assms by (simp add: finish_task_in_dir_def upd_state_def finished_state_def Let_def)
qed

lemma stored_in_bag: "map_of (ut_tasks (wk_tasks wk)) k = Some t \<Longrightarrow> t \<in># task_bag wk"
  by (auto simp: task_bag_def dest!: map_of_SomeD intro!: image_eqI [of _ _ "(k, t)"])

lemma pending_stored:
  assumes "walk_inv par extra late wk" "0 < i" "i < length (wk_states wk)" "0 < ds_pending (wk_states wk ! i)"
  shows "\<exists>t. map_of (ut_tasks (wk_tasks wk)) (ds_on_complete (wk_states wk ! i)) = Some t \<and> task_sub t = Some i \<and> t \<in># task_bag wk"
  using assms unfolding walk_inv_def stored_ok_def by (metis stored_in_bag)

lemma alist_update_new: "map_of xs k = None \<Longrightarrow> AList.update k v xs = xs @ [(k, v)]"
  by (induction xs) (auto split: if_splits)

lemma mset_delete:
  assumes "distinct (map fst xs)" "map_of xs k = Some v"
  shows "mset (map snd xs) = add_mset v (mset (map snd (AList.delete k xs)))"
  using assms
proof (induction xs)
  case (Cons x xs)
  show ?case
  proof (cases "fst x = k")
    case True
    with Cons.prems have "AList.delete k xs = xs" "snd x = v"
      by (auto simp: AList.delete_eq filter_id_conv image_iff)
    with True show ?thesis by (simp add: AList.delete_eq case_prod_beta)
  next
    case False
    with Cons show ?thesis by (simp add: AList.delete_eq case_prod_beta)
  qed
qed simp

lemma stored_ok_cong:
  assumes "length sts' = length sts"
    and "\<And>i. i < length sts \<Longrightarrow> ds_on_complete (sts' ! i) = ds_on_complete (sts ! i) \<and>
      (0 < ds_pending (sts' ! i)) = (0 < ds_pending (sts ! i))"
  shows "stored_ok sts' ut = stored_ok sts ut"
  unfolding stored_ok_def using assms by (simp cong: conj_cong)

lemma finished_keeps:
  fixes wk :: "('cs, 'cd, 'as, 'ad, 'vs, 'vd, 'rx) walk"
  assumes "walk_inv par (one_at p) late wk" "p < length (wk_states wk)" "late \<subseteq> {sub}"
    and "sub \<in> late \<Longrightarrow> par ! sub = p"
  defines "sts \<equiv> (wk_states wk)[p := finished_state (wk_states wk ! p) (wk_states wk ! sub)]"
  shows "tree_ok par (length sts) \<and> bag_ok par (length sts) (task_bag wk) \<and> counts_ok (\<lambda>_. 0) sts (task_bag wk) \<and>
    failures_ok par {} sts (task_bag wk) \<and> errors_ok sts (w_log (wk_world wk))"
proof -
  note inv = assms(1) [unfolded walk_inv_def]
  have s: "sts ! i = (if i = p then finished_state (wk_states wk ! p) (wk_states wk ! sub) else wk_states wk ! i)"
    if "i < length sts" for i using that assms(2) by (simp add: sts_def nth_list_update)
  have l: "length sts = length (wk_states wk)" by (simp add: sts_def)
  have c: "counts_ok (\<lambda>_. 0) sts (task_bag wk)"
    using inv s l by (auto simp: counts_ok_def one_at_def finished_state_def)
  have mono: "ds_success (sts ! i) \<Longrightarrow> ds_success (wk_states wk ! i)" if "i < length sts" for i
    using s [OF that] by (auto simp: finished_state_def split: if_splits)
  have par: "0 < i \<Longrightarrow> i < length sts \<Longrightarrow> par ! i < length sts" for i
    using inv l by (auto simp: tree_ok_def)
  have pend: "0 < ds_pending (wk_states wk ! p)"
    using inv assms(2) by (auto simp: counts_ok_def one_at_def)
  have "failures_ok par {} sts (task_bag wk)"
    unfolding failures_ok_def
  proof (intro allI impI, elim conjE)
    fix i
    assume i: "0 < i" "i < length sts" "\<forall>t \<in># task_bag wk. task_sub t \<noteq> Some i" "\<not> ds_success (sts ! i)"
    have ip: "i \<noteq> p"
      using pending_stored [OF assms(1), of i] i l pend by auto
    show "\<not> ds_success (sts ! (par ! i))"
    proof (cases "i \<in> late")
      case True
      with assms(3,4) have "par ! i = p" "i = sub" by auto
      with i ip s [of p] s [OF i(2)] assms(2) l show ?thesis by (auto simp: finished_state_def)
    next
      case False
      with inv i s [OF i(2)] ip l have "\<not> ds_success (wk_states wk ! (par ! i))" by (auto simp: failures_ok_def)
      with mono par i show ?thesis by blast
    qed
  qed
  moreover have "errors_ok sts (w_log (wk_world wk))"
    using inv mono l by (auto simp: errors_ok_def)
  ultimately show ?thesis using inv l c by simp
qed

lemma finish_ok:
  assumes "walk_inv par (one_at p) late wk" "p < length (wk_states wk)" "late \<subseteq> {sub}" "sub \<in> late \<Longrightarrow> par ! sub = p"
  shows "\<exists>wk'. finish_task_in_dir p sub wk = Some wk' \<and> walk_inv par (\<lambda>_. 0) {} wk'"
proof -
  let ?d = "wk_states wk ! p" and ?sts = "(wk_states wk)[p := finished_state (wk_states wk ! p) (wk_states wk ! sub)]"
  let ?ut = "ut_tasks (wk_tasks wk)"
  note inv = assms(1) [unfolded walk_inv_def] and k = finished_keeps [OF assms]
  have pend: "0 < ds_pending ?d" "p = 0 \<Longrightarrow> 1 < ds_pending ?d"
    using inv assms(2) by (auto simp: counts_ok_def one_at_def)
  have sts: "ds_on_complete (?sts ! i) = ds_on_complete (wk_states wk ! i)"
    "ds_pending (?sts ! i) = (if i = p then ds_pending ?d - 1 else ds_pending (wk_states wk ! i))"
    if "i < length (wk_states wk)" for i using that assms(2) by (auto simp: nth_list_update finished_state_def)
  show ?thesis
  proof (cases "ds_pending ?d = 1")
    case False
    have "stored_ok ?sts ?ut = stored_ok (wk_states wk) ?ut"
      by (rule stored_ok_cong) (use sts pend False in auto)
    with inv have "stored_ok ?sts ?ut" by simp
    with k False pend show ?thesis
      by (auto simp: finish_eq [OF assms(2)] Let_def walk_inv_def task_bag_def)
  next
    case True
    with pend(2) have p0: "0 < p" by (cases "p = 0") auto
    from pending_stored [OF assms(1) p0 assms(2) pend(1)] obtain t where
      t: "map_of ?ut (ds_on_complete ?d) = Some t" "task_sub t = Some p" by blast
    let ?tasks = "(wk_tasks wk)\<lparr>ut_tasks := AList.delete (ds_on_complete ?d) ?ut\<rparr>"
    let ?wk = "push_work t (wk\<lparr>wk_states := ?sts, wk_tasks := ?tasks\<rparr>)"
    have dist: "distinct (map fst ?ut)" using inv by (simp add: stored_ok_def)
    have bag: "task_bag ?wk = task_bag wk"
      using mset_delete [OF dist t(1)] by (simp add: task_bag_def)
    have "stored_ok ?sts (ut_tasks ?tasks)"
      unfolding stored_ok_def
    proof (intro conjI allI impI)
      show "distinct (map fst (ut_tasks ?tasks))" using dist by (simp add: distinct_delete)
    next
      fix i
      assume i: "0 < i \<and> i < length ?sts \<and> 0 < ds_pending (?sts ! i)"
      then have ip: "i \<noteq> p" using True assms(2) by (auto simp: finished_state_def)
      with i sts have "0 < ds_pending (wk_states wk ! i)" by auto
      then obtain t' where t': "map_of ?ut (ds_on_complete (wk_states wk ! i)) = Some t'" "task_sub t' = Some i"
        using pending_stored [OF assms(1), of i] i by auto
      with t ip have "ds_on_complete (wk_states wk ! i) \<noteq> ds_on_complete ?d" by auto
      with t' sts i show "\<exists>t. map_of (ut_tasks ?tasks) (ds_on_complete (?sts ! i)) = Some t \<and> task_sub t = Some i" by simp
    next
      fix j t'
      assume "map_of (ut_tasks ?tasks) j = Some t'"
      then have j: "j \<noteq> ds_on_complete ?d" "map_of ?ut j = Some t'" by (auto split: if_splits)
      with inv obtain i where i: "0 < i" "i < length (wk_states wk)" "task_sub t' = Some i"
        "ds_on_complete (wk_states wk ! i) = j" "0 < ds_pending (wk_states wk ! i)" unfolding stored_ok_def by blast
      with j sts [of i] show "\<exists>i. 0 < i \<and> i < length ?sts \<and> task_sub t' = Some i \<and> ds_on_complete (?sts ! i) = j \<and> 0 < ds_pending (?sts ! i)"
        by (intro exI [of _ i]) auto
    qed
    with k bag have "walk_inv par (\<lambda>_. 0) {} ?wk" by (simp add: walk_inv_def)
    moreover have "finish_task_in_dir p sub wk = Some ?wk"
      using True t by (simp add: finish_eq [OF assms(2)] unqueued_get_def Let_def)
    ultimately show ?thesis by blast
  qed
qed

text \<open>Taking a task out of the queue leaves its share of the count to the running task.\<close>

lemma bag_ok_add:
  assumes "bag_ok par n (add_mset t B)"
  shows "bag_ok par n B"
proof -
  have "size (filter_mset q B) \<le> size (filter_mset q (add_mset t B))" for q by simp
  moreover have "size (filter_mset (\<lambda>t. task_sub t = Some i) (add_mset t B)) \<le> 1" for i
    using assms unfolding bag_ok_def by blast
  ultimately have "size (filter_mset (\<lambda>t. task_sub t = Some i) B) \<le> 1" for i by (rule order_trans)
  with assms show ?thesis by (simp add: bag_ok_def)
qed

lemma take_task:
  assumes "walk_inv par (\<lambda>_. 0) {} wk" "wk_work wk = xs @ t # ys"
  shows "walk_inv par (one_at (task_parent t)) (set_option (task_sub t)) (wk\<lparr>wk_work := xs @ ys\<rparr>)"
    and "task_parent t < length (wk_states wk)"
    and "task_sub t = Some sub \<Longrightarrow> 0 < sub \<and> sub < length (wk_states wk) \<and> par ! sub = task_parent t"
proof -
  let ?wk = "wk\<lparr>wk_work := xs @ ys\<rparr>"
  note inv = assms(1) [unfolded walk_inv_def]
  have b: "task_bag wk = add_mset t (task_bag ?wk)" by (simp add: task_bag_def assms(2))
  have "bag_ok par (length (wk_states wk)) (task_bag ?wk)"
    using inv bag_ok_add unfolding b by blast
  moreover have "counts_ok (one_at (task_parent t)) (wk_states wk) (task_bag ?wk)"
    using inv unfolding b counts_ok_def one_at_def by auto
  moreover have "failures_ok par (set_option (task_sub t)) (wk_states wk) (task_bag ?wk)"
    using inv unfolding b failures_ok_def by auto
  ultimately show "walk_inv par (one_at (task_parent t)) (set_option (task_sub t)) ?wk"
    using inv by (simp add: walk_inv_def)
  show "task_parent t < length (wk_states wk)"
    "task_sub t = Some sub \<Longrightarrow> 0 < sub \<and> sub < length (wk_states wk) \<and> par ! sub = task_parent t"
    using inv unfolding b bag_ok_def by auto
qed

lemma errors_ok_logged:
  assumes "errors_ok sts (w_log w)" "logged True w w'"
  shows "errors_ok sts (w_log w')"
  using assms by (auto simp: errors_ok_def logged_def)

lemma walk_inv_world:
  assumes "walk_inv par extra late wk" "logged True (wk_world wk) w"
  shows "walk_inv par extra late (wk\<lparr>wk_world := w\<rparr>)"
  using assms errors_ok_logged by (auto simp: walk_inv_def task_bag_def)

lemma walk_inv_fail:
  assumes "walk_inv par extra late wk" "p < length (wk_states wk)" "p \<in> late \<or> 0 < ds_pending (wk_states wk ! p)"
  shows "walk_inv par extra late (fail p (wk\<lparr>wk_world := w\<rparr>))"
proof -
  let ?sts = "(wk_states wk)[p := (wk_states wk ! p)\<lparr>ds_success := False\<rparr>]"
  note inv = assms(1) [unfolded walk_inv_def]
  have s: "ds_pending (?sts ! i) = ds_pending (wk_states wk ! i)" "ds_on_complete (?sts ! i) = ds_on_complete (wk_states wk ! i)"
    "ds_success (?sts ! i) = (i \<noteq> p \<and> ds_success (wk_states wk ! i))" if "i < length (wk_states wk)" for i
    using that assms(2) by (auto simp: nth_list_update)
  have "counts_ok extra ?sts (task_bag wk)" using inv s by (simp add: counts_ok_def)
  moreover have "stored_ok ?sts (ut_tasks (wk_tasks wk)) = stored_ok (wk_states wk) (ut_tasks (wk_tasks wk))"
    by (rule stored_ok_cong) (use s in auto)
  moreover have "errors_ok ?sts lg" for lg
    using assms(2) s(3) [OF assms(2)] unfolding errors_ok_def by (metis length_list_update)
  moreover have "failures_ok par late ?sts (task_bag wk)"
    unfolding failures_ok_def
  proof (intro allI impI, elim conjE)
    fix i
    assume i: "0 < i" "i < length ?sts" "i \<notin> late" "\<forall>t \<in># task_bag wk. task_sub t \<noteq> Some i" "\<not> ds_success (?sts ! i)"
    have "i \<noteq> p" using assms(3) pending_stored [OF assms(1), of i] i by auto
    with i inv s have "\<not> ds_success (wk_states wk ! (par ! i))" by (auto simp: failures_ok_def)
    moreover have "par ! i < length (wk_states wk)" using inv i by (auto simp: tree_ok_def)
    ultimately show "\<not> ds_success (?sts ! (par ! i))" using s by simp
  qed
  ultimately show ?thesis using inv by (simp add: walk_inv_def fail_def upd_state_def task_bag_def)
qed

lemma complete_ok:
  assumes "walk_inv par (one_at p) {sub} wk" "p < length (wk_states wk)" "sub < length (wk_states wk)" "par ! sub = p"
    and "run_task ctx (CompleteTask dir sub p os) wk = Some wk'"
  shows "walk_inv par (\<lambda>_. 0) {} wk'"
proof -
  have fin: "finish_task_in_dir p sub wk1 = Some wk' \<Longrightarrow> walk_inv par (one_at p) {sub} wk1 \<Longrightarrow> length (wk_states wk1) = length (wk_states wk) \<Longrightarrow>
      walk_inv par (\<lambda>_. 0) {} wk'" for wk1
    using finish_ok [of par p "{sub}" wk1 sub] assms(2,4) by auto
  show ?thesis
  proof (cases "ds_success (wk_states wk ! sub)")
    case False
    with assms(1,5) fin show ?thesis by simp
  next
    case True
    with assms(5) obtain w1 ok where
      r: "run_on_success ctx os dir (ds_empty (wk_states wk ! sub)) (wk_world wk) = Some (w1, ok)"
      and f: "finish_task_in_dir p sub (if ok then wk\<lparr>wk_world := w1\<rparr> else fail sub (wk\<lparr>wk_world := w1\<rparr>)) = Some wk'"
      by (auto simp: Let_def split: Option.bind_split_asm if_split_asm)
    have "walk_inv par (one_at p) {sub} (if ok then wk\<lparr>wk_world := w1\<rparr> else fail sub (wk\<lparr>wk_world := w1\<rparr>))"
      using walk_inv_world [OF assms(1)] run_on_success_log [OF r] walk_inv_fail [OF assms(1,3)] by auto
    from fin [OF f this] show ?thesis by (simp add: fail_def)
  qed
qed

text \<open>A new directory \<open>n\<close> below \<open>p\<close>, with its completion \<open>t\<close> stored under \<open>k\<close>, its children
  \<open>ts\<close> queued and its own share still counted.\<close>

lemma tree_ok_new: "tree_ok par n \<Longrightarrow> p < n \<Longrightarrow> tree_ok (par @ [p]) (Suc n)"
  by (auto simp: tree_ok_def less_Suc_eq nth_append)

lemma bag_ok_new:
  assumes "bag_ok par n B" "length par = n" "p < n" "task_parent t = p" "task_sub t = Some n"
    and "list_all (\<lambda>x. task_parent x = n \<and> task_sub x = None) ts"
  shows "bag_ok (par @ [p]) (Suc n) (mset ts + add_mset t B)"
proof -
  have old: "task_parent x < n" "task_sub x = Some s \<Longrightarrow> 0 < s \<and> s < n \<and> par ! s = task_parent x" if "x \<in># B" for x s
    using assms(1) that by (auto simp: bag_ok_def)
  have n0: "filter_mset (\<lambda>x. task_sub x = Some n) B = {#}"
    using old(2) by (auto simp: filter_mset_eq_mempty_iff)
  have ts0: "filter_mset (\<lambda>x. task_sub x = Some j) (mset ts) = {#}" for j
    using assms(6) by (auto simp: filter_mset_eq_mempty_iff list_all_iff)
  have "size (filter_mset (\<lambda>x. task_sub x = Some j) B) \<le> 1" for j
    using assms(1) by (simp add: bag_ok_def)
  then have "size (filter_mset (\<lambda>x. task_sub x = Some j) (mset ts + add_mset t B)) \<le> 1" for j
    unfolding filter_union_mset ts0 using assms(5) n0 by (cases "j = n") auto
  moreover have "task_parent x < Suc n \<and> (\<forall>s. task_sub x = Some s \<longrightarrow> 0 < s \<and> s < Suc n \<and> (par @ [p]) ! s = task_parent x)"
    if "x \<in># mset ts + add_mset t B" for x
  proof -
    from that consider "x \<in> set ts" | "x = t" | "x \<in># B" by auto
    then show ?thesis
    proof cases
      case 3
      with old [OF 3] assms(2) show ?thesis by (auto simp: nth_append less_Suc_eq)
    qed (use assms in \<open>auto simp: nth_append list_all_iff\<close>)
  qed
  ultimately show ?thesis by (simp add: bag_ok_def)
qed

lemma counts_ok_new:
  assumes "counts_ok (one_at p) sts B" "length sts = n" "p < n" "task_parent t = p" "\<forall>x \<in># B. task_parent x < n"
    and "list_all (\<lambda>x. task_parent x = n \<and> task_sub x = None) ts"
    and "length sts' = Suc n" "\<And>j. j < n \<Longrightarrow> ds_pending (sts' ! j) = ds_pending (sts ! j)" "ds_pending (sts' ! n) = 1 + length ts"
  shows "counts_ok (one_at n) sts' (mset ts + add_mset t B)"
proof -
  have "filter_mset (\<lambda>x. task_parent x = n) B = {#}"
    using assms(5) by (fastforce simp: filter_mset_eq_mempty_iff)
  moreover have "size (filter_mset (\<lambda>x. task_parent x = j) (mset ts)) = (if j = n then length ts else 0)" for j
    using assms(6) by (induction ts) auto
  ultimately show ?thesis
    using assms(1-4,7-9) by (auto simp: counts_ok_def one_at_def less_Suc_eq)
qed

lemma stored_ok_new:
  assumes "stored_ok sts ut" "length sts = n" "0 < n" "map_of ut k = None" "task_sub t = Some n"
    and "length sts' = Suc n" "\<And>j. j < n \<Longrightarrow> sts' ! j = sts ! j" "ds_on_complete (sts' ! n) = k" "0 < ds_pending (sts' ! n)"
  shows "stored_ok sts' (ut @ [(k, t)])"
proof -
  note ok = assms(1) [unfolded stored_ok_def]
  have "distinct (map fst (ut @ [(k, t)]))" using ok assms(4) by (simp add: map_of_eq_None_iff)
  moreover have "\<exists>x. map_of (ut @ [(k, t)]) (ds_on_complete (sts' ! j)) = Some x \<and> task_sub x = Some j"
    if j: "0 < j" "j < Suc n" "0 < ds_pending (sts' ! j)" for j
  proof (cases "j = n")
    case True
    with assms show ?thesis by (simp add: map_add_def)
  next
    case False
    with j assms(2,7) ok obtain x where "map_of ut (ds_on_complete (sts ! j)) = Some x" "task_sub x = Some j"
      by (metis less_antisym)
    with False j assms(7) show ?thesis by (auto simp: map_add_def)
  qed
  moreover have "\<exists>j. 0 < j \<and> j < Suc n \<and> task_sub x = Some j \<and> ds_on_complete (sts' ! j) = c \<and> 0 < ds_pending (sts' ! j)"
    if "map_of (ut @ [(k, t)]) c = Some x" for c x
  proof -
    from that assms(4) consider "map_of ut c = Some x" | "c = k" "x = t"
      by (auto simp: map_add_def split: option.splits if_splits)
    then show ?thesis
    proof cases
      case 1
      with ok assms(2) obtain j where "0 < j" "j < n" "task_sub x = Some j" "ds_on_complete (sts ! j) = c"
        "0 < ds_pending (sts ! j)" by blast
      with assms(7) show ?thesis by (metis less_SucI)
    qed (use assms in auto)
  qed
  ultimately show ?thesis unfolding stored_ok_def assms(6) by blast
qed

lemma failures_ok_new:
  assumes "failures_ok par {} sts B" "tree_ok par n" "length sts = n" "task_sub t = Some n"
    and "length sts' = Suc n" "\<And>j. j < n \<Longrightarrow> sts' ! j = sts ! j"
  shows "failures_ok (par @ [p]) {} sts' (mset ts + add_mset t B)"
  unfolding failures_ok_def
proof (intro allI impI, elim conjE)
  fix j
  assume j: "0 < j" "j < length sts'" "\<forall>x \<in># mset ts + add_mset t B. task_sub x \<noteq> Some j" "\<not> ds_success (sts' ! j)"
  from j(3) assms(4) have "j \<noteq> n" by auto
  with j(2) assms(5) have jn: "j < n" by simp
  with j assms(1,3,6) have "\<not> ds_success (sts ! (par ! j))" by (auto simp: failures_ok_def)
  moreover have "par ! j < j" "length par = n" using assms(2) j(1) jn by (auto simp: tree_ok_def)
  ultimately show "\<not> ds_success (sts' ! ((par @ [p]) ! j))" using assms(6) [of "par ! j"] jn by (simp add: nth_append)
qed

lemma errors_ok_new:
  assumes "errors_ok sts (w_log w)" "logged (ds_success (sts' ! length sts)) w w'"
    and "length sts' = Suc (length sts)" "\<And>j. j < length sts \<Longrightarrow> sts' ! j = sts ! j"
  shows "errors_ok sts' (w_log w')"
proof (cases "ds_success (sts' ! length sts)")
  case True
  with assms(1,2) have "errors_ok sts (w_log w')" by (auto intro: errors_ok_logged)
  with assms(3,4) show ?thesis unfolding errors_ok_def by (metis less_SucI)
next
  case False
  with assms(3) show ?thesis unfolding errors_ok_def by auto
qed

lemma process_contents_ok:
  fixes wk :: "('cs, 'cd, 'as, 'ad, 'vs, 'vd, 'rx) walk"
  assumes "walk_inv par (one_at p) {} wk" "p < length (wk_states wk)" "process_contents ctx dir_path p os dir wk = Some wk'"
  shows "\<exists>par'. walk_inv par' (\<lambda>_. 0) {} wk'"
proof -
  define n where "n = length (wk_states wk)"
  let ?wk1 = "wk\<lparr>wk_states := wk_states wk @ [dir_state_new]\<rparr>"
  from assms(3) obtain wk2 dir2 tasks k where
    l: "todo_loop ctx dir_path n ?wk1 (dir\<lparr>dc_todo := initial_todo dir\<rparr>) = Some (wk2, dir2)"
    and u: "unqueued_put (CompleteTask dir2 n p os) (wk_tasks wk2) = Some (tasks, k)"
    and f: "finish_task_in_dir n n (upd_state n (\<lambda>d. d\<lparr>ds_on_complete := k\<rparr>) (wk2\<lparr>wk_tasks := tasks\<rparr>)) = Some wk'"
    by (auto simp: process_contents_def Let_def n_def split: Option.bind_split_asm)
  define wk3 where "wk3 = upd_state n (\<lambda>d. d\<lparr>ds_on_complete := k\<rparr>) (wk2\<lparr>wk_tasks := tasks\<rparr>)"
  let ?t = "CompleteTask dir2 n p os"
  note inv = assms(1) [unfolded walk_inv_def, folded n_def] and p = assms(2) [folded n_def]
  from todo_loop_grows [OF l] obtain ts where
    g: "wk_tasks wk2 = wk_tasks wk" "length (wk_states wk2) = Suc n"
      "\<forall>j. j < n \<longrightarrow> wk_states wk2 ! j = wk_states wk ! j" "wk_work wk2 = ts @ wk_work wk"
      "list_all (\<lambda>t. task_parent t = n \<and> task_sub t = None) ts" "ds_pending (wk_states wk2 ! n) = 1 + length ts"
      "logged (ds_success (wk_states wk2 ! n)) (wk_world wk) (wk_world wk2)"
    by (auto simp: grows_def dir_state_new_def nth_append n_def)
  from tasks.put_law [OF u] g(1) have free: "map_of (ut_tasks (wk_tasks wk)) k = None" by simp
  with u g(1) have ut: "ut_tasks (wk_tasks wk3) = ut_tasks (wk_tasks wk) @ [(k, ?t)]"
    by (auto simp: unqueued_put_def alist_update_new wk3_def split: option.split_asm)
  then have bag: "task_bag wk3 = mset ts + add_mset ?t (task_bag wk)"
    using g(4) by (simp add: task_bag_def wk3_def)
  have st: "length (wk_states wk3) = Suc n" "j < n \<Longrightarrow> wk_states wk3 ! j = wk_states wk ! j"
    "ds_pending (wk_states wk3 ! n) = 1 + length ts" "ds_on_complete (wk_states wk3 ! n) = k"
    "ds_success (wk_states wk3 ! n) = ds_success (wk_states wk2 ! n)" "wk_world wk3 = wk_world wk2" for j
    using g(2,3,6) by (simp_all add: wk3_def)
  have len: "length (wk_states wk) = n" "length par = n" "0 < n" using inv p by (auto simp: n_def tree_ok_def)
  have "\<forall>x \<in># task_bag wk. task_parent x < n" using inv by (simp add: bag_ok_def)
  then have "counts_ok (one_at n) (wk_states wk3) (task_bag wk3)"
    unfolding bag using inv counts_ok_new [OF _ len(1) p _ _ g(5) st(1) _ st(3)] st(2) by simp
  moreover have "stored_ok (wk_states wk3) (ut_tasks (wk_tasks wk3))"
    unfolding ut using inv stored_ok_new [OF _ len(1,3) free _ st(1,2,4)] st(3) by simp
  moreover have "errors_ok (wk_states wk3) (w_log (wk_world wk3))"
    using errors_ok_new [of "wk_states wk" "wk_world wk" "wk_states wk3" "wk_world wk3"] inv g(7) st len(1) by simp
  ultimately have "walk_inv (par @ [p]) (one_at n) {} wk3"
    using inv tree_ok_new [of par n p] bag_ok_new [of par n "task_bag wk" p ?t ts] failures_ok_new [of par "wk_states wk" "task_bag wk" n ?t "wk_states wk3" p ts]
      p g(5) st(1,2) len unfolding walk_inv_def bag by simp
  from finish_ok [OF this, of n] f st(1) show ?thesis by (auto simp: wk3_def)
qed

lemma process_ok:
  assumes "walk_inv par (one_at p) {} wk" "p < length (wk_states wk)"
    and "run_task ctx (ProcessTask c a v rules p os) wk = Some wk'"
  shows "\<exists>par'. walk_inv par' (\<lambda>_. 0) {} wk'"
proof -
  have pend: "0 < ds_pending (wk_states wk ! p)"
    using assms(1,2) by (auto simp: walk_inv_def counts_ok_def one_at_def)
  from assms(3) obtain wk1 success where
    pd: "process_dir ctx c a v (subdir rules) p os wk = Some (wk1, success)"
    and f: "(if success then Some wk1 else finish_task_in_dir p p (fail p wk1)) = Some wk'"
    by (auto split: Option.bind_split_asm)
  obtain w1 r1 where cs: "check_stop ctx (wk_world wk) = (w1, r1)" by (cases "check_stop ctx (wk_world wk)")
  then have l1: "logged True (wk_world wk) w1" by (auto simp: check_stop_def should_stop_def intro: logged_same)
  show ?thesis
  proof (cases success)
    case False
    with pd cs obtain w where "wk1 = wk\<lparr>wk_world := w\<rparr>"
      by (auto simp: process_dir_def split: sum.split_asm Option.bind_split_asm)
    with walk_inv_fail [OF assms(1,2)] pend have "walk_inv par (one_at p) {} (fail p wk1)" "length (wk_states (fail p wk1)) = length (wk_states wk)"
      by (simp_all add: fail_def)
    with finish_ok [of par p "{}" "fail p wk1" p] False f assms(2) show ?thesis by auto
  next
    case True
    with pd cs obtain w2 dir where r: "read_all ctx c a v (subdir rules) w1 = Some (w2, Inr dir)"
      and pc: "process_contents ctx (r_full_path (ctx_cli ctx) c) p os dir (wk\<lparr>wk_world := w2\<rparr>) = Some wk1"
      by (auto simp: process_dir_def split: sum.split_asm Option.bind_split_asm)
    have "logged True (wk_world wk) w2" using logged_then [OF l1 read_all_log [OF r]] by simp
    from process_contents_ok [OF walk_inv_world [OF assms(1) this] _ pc] True f assms(2) show ?thesis by simp
  qed
qed

lemma walk_step_inv:
  assumes "walk_step ctx wk wk'" "walk_inv par (\<lambda>_. 0) {} wk"
  shows "\<exists>par'. walk_inv par' (\<lambda>_. 0) {} wk'"
  using assms
proof (cases rule: walk_step.cases)
  case (run xs t ys)
  note t = take_task [OF assms(2) run(1)]
  show ?thesis
  proof (cases t)
    case (ProcessTask c a v rules p os)
    with t(1,2) run(2) show ?thesis by (auto intro: process_ok)
  next
    case (CompleteTask dir sub p os)
    with t(1,2) t(3) [of sub] have "walk_inv par (one_at p) {sub} (wk\<lparr>wk_work := xs @ ys\<rparr>)" "p < length (wk_states wk)"
      "sub < length (wk_states wk)" "par ! sub = p" by simp_all
    with complete_ok [of par p sub "wk\<lparr>wk_work := xs @ ys\<rparr>" ctx dir os wk'] run(2) CompleteTask show ?thesis by auto
  qed
qed

lemma start_root_inv:
  assumes "start_root ctx w = Some (wk, Inr r)" "no_errors (w_log w)"
  shows "walk_inv [0] (\<lambda>_. 0) {} wk"
proof -
  from assms obtain c a v w3 where wk: "wk = recurse_and_then c a v (ctx_root_rules ctx) 0 MarkBothClean
      \<lparr>wk_world = w3, wk_states = [dir_state_new], wk_work = [], wk_tasks = unqueued_new\<rparr>" "no_errors (w_log w3)"
    by (auto simp: start_root_def Let_def split: Option.bind_split_asm sum.split_asm)
  then show ?thesis
    by (auto simp: walk_inv_def recurse_and_then_def push_work_def upd_state_def dir_state_new_def unqueued_new_def
        tree_ok_def bag_ok_def counts_ok_def stored_ok_def failures_ok_def errors_ok_def task_bag_def)
qed

lemma walk_reachable:
  assumes "(walk_step ctx)\<^sup>*\<^sup>* wk0 wk" "start_root ctx w = Some (wk0, Inr r)" "no_errors (w_log w)"
  shows "\<exists>par. walk_inv par (\<lambda>_. 0) {} wk"
  using assms
proof (induction rule: rtranclp_induct)
  case base
  then show ?case using start_root_inv by blast
next
  case (step y z)
  then show ?case using walk_step_inv by blast
qed

lemma run_next_step: "run_next ctx wk = Some wk' \<Longrightarrow> walk_step ctx wk wk'"
  using walk_step.run [of wk "[]"] by (auto simp: run_next_def split: list.split_asm)

text \<open>When nothing is queued, nothing is stored: the completion of the last directory with pending
  tasks would wait for a later one.\<close>

lemma idle_nothing_pending:
  assumes "walk_inv par (\<lambda>_. 0) {} wk" "wk_work wk = []"
  shows "i < length (wk_states wk) \<Longrightarrow> 0 < i \<Longrightarrow> ds_pending (wk_states wk ! i) = 0"
proof (induction "length (wk_states wk) - i" arbitrary: i rule: less_induct)
  case less
  note inv = assms(1) [unfolded walk_inv_def]
  show ?case
  proof (rule ccontr)
    assume "ds_pending (wk_states wk ! i) \<noteq> 0"
    with inv less.prems have "size (filter_mset (\<lambda>t. task_parent t = i) (task_bag wk)) \<noteq> 0" by (auto simp: counts_ok_def)
    then obtain t where t: "t \<in># task_bag wk" "task_parent t = i" by (auto simp: filter_mset_eq_mempty_iff)
    then obtain k where "(k, t) \<in> set (ut_tasks (wk_tasks wk))" using assms(2) by (auto simp: task_bag_def)
    with inv have "map_of (ut_tasks (wk_tasks wk)) k = Some t" by (simp add: stored_ok_def)
    with inv obtain j where j: "0 < j" "j < length (wk_states wk)" "task_sub t = Some j" "0 < ds_pending (wk_states wk ! j)"
      unfolding stored_ok_def by blast
    with inv t have "par ! j = i" by (auto simp: bag_ok_def)
    with inv j have "i < j" by (auto simp: tree_ok_def)
    with j less show False by (metis diff_less_mono2 less_irrefl)
  qed
qed

lemma idle_successes:
  assumes "walk_inv par (\<lambda>_. 0) {} wk" "task_bag wk = {#}" "ds_success (wk_states wk ! 0)"
  shows "i < length (wk_states wk) \<Longrightarrow> ds_success (wk_states wk ! i)"
proof (induction i rule: less_induct)
  case (less i)
  note inv = assms(1) [unfolded walk_inv_def]
  show ?case
  proof (cases "i = 0")
    case False
    with inv less.prems have "par ! i < i" by (simp add: tree_ok_def)
    with less have "ds_success (wk_states wk ! (par ! i))" by simp
    with inv False less.prems assms(2) show ?thesis by (auto simp: failures_ok_def)
  qed (use assms(3) in simp)
qed

lemma started: "(case x of Some (_, Inr r) \<Rightarrow> r = 0 | _ \<Rightarrow> False) \<Longrightarrow> x = Some (fst (the x), Inr (0 :: nat))"
  by (cases x) (auto split: prod.split_asm sum.split_asm)

section \<open>Properties\<close>

text \<open>C19. The walk reports what happened: in whatever order the tasks are run, once the queue is empty every
  directory has been completed -- no completion is left behind and only the root's own count
  remains -- and if the root state still says success, then every directory succeeded and no
  error was logged by any operation on any replica. So an error anywhere in the tree makes the whole run
  fail.\<close>

theorem walk_reports_errors:
  assumes "start_root ctx w = Some (wk0, Inr r)" "no_errors (w_log w)"
    and "(walk_step ctx)\<^sup>*\<^sup>* wk0 wk" "wk_work wk = []"
  shows "ut_tasks (wk_tasks wk) = [] \<and> ds_pending (wk_states wk ! 0) = 1 \<and>
    list_all (\<lambda>d. ds_pending d = 0) (tl (wk_states wk)) \<and>
    (ds_success (wk_states wk ! 0) \<longrightarrow> list_all ds_success (wk_states wk) \<and> no_errors (w_log (wk_world wk)))"
proof -
  from walk_reachable [OF assms(3,1,2)] obtain par where inv: "walk_inv par (\<lambda>_. 0) {} wk" by blast
  note i = inv [unfolded walk_inv_def] and idle = idle_nothing_pending [OF inv assms(4)]
  have ut: "ut_tasks (wk_tasks wk) = []"
  proof (cases "ut_tasks (wk_tasks wk)")
    case (Cons e rest)
    then have "map_of (ut_tasks (wk_tasks wk)) (fst e) = Some (snd e)" by simp
    with i idle show ?thesis unfolding stored_ok_def by (metis less_irrefl)
  qed
  with assms(4) have bag: "task_bag wk = {#}" by (simp add: task_bag_def)
  have "ds_pending (wk_states wk ! 0) = 1" using i bag by (auto simp: counts_ok_def tree_ok_def)
  moreover have "list_all (\<lambda>d. ds_pending d = 0) (tl (wk_states wk))"
    using idle by (auto simp: list_all_length nth_tl)
  moreover have "list_all ds_success (wk_states wk) \<and> no_errors (w_log (wk_world wk))" if "ds_success (wk_states wk ! 0)"
    using idle_successes [OF inv bag that] i by (auto simp: list_all_length errors_ok_def)
  ultimately show ?thesis using ut by blast
qed

theorem walk_reports_errors_witness:
  "\<exists>wk0 wk. start_root (demo_ctx (\<lambda>_. None)) demo_world = Some (wk0, Inr 0) \<and>
     (walk_step (demo_ctx (\<lambda>_. None)))\<^sup>*\<^sup>* wk0 wk \<and> ds_success (wk_states wk ! 0) \<and> no_errors (w_log (wk_world wk))"
proof -
  let ?ctx = "demo_ctx (\<lambda>_. None)"
  define wk0 where "wk0 = fst (the (start_root ?ctx demo_world))"
  define wk1 where "wk1 = the (run_next ?ctx wk0)"
  define wk2 where "wk2 = the (run_next ?ctx wk1)"
  note defs = wk2_def [unfolded wk1_def [unfolded wk0_def]] wk1_def [unfolded wk0_def] wk0_def
  have s0: "start_root ?ctx demo_world = Some (wk0, Inr 0)"
  proof -
    have "case start_root ?ctx demo_world of Some (_, Inr r) \<Rightarrow> r = 0 | _ \<Rightarrow> False" by code_simp
    then show ?thesis unfolding wk0_def by (rule started)
  qed
  have "case run_next ?ctx (fst (the (start_root ?ctx demo_world))) of Some _ \<Rightarrow> True | None \<Rightarrow> False" by code_simp
  then have s1: "walk_step ?ctx wk0 wk1"
    unfolding wk1_def by (intro run_next_step) (auto simp: wk0_def split: option.split_asm)
  have "case run_next ?ctx (the (run_next ?ctx (fst (the (start_root ?ctx demo_world))))) of Some _ \<Rightarrow> True | None \<Rightarrow> False"
    by code_simp
  then have s2: "walk_step ?ctx wk1 wk2"
    unfolding wk2_def by (intro run_next_step) (auto simp: wk1_def wk0_def split: option.split_asm)
  have fin: "wk_work wk2 = []" "ds_success (wk_states wk2 ! 0)"
  proof -
    have "case wk_work (the (run_next ?ctx (the (run_next ?ctx (fst (the (start_root ?ctx demo_world))))))) of [] \<Rightarrow> True | _ \<Rightarrow> False"
      by code_simp
    then show "wk_work wk2 = []" unfolding defs by (auto split: list.split_asm)
    show "ds_success (wk_states wk2 ! 0)" unfolding defs by code_simp
  qed
  have "no_errors (w_log demo_world)" by code_simp
  from walk_reports_errors [OF s0 this _ fin(1)] s0 s1 s2 fin(2) show ?thesis
    by (meson converse_rtranclp_into_rtranclp rtranclp.rtrancl_refl)
qed



end
