(* ===== verification/Walk_Frame.thy ===== *)
theory Walk_Frame
  imports Tree_Walk
begin

text \<open>
  What the reconciler can do to a replica is what the replica's operations can do: a property of a
  replica's state that each of its operations keeps, whether it succeeds or fails, is kept by
  every operation of \<open>reconcile/mutate.rs\<close> and \<open>reconcile/tree_walk.rs\<close>, and so by a whole walk, in any order of
  its tasks. The operations of one replica with such a property are the locales
  \<open>replica_frame\<close> and \<open>ancestor_frame\<close>; three of them make a \<open>walk_frame\<close>.
\<close>

section \<open>One replica\<close>

locale replica_frame =
  fixes rep :: "('s, 'd, 'i, 'o, 'z) replica_scheme" and P :: "'s \<Rightarrow> bool"
  assumes keep_set_dir_clean: "r_set_dir_clean rep s d = Some (s', b) \<Longrightarrow> P s \<Longrightarrow> P s'"
    and keep_root: "r_root rep s = Some (s', h) \<Longrightarrow> P s \<Longrightarrow> P s'"
    and keep_list: "r_list rep s d = Some (s', d', fs) \<Longrightarrow> P s \<Longrightarrow> P s'"
    and keep_rename: "r_rename rep s d n n' = Some (s', d', u) \<Longrightarrow> P s \<Longrightarrow> P s'"
    and keep_remove: "r_remove rep s d nf = Some (s', d', u) \<Longrightarrow> P s \<Longrightarrow> P s'"
    and keep_create: "r_create rep s d nf x = Some (s', d', q) \<Longrightarrow> P s \<Longrightarrow> P s'"
    and keep_update: "r_update rep s d n old fd x = Some (s', d', q) \<Longrightarrow> P s \<Longrightarrow> P s'"
    and keep_chdir: "r_chdir rep s d n = Some (s', h) \<Longrightarrow> P s \<Longrightarrow> P s'"
    and keep_synthdir: "r_synthdir rep s d n mode = Some (s', d', sub) \<Longrightarrow> P s \<Longrightarrow> P s'"
    and keep_rmdir: "r_rmdir rep s d = Some (s', d', u) \<Longrightarrow> P s \<Longrightarrow> P s'"
    and keep_transfer: "r_transfer rep s d nf = Some (s', t) \<Longrightarrow> P s \<Longrightarrow> P s'"
begin

lemmas keeps = keep_set_dir_clean keep_root keep_list keep_rename keep_remove keep_create keep_update keep_chdir
  keep_synthdir keep_rmdir keep_transfer

lemma remove_recursively_keeps_aux:
  "remove_recursively rp s d es = Some r \<Longrightarrow> rp = rep \<longrightarrow> P s \<longrightarrow> P (fst r)"
proof (induction rule: remove_recursively.raw_induct [rotated 1, consumes 1])
  case (1 rr rp s d es r)
  have ih: "rr rep s d es = Some (s', d', u) \<Longrightarrow> P s \<Longrightarrow> P s'" for s d es s' d' u using 1(1) by fastforce
  obtain s' d' u where r: "r = (s', d', u)" by (metis prod_cases3)
  from 1(2) show ?case unfolding r
    by (auto split: option.split_asm list.split_asm Option.bind_split_asm sum.split_asm if_split_asm)
      (blast dest: keeps ih)+
qed

lemma remove_recursively_keeps: "remove_recursively rep s d es = Some (s', d', u) \<Longrightarrow> P s \<Longrightarrow> P s'"
  using remove_recursively_keeps_aux by fastforce

lemma try_rename_replica_keeps:
  "try_rename_replica rep s d files dn n n' side = Some (s', d', files', lg, ok) \<Longrightarrow> P s \<Longrightarrow> P s'"
  by (auto simp: try_rename_replica_def split: Option.bind_split_asm sum.split_asm option.split_asm dest: keep_rename)

lemma mark_clean_keeps: "mark_clean rep s d side dp = Some (s', lg, ok) \<Longrightarrow> P s \<Longrightarrow> P s'"
  by (auto simp: mark_clean_def split: Option.bind_split_asm sum.split_asm dest: keep_set_dir_clean)

lemma try_rmdir_keeps: "try_rmdir rep s d dp side = Some (s', lg, ok) \<Longrightarrow> P s \<Longrightarrow> P s'"
  by (auto simp: try_rmdir_def split: Option.bind_split_asm sum.split_asm dest: keep_rmdir)

lemma try_chdir_keeps: "try_chdir rep s d pn n side = Some (s', lg, h) \<Longrightarrow> P s \<Longrightarrow> P s'"
  by (auto simp: try_chdir_def split: Option.bind_split_asm sum.split_asm dest: keep_chdir)

lemma chdir_or_synth_keeps: "chdir_or_synth rep s d side ph pn n mode = Some (s', d', lg, h) \<Longrightarrow> P s \<Longrightarrow> P s'"
  by (auto simp: chdir_or_synth_def split: Option.bind_split_asm if_split_asm dest: try_chdir_keeps keep_synthdir)

lemma chdir_else_synth_keeps: "chdir_else_synth rep s d n mode = Some (s', d', h) \<Longrightarrow> P s \<Longrightarrow> P s'"
  by (auto simp: chdir_else_synth_def split: Option.bind_split_asm sum.split_asm) (blast dest: keep_chdir keep_synthdir)+

lemma read_dir_contents_keeps:
  "read_dir_contents rx rep s d dp rb side = Some (s', d', lg, c) \<Longrightarrow> P s \<Longrightarrow> P s'"
  by (auto simp: read_dir_contents_def split: Option.bind_split_asm sum.split_asm dest: keep_list)

end

locale ancestor_frame = replica_frame rep P
  for rep :: "('s, 'd, 'i, 'o, 'z) ancestor_like_scheme" and P :: "'s \<Rightarrow> bool" +
  assumes keep_condemn: "r_condemn rep s d n = Some (s', d', u) \<Longrightarrow> P s \<Longrightarrow> P s'"
    and keep_uncondemn: "r_uncondemn rep s d n = Some (s', d', u) \<Longrightarrow> P s \<Longrightarrow> P s'"
begin

lemma write_ancestor_keeps:
  "write_ancestor rep s d files n old new = Some (s', d', files', u) \<Longrightarrow> P s \<Longrightarrow> P s'"
  by (cases old; cases new) (auto split: Option.bind_split_asm sum.split_asm if_split_asm dest: keeps)

lemma replace_ancestor_keeps:
  "replace_ancestor rep s d files n old new = Some (s', d', files', u) \<Longrightarrow> P s \<Longrightarrow> P s'"
  by (auto simp: replace_ancestor_def split: Option.bind_split_asm sum.split_asm if_split_asm)
    (blast dest: keep_chdir remove_recursively_keeps write_ancestor_keeps)+

lemma try_replace_ancestor_keeps:
  "try_replace_ancestor rep s d files dn n old new = Some (s', d', files', lg, ok) \<Longrightarrow> P s \<Longrightarrow> P s'"
  by (auto simp: try_replace_ancestor_def split: Option.bind_split_asm dest: replace_ancestor_keeps)

end

section \<open>Two and three replicas\<close>

lemma replace_replica_keeps:
  assumes "replica_frame dst P" "replica_frame src Q"
    and "replace_replica dst s d files src s2 d2 dn n old new side = Some (s', d', files', s2', lg, q)" "P s" "Q s2"
  shows "P s' \<and> Q s2'"
  using assms(3-5)
  by (auto simp: replace_replica_def split: Option.bind_split_asm sum.split_asm if_split_asm option.split_asm)
    (blast dest: replica_frame.keeps [OF assms(1)] replica_frame.keeps [OF assms(2)])+

lemma apply_use_keeps:
  assumes "replica_frame dst P" "ancestor_frame anc R" "replica_frame src Q"
    and "apply_use dst s dc anc as ac src s2 d2 dn n old_dst old_src side = Some (s', dc', as', ac', s2', lg, res)"
    and "P s" "R as" "Q s2"
  shows "P s' \<and> R as' \<and> Q s2'"
  using assms(4-7)
  by (auto simp: apply_use_def Let_def split: Option.bind_split_asm sum.split_asm if_split_asm
      dest: ancestor_frame.try_replace_ancestor_keeps [OF assms(2)] replace_replica_keeps [OF assms(1,3)])

locale walk_frame = cli: replica_frame "ctx_cli ctx" PC + anc: ancestor_frame "ctx_anc ctx" PA + srv: replica_frame "ctx_srv ctx" PV
  for ctx :: "('cs, 'cd, 'as, 'ad, 'vs, 'vd, 'x, 'y, 'ai, 'ao, 'rx) recon_context"
    and PC :: "'cs \<Rightarrow> bool" and PA :: "'as \<Rightarrow> bool" and PV :: "'vs \<Rightarrow> bool"
begin

definition kept :: "('cs, 'as, 'vs) world \<Rightarrow> bool" where
  "kept w = (PC (w_cli w) \<and> PA (w_anc w) \<and> PV (w_srv w))"

lemma kept_simps [simp]:
  "kept (add_logs lg w) = kept w" "kept (log_entry lvl e w) = kept w" "kept (w\<lparr>w_polls := k\<rparr>) = kept w"
  by (simp_all add: kept_def log_entry_def)

lemma set_keeps:
  "set_anc w dir (as, ad, af, lg, ok) = Some (w', dir', b) \<Longrightarrow> kept w \<Longrightarrow> PA as \<Longrightarrow> kept w'"
  "set_cli w dir (cs, cd, cf, lg, ok) = Some (w', dir', b) \<Longrightarrow> kept w \<Longrightarrow> PC cs \<Longrightarrow> kept w'"
  "set_srv w dir (vs, vd, vf, lg, ok) = Some (w', dir', b) \<Longrightarrow> kept w \<Longrightarrow> PV vs \<Longrightarrow> kept w'"
  by (auto simp: set_anc_def set_cli_def set_srv_def kept_def)

lemma bind_set_keeps:
  "Option.bind m (set_anc w dir) = Some (w', dir', b) \<Longrightarrow> kept w \<Longrightarrow> (\<And>s d f lg ok. m = Some (s, d, f, lg, ok) \<Longrightarrow> PA s) \<Longrightarrow> kept w'"
  "Option.bind m2 (set_cli w dir) = Some (w', dir', b) \<Longrightarrow> kept w \<Longrightarrow> (\<And>s d f lg ok. m2 = Some (s, d, f, lg, ok) \<Longrightarrow> PC s) \<Longrightarrow> kept w'"
  "Option.bind m3 (set_srv w dir) = Some (w', dir', b) \<Longrightarrow> kept w \<Longrightarrow> (\<And>s d f lg ok. m3 = Some (s, d, f, lg, ok) \<Longrightarrow> PV s) \<Longrightarrow> kept w'"
  by (auto split: Option.bind_split_asm intro: set_keeps)

lemma keptD: "kept w \<Longrightarrow> PC (w_cli w)" "kept w \<Longrightarrow> PA (w_anc w)" "kept w \<Longrightarrow> PV (w_srv w)"
  by (simp_all add: kept_def)

lemma finish_ancestor_keeps: "finish_ancestor ctx dn n new w dir = Some (w', dir', res) \<Longrightarrow> kept w \<Longrightarrow> kept w'"
  by (auto simp: finish_ancestor_def split: Option.bind_split_asm
      intro: set_keeps dest: anc.try_replace_ancestor_keeps keptD(2))

lemma condemn_step_keeps:
  "condemn_step (r_condemn (ctx_anc ctx)) dn n w dir = Some (w', dir', ok) \<Longrightarrow> kept w \<Longrightarrow> kept w'"
  "condemn_step (r_uncondemn (ctx_anc ctx)) dn n w dir = Some (w', dir', ok) \<Longrightarrow> kept w \<Longrightarrow> kept w'"
  by (auto simp: condemn_step_def split: Option.bind_split_asm)
    (metis anc.keep_condemn anc.keep_uncondemn keptD(2) set_keeps(1) surj_pair)+

lemma split_keeps:
  "split_before ctx dn n st w dir = Some (w', dir', ok) \<Longrightarrow> kept w \<Longrightarrow> kept w'"
  "split_rename ctx dn n new side w dir = Some (w', dir', ok) \<Longrightarrow> kept w \<Longrightarrow> kept w'"
proof -
  show "split_before ctx dn n st w dir = Some (w', dir', ok) \<Longrightarrow> kept w \<Longrightarrow> kept w'"
    by (cases st) (auto elim!: bind_set_keeps(1) dest: anc.try_replace_ancestor_keeps condemn_step_keeps keptD(2))
  show "split_rename ctx dn n new side w dir = Some (w', dir', ok) \<Longrightarrow> kept w \<Longrightarrow> kept w'"
    by (cases side) (auto elim!: bind_set_keeps(2,3) dest: cli.try_rename_replica_keeps srv.try_rename_replica_keeps keptD(1,3))
qed

lemma split_after_keeps: "split_after ctx dn n new st w dir = Some (w', dir', ok) \<Longrightarrow> kept w \<Longrightarrow> kept w'"
proof (cases st)
  case Move
  assume s: "split_after ctx dn n new st w dir = Some (w', dir', ok)" and k: "kept w"
  from s Move obtain w1 dir1 ok1 where
    m: "(if \<not> table_has (anc_files dir) n then Some (w, dir, True)
        else Option.bind (try_rename_replica (ctx_anc ctx) (w_anc w) (sd_dir (dc_anc dir)) (anc_files dir)
          dn n new SideAncestor) (set_anc w dir)) = Some (w1, dir1, ok1)"
    and c: "(if ok1 then condemn_step (r_uncondemn (ctx_anc ctx)) dn n w1 dir1 else Some (w1, dir1, False)) = Some (w', dir', ok)"
    by (auto split: Option.bind_split_asm)
  have "kept w1"
    using m k by (auto split: if_split_asm elim!: bind_set_keeps(1) dest: anc.try_rename_replica_keeps keptD(2))
  with c show ?thesis by (auto split: if_split_asm dest: condemn_step_keeps)
qed auto

lemma apply_split_keeps: "apply_split ctx w dir dn n side st = Some (w', dir', ok) \<Longrightarrow> kept w \<Longrightarrow> kept w'"
  unfolding apply_split_def
  by (auto split: Option.bind_split_asm if_split_asm dest!: split_keeps split_after_keeps)

lemma use_keeps:
  "use_client ctx w dir dn n old_cli old_srv = Some (w', dir', res) \<Longrightarrow> kept w \<Longrightarrow> kept w'"
  "use_server ctx w dir dn n old_cli old_srv = Some (w', dir', res) \<Longrightarrow> kept w \<Longrightarrow> kept w'"
proof -
  have k: "kept (w\<lparr>w_cli := cs, w_anc := as, w_srv := vs\<rparr>) = (PC cs \<and> PA as \<and> PV vs)" for cs as vs by (simp add: kept_def)
  show "use_client ctx w dir dn n old_cli old_srv = Some (w', dir', res) \<Longrightarrow> kept w \<Longrightarrow> kept w'"
    by (auto simp: use_client_def Let_def k keptD split: Option.bind_split_asm sum.split_asm
        dest!: apply_use_keeps [OF srv.replica_frame_axioms anc.ancestor_frame_axioms cli.replica_frame_axioms] finish_ancestor_keeps)
  show "use_server ctx w dir dn n old_cli old_srv = Some (w', dir', res) \<Longrightarrow> kept w \<Longrightarrow> kept w'"
    by (auto simp: use_server_def Let_def k keptD split: Option.bind_split_asm sum.split_asm
        dest!: apply_use_keeps [OF cli.replica_frame_axioms anc.ancestor_frame_axioms srv.replica_frame_axioms] finish_ancestor_keeps)
qed

lemma apply_reconciliation_keeps:
  assumes "apply_reconciliation ctx w dir dn n recon old_cli old_srv = Some (w', dir', res)" "kept w"
  shows "kept w'"
  using assms
  by (auto simp: apply_reconciliation_def should_stop_def split: if_split_asm reconciliation.split_asm
      reconciliation_side.split_asm Option.bind_split_asm dest: finish_ancestor_keeps use_keeps apply_split_keeps)

text \<open>The walk.\<close>

abbreviation wkept :: "('cs, 'cd, 'as, 'ad, 'vs, 'vd, 'rx) walk \<Rightarrow> bool" where
  "wkept wk \<equiv> kept (wk_world wk)"

lemma recurse_world [simp]: "wk_world (recurse_and_then cd ad vd rules i os wk) = wk_world wk"
  "wk_world (fail i wk) = wk_world wk"
  by (simp_all add: recurse_and_then_def fail_def)

lemma recurse_into_dir_keeps:
  "recurse_into_dir ctx dir pn n rules i wk = Some wk' \<Longrightarrow> wkept wk \<Longrightarrow> wkept wk'"
  unfolding recurse_into_dir_def Let_def
  by (auto simp: kept_def split: Option.bind_split_asm option.split_asm if_split_asm
      dest!: cli.try_chdir_keeps anc.try_chdir_keeps srv.try_chdir_keeps)

lemma recursive_delete_keeps:
  "recursive_delete ctx dir pn n rules i side mode wk = Some (wk', dir') \<Longrightarrow> wkept wk \<Longrightarrow> wkept wk'"
  unfolding recursive_delete_def Let_def
  by (auto simp: kept_def split: Option.bind_split_asm option.split_asm
      dest!: cli.chdir_or_synth_keeps anc.chdir_else_synth_keeps srv.chdir_or_synth_keeps)

lemma process_file_keeps:
  "process_file ctx dp n i wk dir = Some (wk', dir') \<Longrightarrow> wkept wk \<Longrightarrow> wkept wk'"
  unfolding process_file_def Let_def
  by (auto split: Option.bind_split_asm prod.split_asm apply_result.split_asm bool.split_asm
      dest!: apply_reconciliation_keeps dest: recurse_into_dir_keeps recursive_delete_keeps)

lemma todo_loop_keeps_aux:
  "todo_loop c dp i wk dir = Some r \<Longrightarrow> c = ctx \<longrightarrow> wkept wk \<longrightarrow> wkept (fst r)"
proof (induction rule: todo_loop.raw_induct [rotated 1, consumes 1])
  case (1 tl c dp i wk dir r)
  have ih: "tl ctx dp i wk dir = Some (wk', dir') \<Longrightarrow> wkept wk \<Longrightarrow> wkept wk'" for dp i wk dir wk' dir'
    using 1(1) by fastforce
  obtain wk' dir' where r: "r = (wk', dir')" by force
  from 1(2) show ?case unfolding r
    by (auto split: option.split_asm Option.bind_split_asm) (blast dest: process_file_keeps ih)
qed

lemma todo_loop_keeps: "todo_loop ctx dp i wk dir = Some (wk', dir') \<Longrightarrow> wkept wk \<Longrightarrow> wkept wk'"
  using todo_loop_keeps_aux by fastforce

lemma read_all_keeps: "read_all ctx c a v b w = Some (w', d) \<Longrightarrow> kept w \<Longrightarrow> kept w'"
  unfolding read_all_def Let_def
  by (auto simp: kept_def split: Option.bind_split_asm sum.split_asm
      dest!: cli.read_dir_contents_keeps anc.read_dir_contents_keeps srv.read_dir_contents_keeps)

lemma finish_task_keeps: "finish_task_in_dir i sub wk = Some wk' \<Longrightarrow> wkept wk \<Longrightarrow> wkept wk'"
  by (auto simp: finish_task_in_dir_def Let_def split: Option.bind_split_asm if_split_asm)

lemma process_contents_keeps: "process_contents ctx dp par os dir wk = Some wk' \<Longrightarrow> wkept wk \<Longrightarrow> wkept wk'"
  unfolding process_contents_def Let_def
  by (auto split: Option.bind_split_asm dest!: todo_loop_keeps finish_task_keeps)

lemma process_dir_keeps: "process_dir ctx c a v b par os wk = Some (wk', ok) \<Longrightarrow> wkept wk \<Longrightarrow> wkept wk'"
  unfolding process_dir_def check_stop_def should_stop_def
  by (auto split: Option.bind_split_asm sum.split_asm if_split_asm dest!: read_all_keeps process_contents_keeps)

lemma mark_both_clean_keeps: "mark_both_clean ctx dir w = Some (w', ok) \<Longrightarrow> kept w \<Longrightarrow> kept w'"
  unfolding mark_both_clean_def Let_def
  by (auto simp: kept_def split: Option.bind_split_asm if_split_asm dest!: cli.mark_clean_keeps srv.mark_clean_keeps)

lemma delete_or_mark_clean_keeps: "delete_or_mark_clean ctx dir emp w = Some (w', ok) \<Longrightarrow> kept w \<Longrightarrow> kept w'"
  unfolding delete_or_mark_clean_def Let_def
  by (auto simp: kept_def split: Option.bind_split_asm if_split_asm
      dest!: cli.try_rmdir_keeps anc.try_rmdir_keeps srv.try_rmdir_keeps)
    (auto simp: kept_def dest: mark_both_clean_keeps)

lemma run_task_keeps: "run_task ctx t wk = Some wk' \<Longrightarrow> wkept wk \<Longrightarrow> wkept wk'"
proof (cases t)
  case (CompleteTask dir sub i os)
  assume r: "run_task ctx t wk = Some wk'" and k: "wkept wk"
  have o: "run_on_success ctx os dir b w = Some (w', ok) \<Longrightarrow> kept w \<Longrightarrow> kept w'" for b w w' ok
    by (cases os) (auto dest: mark_both_clean_keeps delete_or_mark_clean_keeps)
  from r k CompleteTask show ?thesis
    by (auto simp: Let_def split: Option.bind_split_asm if_split_asm dest!: finish_task_keeps o)
qed (auto split: Option.bind_split_asm if_split_asm dest!: process_dir_keeps finish_task_keeps)

lemma start_root_keeps: "start_root ctx w = Some (wk, r) \<Longrightarrow> kept w \<Longrightarrow> wkept wk"
  unfolding start_root_def Let_def
  by (auto simp: kept_def split: Option.bind_split_asm sum.split_asm dest!: cli.keep_root anc.keep_root srv.keep_root)

lemma walk_keeps:
  assumes "(walk_step ctx)\<^sup>*\<^sup>* wk wk'" "wkept wk"
  shows "wkept wk'"
  using assms
proof (induction rule: rtranclp_induct)
  case (step y z)
  then show ?case by (auto elim!: walk_step.cases dest!: run_task_keeps)
qed simp

end

end
