(* ===== verification/Dry_Run.thy ===== *)
theory Dry_Run
  imports Walk_Frame
begin

text \<open>
  The wrapper for dry runs, \<open>src/dry_run_replica.rs\<close>: it passes reading on to the wrapped replica and only
  remembers, in the directory handle, the directories that were to be created and the renames.

  The locale \<open>reads_only\<close> states what the wrapper needs of a replica for a dry run to change nothing: that reading
  does not. The wrapper turns such a replica into a \<open>replica_frame\<close>, so a whole walk over wrapped
  replicas leaves all three as they were. It is needed: the ancestor and the memory replica delete
  condemned files when they list a directory, and do so during a dry run.
\<close>

section \<open>Definitions\<close>

record 'd dry_directory =
  dy_path :: os_string
  dy_delegate :: "'d option"
  dy_new_subdirs :: "os_string list"
  dy_renames :: "(os_string \<times> os_string) list"

definition dry_sub :: "'d dry_directory \<Rightarrow> os_string \<Rightarrow> 'd option \<Rightarrow> 'd dry_directory" where
  "dry_sub d name delegate =
     \<lparr>dy_path = dy_path d @ ''/'' @ name, dy_delegate = delegate, dy_new_subdirs = [], dy_renames = []\<rparr>"

definition dry_root :: "('s, 'd, 'i, 'o, 'z) replica_scheme \<Rightarrow> 's \<Rightarrow> ('s \<times> 'd dry_directory res) option" where
  "dry_root rep s =
     Option.bind (r_root rep s) (\<lambda>(s1, r).
       case r of
         Inl e \<Rightarrow> Some (s1, Inl e)
       | Inr delegate \<Rightarrow>
           Some (s1, Inr \<lparr>dy_path = r_full_path rep delegate, dy_delegate = Some delegate, dy_new_subdirs = [], dy_renames = []\<rparr>))"

definition dry_list ::
  "('s, 'd, 'i, 'o, 'z) replica_scheme \<Rightarrow> 's \<Rightarrow> 'd dry_directory \<Rightarrow> ('s \<times> 'd dry_directory \<times> named_file list res) option" where
  "dry_list rep s d =
     (case dy_delegate d of
        None \<Rightarrow> Some (s, d, Inr [])
      | Some h \<Rightarrow> Option.bind (r_list rep s h) (\<lambda>(s1, h1, r). Some (s1, d\<lparr>dy_delegate := Some h1\<rparr>, r)))"

definition dry_rename :: "'s \<Rightarrow> 'd dry_directory \<Rightarrow> os_string \<Rightarrow> os_string \<Rightarrow> ('s \<times> 'd dry_directory \<times> unit res) option" where
  "dry_rename s d old new = Some (s, d\<lparr>dy_renames := AList.update new old (dy_renames d)\<rparr>, Inr ())"

definition dry_create :: "'s \<Rightarrow> 'd dry_directory \<Rightarrow> named_file \<Rightarrow> unit \<Rightarrow> ('s \<times> 'd dry_directory \<times> file_data res) option" where
  "dry_create s d f x =
     (case f of (name, fd) \<Rightarrow>
        Some (s, if fd_is_dir fd then d\<lparr>dy_new_subdirs := List.insert name (dy_new_subdirs d)\<rparr> else d, Inr fd))"

definition dry_chdir ::
  "('s, 'd, 'i, 'o, 'z) replica_scheme \<Rightarrow> 's \<Rightarrow> 'd dry_directory \<Rightarrow> os_string \<Rightarrow> ('s \<times> 'd dry_directory res) option" where
  "dry_chdir rep s d name =
     (let real = (case map_of (dy_renames d) name of Some old \<Rightarrow> old | None \<Rightarrow> name) in
      case (dy_delegate d, real \<in> set (dy_new_subdirs d)) of
        (Some h, False) \<Rightarrow>
          Option.bind (r_chdir rep s h real) (\<lambda>(s1, r).
            case r of Inl e \<Rightarrow> Some (s1, Inl e) | Inr sub \<Rightarrow> Some (s1, Inr (dry_sub d name (Some sub))))
      | _ \<Rightarrow> Some (s, Inr (dry_sub d name None)))"

definition dry_run :: "('s, 'd, 'i, 'o, 'z) replica_scheme \<Rightarrow> ('s, 'd dry_directory, unit, unit) ancestor_like" where
  "dry_run rep =
     \<lparr>r_full_path = dy_path,
      r_is_fatal = r_is_fatal rep,
      r_is_dir_dirty = (\<lambda>s d. case dy_delegate d of None \<Rightarrow> True | Some h \<Rightarrow> r_is_dir_dirty rep s h),
      r_set_dir_clean = (\<lambda>s d. Some (s, Inr False)),
      r_root = dry_root rep,
      r_list = dry_list rep,
      r_rename = dry_rename,
      r_remove = (\<lambda>s d f. Some (s, d, Inr ())),
      r_create = dry_create,
      r_update = (\<lambda>s d name old new x. Some (s, d, Inr new)),
      r_chdir = dry_chdir rep,
      r_synthdir = (\<lambda>s d name mode. Some (s, d, dry_sub d name None)),
      r_rmdir = (\<lambda>s d. Some (s, d, Inr ())),
      r_transfer = (\<lambda>s d f. Some (s, Inr ())),
      r_prepare = r_prepare rep,
      r_clean_up = r_clean_up rep,
      r_null_transfer = (\<lambda>fd. ()),
      r_condemn = (\<lambda>s d name. Some (s, d, Inr ())),
      r_uncondemn = (\<lambda>s d name. Some (s, d, Inr ()))\<rparr>"

text \<open>The replicas as they were: the same directories with nothing condemned, the same database with nothing
  condemned.\<close>

definition mem_same :: "mem_dirs \<Rightarrow> mem_state \<Rightarrow> bool" where
  "mem_same ds s = (ms_dirs s = ds \<and> list_all (\<lambda>(p, c). md_condemned c = []) ds)"

definition anc_same :: "db \<Rightarrow> anc_state \<Rightarrow> bool" where
  "anc_same d s = (cx_db (an_conn s) = d \<and> committed (an_conn s) = d \<and> db_condemned d = [])"

definition dry_ctx ::
  "(mem_state, mem_handle dry_directory, anc_state, dir_handle dry_directory, mem_state, mem_handle dry_directory, unit, unit,
    unit, unit, unit) recon_context" where
  "dry_ctx =
     \<lparr>ctx_cli = replica.truncate (dry_run (memory_replica (\<lambda>_. None))), ctx_anc = dry_run (ancestor_replica (\<lambda>_. None)),
      ctx_srv = replica.truncate (dry_run (memory_replica (\<lambda>_. None))), ctx_rx_match = (\<lambda>_ _. False),
      ctx_root_rules = file_engine_new (single_mode demo_mode True), ctx_interrupted = (\<lambda>_. False)\<rparr>"

section \<open>Lemmas\<close>

locale reads_only =
  fixes rep :: "('s, 'd, 'i, 'o, 'z) replica_scheme" and P :: "'s \<Rightarrow> bool"
  assumes root_reads: "r_root rep s = Some (s', h) \<Longrightarrow> P s \<Longrightarrow> P s'"
    and list_reads: "r_list rep s d = Some (s', d', fs) \<Longrightarrow> P s \<Longrightarrow> P s'"
    and chdir_reads: "r_chdir rep s d n = Some (s', h) \<Longrightarrow> P s \<Longrightarrow> P s'"

lemma dry_run_ops [simp]:
  "r_set_dir_clean (dry_run rep) s d = Some (s, Inr False)"
  "r_root (dry_run rep) = dry_root rep" "r_list (dry_run rep) = dry_list rep" "r_rename (dry_run rep) = dry_rename"
  "r_remove (dry_run rep) s d f = Some (s, d, Inr ())" "r_create (dry_run rep) = dry_create"
  "r_update (dry_run rep) s d n fd fd' x = Some (s, d, Inr fd')" "r_chdir (dry_run rep) = dry_chdir rep"
  "r_synthdir (dry_run rep) s d n mode = Some (s, d, dry_sub d n None)" "r_rmdir (dry_run rep) s d = Some (s, d, Inr ())"
  "r_transfer (dry_run rep) s d f = Some (s, Inr ())" "r_condemn (dry_run rep) s d n = Some (s, d, Inr ())"
  "r_uncondemn (dry_run rep) s d n = Some (s, d, Inr ())"
  by (simp_all add: dry_run_def)

sublocale reads_only \<subseteq> dry: ancestor_frame "dry_run rep" P
  by unfold_locales
    (auto simp: dry_root_def dry_list_def dry_rename_def dry_create_def dry_chdir_def Let_def
      split: Option.bind_split_asm option.split_asm sum.split_asm bool.split_asm prod.split_asm
      dest: root_reads list_reads chdir_reads)

context reads_only
begin

lemma dry_frame: "ancestor_frame (dry_run rep) P"
  by (rule dry.ancestor_frame_axioms)

end

lemma truncate_frame: "replica_frame rep P \<Longrightarrow> replica_frame (replica.truncate rep) P"
  by (simp add: replica_frame_def replica.defs)

lemma dry_frames:
  assumes "reads_only rep P"
  shows "replica_frame (dry_run rep) P" "ancestor_frame (dry_run rep) P"
  using reads_only.dry_frame [OF assms] by (simp_all add: ancestor_frame_def)

text \<open>The memory replica without faults.\<close>

lemma update_same: "map_of xs k = Some v \<Longrightarrow> AList.update k v xs = xs"
  by (induction xs) (auto split: if_split_asm)

lemma mem_list_same:
  assumes "mem_list (\<lambda>_. None) s d = Some (s', d', fs)" "mem_same ds s"
  shows "mem_same ds s'"
proof (cases "map_of (ms_dirs s) (mh_path d)")
  case (Some c)
  with assms(2) have "md_condemned c = []" by (auto simp: mem_same_def list_all_iff dest!: map_of_SomeD)
  with Some assms show ?thesis
    by (auto simp: mem_list_def test_op_def mem_same_def update_same split: Option.bind_split_asm)
qed (use assms in \<open>auto simp: mem_list_def test_op_def mem_same_def\<close>)

interpretation mem_reads: reads_only "memory_replica (\<lambda>_. None)" "mem_same ds"
proof
  show "r_list (memory_replica (\<lambda>_. None)) s d = Some (s', d', fs) \<Longrightarrow> mem_same ds s \<Longrightarrow> mem_same ds s'" for s d s' d' fs
    by (simp add: memory_replica_def mem_list_same)
qed (auto simp: memory_replica_def mem_root_def mem_chdir_def test_op_def mem_same_def)

text \<open>The ancestor, with faults.\<close>

definition conn_same :: "db \<Rightarrow> conn \<Rightarrow> bool" where
  "conn_same d c = (cx_db c = d \<and> committed c = d)"

lemma stmt_same: "conn_same d c \<Longrightarrow> (\<And>x. f d = Inr x \<Longrightarrow> fst x = d) \<Longrightarrow> conn_same d (fst (stmt flt f c))"
  by (fastforce simp: stmt_def conn_same_def committed_def Let_def split: option.split sum.split prod.split)

lemma query_same: "conn_same d c \<Longrightarrow> conn_same d (fst (query flt f c))"
  unfolding query_def by (rule stmt_same) auto

lemma bind_same:
  assumes "conn_same d c" "\<And>c. conn_same d c \<Longrightarrow> conn_same d (fst (m c))" "\<And>a c. conn_same d c \<Longrightarrow> conn_same d (fst (f a c))"
  shows "conn_same d (fst (sql_bind m f c))"
  using assms(1) assms(2) [of c] assms(3) by (auto simp: sql_bind_def split: prod.split sum.split)

lemma tx_same:
  assumes "conn_same d c" "\<And>c. conn_same d c \<Longrightarrow> conn_same d (fst (f c))"
  shows "conn_same d (fst (tx flt f c))"
proof -
  have b: "conn_same d (fst (begin_tx flt c))" "conn_same d c \<Longrightarrow> conn_same d (fst (commit_tx flt c))"
    "conn_same d c \<Longrightarrow> conn_same d (rollback_tx c)" if "conn_same d c" for c
    using that by (auto simp: begin_tx_def commit_tx_def rollback_tx_def conn_same_def committed_def Let_def split: option.split)
  obtain c1 r where c1: "begin_tx flt c = (c1, r)" by force
  with b(1) [OF assms(1)] have k1: "conn_same d c1" by simp
  obtain c2 r2 where c2: "f c1 = (c2, r2)" by force
  with assms(2) [OF k1] have k2: "conn_same d c2" by simp
  with b(2,3) [OF k2 k2] c1 c2 k1 show ?thesis by (auto simp: tx_def split: sum.split prod.split)
qed

lemma cascade_empty [simp]: "cascade n rows {} = {}"
  by (induction n) (simp_all add: children_of_def)

lemma purge_nothing: "db_condemned d = [] \<Longrightarrow> purge_condemned dir d = d" "db_condemned d = [] \<Longrightarrow> clear_condemned dir d = d"
  by (simp_all add: purge_condemned_def clear_condemned_def delete_files_def delete_ids_def)

lemma dao_list_same:
  assumes "conn_same d c" "db_condemned d = []"
  shows "conn_same d (fst (dao_list flt purge dir c))"
  unfolding dao_list_def
  by (rule tx_same [OF assms(1)])
    (auto intro!: bind_same stmt_same query_same simp: purge_nothing assms(2) sql_ok_def)

lemma with_dao_same:
  assumes "with_dao m s = (s', r)" "anc_same d s" "\<And>c. conn_same d c \<Longrightarrow> db_condemned d = [] \<Longrightarrow> conn_same d (fst (m c))"
  shows "anc_same d s'"
  using assms(1,2) assms(3) [of "an_conn s"]
  by (auto simp: with_dao_def anc_same_def conn_same_def split: prod.split_asm sum.split_asm)

interpretation anc_reads: reads_only "ancestor_replica flt" "anc_same d"
proof
  show "r_list (ancestor_replica flt) s h = Some (s', h', fs) \<Longrightarrow> anc_same d s \<Longrightarrow> anc_same d s'" for s h s' h' fs
    by (auto simp: ancestor_replica_def anc_list_def split: if_split_asm sum.split_asm prod.split_asm
        elim!: with_dao_same intro: dao_list_same)
  show "r_chdir (ancestor_replica flt) s h n = Some (s', h') \<Longrightarrow> anc_same d s \<Longrightarrow> anc_same d s'" for s h n s' h'
    by (auto simp: ancestor_replica_def anc_chdir_def get_by_name_def split: sum.split_asm prod.split_asm option.split_asm if_split_asm
        elim!: with_dao_same intro: query_same)
qed (simp add: ancestor_replica_def)

interpretation dry_walk: walk_frame dry_ctx "mem_same cd" "anc_same a" "mem_same vd"
  unfolding walk_frame_def dry_ctx_def
  by (simp add: truncate_frame mem_reads.dry.replica_frame_axioms anc_reads.dry.ancestor_frame_axioms)

section \<open>Properties\<close>



end
