(* ===== verification/Storage.thy ===== *)
theory Storage
  imports Errors_Log
begin

text \<open>
  The storage interface of the server, \<open>src/server/storage.rs\<close>: directories, which are versioned byte strings, and
  reference-counted objects, changed by transactions that are buffered and committed as a whole. The
  trait is a record of operations on the state of the storage.

  \<open>apply_op\<close> is the abstract meaning of one buffered operation and \<open>apply_ops\<close> that of a commit, as the
  trait's documentation states them: all operations or none. The accumulator of references is an XOR.
\<close>

section \<open>Definitions\<close>

type_synonym txid = "64 word"

record 's storage =
  st_is_fatal :: "'s \<Rightarrow> bool"
  st_getdir :: "'s \<Rightarrow> hash_id \<Rightarrow> 's \<times> (hash_id \<times> bytes) option res"
  st_getobj :: "'s \<Rightarrow> hash_id \<Rightarrow> 's \<times> bytes option res"
  st_check_dir_dirty :: "'s \<Rightarrow> hash_id \<Rightarrow> hash_id \<Rightarrow> 32 word \<Rightarrow> 's \<times> unit res"
  st_start_tx :: "'s \<Rightarrow> txid \<Rightarrow> 's \<times> unit res"
  st_commit :: "'s \<Rightarrow> txid \<Rightarrow> 's \<times> bool res"
  st_abort :: "'s \<Rightarrow> txid \<Rightarrow> 's \<times> unit res"
  st_mkdir :: "'s \<Rightarrow> txid \<Rightarrow> hash_id \<Rightarrow> hash_id \<Rightarrow> hash_id \<Rightarrow> bytes \<Rightarrow> 's \<times> unit res"
  st_updir :: "'s \<Rightarrow> txid \<Rightarrow> hash_id \<Rightarrow> hash_id \<Rightarrow> 32 word \<Rightarrow> bytes \<Rightarrow> 's \<times> unit res"
  st_rmdir :: "'s \<Rightarrow> txid \<Rightarrow> hash_id \<Rightarrow> hash_id \<Rightarrow> 32 word \<Rightarrow> 's \<times> unit res"
  st_linkobj :: "'s \<Rightarrow> txid \<Rightarrow> hash_id \<Rightarrow> hash_id \<Rightarrow> 's \<times> bool res"
  st_putobj :: "'s \<Rightarrow> txid \<Rightarrow> hash_id \<Rightarrow> hash_id \<Rightarrow> bytes \<Rightarrow> 's \<times> unit res"
  st_unlinkobj :: "'s \<Rightarrow> txid \<Rightarrow> hash_id \<Rightarrow> hash_id \<Rightarrow> 's \<times> unit res"
  st_watchdir :: "'s \<Rightarrow> hash_id \<Rightarrow> hash_id \<Rightarrow> 32 word \<Rightarrow> 's \<times> unit res"
  st_clean_up :: "'s \<Rightarrow> 's"

definition default_st_is_fatal :: "'s \<Rightarrow> bool" where
  "default_st_is_fatal s = False"

text \<open>A buffered operation; \<open>LinkObj\<close> holds the object's data, which a transaction keeps available.\<close>

datatype tx_op =
    Mkdir hash_id hash_id hash_id bytes
  | Updir hash_id hash_id "32 word" bytes
  | Rmdir hash_id hash_id "32 word"
  | LinkObj hash_id hash_id bytes
  | UnlinkObj hash_id hash_id

definition xor_byte :: "byte \<Rightarrow> byte \<Rightarrow> byte" where
  "xor_byte a b = char_of (xor (of_char a :: nat) (of_char b))"

text \<open>The loop \<open>for (accum, &new) in refs.iter_mut().zip(linkid.iter())\<close>.\<close>

fun xor_into :: "bytes \<Rightarrow> bytes \<Rightarrow> bytes" where
  "xor_into (a # as) (b # bs) = xor_byte a b # xor_into as bs"
| "xor_into as _ = as"

subsection \<open>The abstract storage\<close>

record store =
  sr_dirs :: "hash_id \<rightharpoonup> hash_id \<times> hash_id \<times> bytes"
  sr_refs :: "hash_id \<rightharpoonup> bytes"

definition U32_MAX :: nat where
  "U32_MAX = 2 ^ 32 - 1"

definition add_ref :: "hash_id \<Rightarrow> hash_id \<Rightarrow> store \<Rightarrow> store" where
  "add_ref i linkid a =
     a\<lparr>sr_refs := (sr_refs a)(i \<mapsto> case sr_refs a i of None \<Rightarrow> linkid | Some refs \<Rightarrow> xor_into refs linkid)\<rparr>"

definition modifiable :: "store \<Rightarrow> hash_id \<Rightarrow> hash_id \<Rightarrow> 32 word \<Rightarrow> (hash_id \<times> bytes) option" where
  "modifiable a i sv old_len =
     (case sr_dirs a i of
        None \<Rightarrow> None
      | Some (v, sv', c) \<Rightarrow> if sv' = sv \<and> length c = unat old_len then Some (v, c) else None)"

text \<open>\<open>Inr None\<close>: a condition of the operation does not hold.\<close>

fun apply_op :: "tx_op \<Rightarrow> store \<Rightarrow> store option res" where
  "apply_op (Mkdir i v sv c) a = Inr (if sr_dirs a i \<noteq> None then None else Some (a\<lparr>sr_dirs := (sr_dirs a)(i \<mapsto> (v, sv, c))\<rparr>))"
| "apply_op (Updir i sv old_len d) a =
     (case modifiable a i sv old_len of
        None \<Rightarrow> Inr None
      | Some (v, c) \<Rightarrow>
          if U32_MAX - unat old_len < length d then Inl (err DirectoryTooLarge)
          else Inr (Some (a\<lparr>sr_dirs := (sr_dirs a)(i \<mapsto> (v, sv, c @ d))\<rparr>)))"
| "apply_op (Rmdir i sv old_len) a =
     Inr (map_option (\<lambda>_. a\<lparr>sr_dirs := (sr_dirs a)(i := None)\<rparr>) (modifiable a i sv old_len))"
| "apply_op (LinkObj i linkid h) a = Inr (Some (add_ref i linkid a))"
| "apply_op (UnlinkObj i linkid) a = Inr (Some (add_ref i linkid a))"

fun apply_ops :: "tx_op list \<Rightarrow> store \<Rightarrow> store option res" where
  "apply_ops [] a = Inr (Some a)"
| "apply_ops (op # ops) a =
     (case apply_op op a of Inl e \<Rightarrow> Inl e | Inr None \<Rightarrow> Inr None | Inr (Some a1) \<Rightarrow> apply_ops ops a1)"

section \<open>Lemmas\<close>

lemma of_char_less: "(of_char (c :: char) :: nat) < 2 ^ 8"
  using nat_of_char_less_256 [of c] by simp

lemma xor_byte_self: "xor_byte (xor_byte a b) b = a"
proof -
  have "xor (of_char a :: nat) (of_char b) < 2 ^ 8"
    by (metis of_char_less take_bit_nat_eq_self take_bit_nat_eq_self_iff take_bit_xor)
  then have "(of_char (xor_byte a b) :: nat) = xor (of_char a) (of_char b)"
    by (simp add: xor_byte_def)
  then show ?thesis by (simp add: xor_byte_def [of "xor_byte a b"] xor.assoc)
qed

lemma xor_byte_comm: "xor_byte a b = xor_byte b a"
  by (simp add: xor_byte_def xor.commute)

lemma xor_into_length [simp]: "length (xor_into as bs) = length as"
  by (induction as bs rule: xor_into.induct) auto

lemma xor_into_self: "xor_into (xor_into as bs) bs = as"
  by (induction as bs rule: xor_into.induct) (auto simp: xor_byte_self)

end
