(* ===== verification/Crypt_Keys.thy ===== *)
theory Crypt_Keys
  imports Storage
begin

text \<open>
  Keys of the server's encryption, \<open>src/server/crypt.rs\<close>: how a passphrase gives a derived key, and how a derived key and
  a stored entry give the internal keys of the groups. The hash and the key derivation function are
  third-party code and arguments of the definitions, as are the random numbers.

  A \<open>BTreeMap\<close> whose order of iteration matters is a list sorted by its keys.
\<close>

section \<open>Definitions\<close>

subsection \<open>Ordered maps\<close>

fun bt_insert :: "'k :: linorder \<Rightarrow> 'v \<Rightarrow> ('k \<times> 'v) list \<Rightarrow> ('k \<times> 'v) list" where
  "bt_insert k v [] = [(k, v)]"
| "bt_insert k v ((k1, v1) # m) =
     (if k < k1 then (k, v) # (k1, v1) # m else if k = k1 then (k, v) # m else (k1, v1) # bt_insert k v m)"

definition bt_sorted :: "('k :: linorder \<times> 'v) list \<Rightarrow> bool" where
  "bt_sorted m = sorted_wrt (<) (map fst m)"

subsection \<open>Entries and chains\<close>

definition SCRYPT_18_14_12_8_1 :: string where
  "SCRYPT_18_14_12_8_1 = ''scrypt-18/14/12-8-1''"

definition BLKSZ :: nat where
  "BLKSZ = 16"

definition GROUP_EVERYONE :: string where
  "GROUP_EVERYONE = ''everyone''"

definition GROUP_ROOT :: string where
  "GROUP_ROOT = ''root''"

type_synonym date_time = int
type_synonym internal_key = hash_id

text \<open>\<open>'u\<close> are the unknown fields the serialiser keeps.\<close>

record 'u kdf_entry =
  ke_created :: date_time
  ke_updated :: "date_time option"
  ke_algorithm :: string
  ke_salt :: hash_id
  ke_hash :: hash_id
  ke_groups :: "(string \<times> hash_id) list"
  ke_unknown :: 'u

record 'u kdf_list =
  kl_keys :: "(string \<times> 'u kdf_entry) list"
  kl_unknown :: 'u

record key_chain =
  kc_keys :: "(string \<times> internal_key) list"
  kc_derived :: internal_key

text \<open>The libraries: SHA-3, scrypt with \<open>log n\<close>, \<open>r\<close> and \<open>p\<close>, and the default of the unknown fields.\<close>

record 'u crypto =
  cr_sha3 :: "bytes \<Rightarrow> hash_id"
  cr_scrypt :: "nat \<Rightarrow> nat \<Rightarrow> nat \<Rightarrow> bytes \<Rightarrow> bytes \<Rightarrow> hash_id"
  cr_unknown :: 'u

subsection \<open>Key chains\<close>

text \<open>\<open>generate_new\<close> takes the two random keys in the order they are drawn.\<close>

definition generate_new :: "internal_key \<Rightarrow> internal_key \<Rightarrow> key_chain" where
  "generate_new r1 r2 = \<lparr>kc_keys = bt_insert GROUP_EVERYONE r2 (bt_insert GROUP_ROOT r1 []), kc_derived = UNKNOWN_HASH\<rparr>"

definition empty_chain :: key_chain where
  "empty_chain = \<lparr>kc_keys = [], kc_derived = UNKNOWN_HASH\<rparr>"

definition chain_key :: "key_chain \<Rightarrow> string \<Rightarrow> internal_key res" where
  "chain_key c name = (case map_of (kc_keys c) name of None \<Rightarrow> Inl (err (Usage (KeyNotInGroup name))) | Some k \<Rightarrow> Inr k)"

definition dir_key :: "internal_key \<Rightarrow> bytes" where
  "dir_key k = take BLKSZ k"

definition hmac_secret :: "internal_key \<Rightarrow> bytes" where
  "hmac_secret k = take (BLKSZ * 2 - BLKSZ) (drop BLKSZ k)"

definition obj_hmac_secret :: "key_chain \<Rightarrow> bytes res" where
  "obj_hmac_secret c = (case chain_key c GROUP_EVERYONE of Inl e \<Rightarrow> Inl e | Inr k \<Rightarrow> Inr (hmac_secret k))"

subsection \<open>Derivation\<close>

definition scrypt_18_14_12_8_1 :: "'u crypto \<Rightarrow> bytes \<Rightarrow> bytes \<Rightarrow> hash_id" where
  "scrypt_18_14_12_8_1 cr passphrase salt =
     cr_scrypt cr (if length passphrase \<ge> 256 then 12 else if length passphrase \<ge> 64 then 14 else 18) 8 1 passphrase salt"

definition hmac :: "'u crypto \<Rightarrow> bytes \<Rightarrow> bytes \<Rightarrow> hash_id" where
  "hmac cr data secret = cr_sha3 cr (data @ secret)"

text \<open>The loop writes 32 bytes at most; where an argument ends, the zero of the default stays.\<close>

definition hixor :: "hash_id \<Rightarrow> hash_id \<Rightarrow> hash_id" where
  "hixor a b = (let x = take 32 (map (\<lambda>(a, b). xor_byte a b) (zip a b)) in x @ replicate (32 - length x) (CHR 0x00))"

definition reassoc_keys :: "'u crypto \<Rightarrow> 'u kdf_entry \<Rightarrow> key_chain \<Rightarrow> 'u kdf_entry" where
  "reassoc_keys cr entry chain =
     entry\<lparr>ke_groups := fold (\<lambda>(name, k). bt_insert name (hixor (hmac cr name (kc_derived chain)) k)) (kc_keys chain) []\<rparr>"

definition create_key ::
  "'u crypto \<Rightarrow> hash_id \<Rightarrow> bytes \<Rightarrow> key_chain \<Rightarrow> date_time \<Rightarrow> date_time option \<Rightarrow> 'u kdf_entry \<times> key_chain" where
  "create_key cr salt passphrase chain created updated =
     (let derived = scrypt_18_14_12_8_1 cr passphrase salt;
          chain1 = chain\<lparr>kc_derived := derived\<rparr>;
          entry = \<lparr>ke_created = created, ke_updated = updated, ke_algorithm = SCRYPT_18_14_12_8_1, ke_salt = salt,
                   ke_hash = cr_sha3 cr derived, ke_groups = [], ke_unknown = cr_unknown cr\<rparr>
      in (reassoc_keys cr entry chain1, chain1))"

definition try_derive_key_single :: "'u crypto \<Rightarrow> bytes \<Rightarrow> 'u kdf_entry \<Rightarrow> key_chain option" where
  "try_derive_key_single cr passphrase entry =
     (if ke_algorithm entry = SCRYPT_18_14_12_8_1 then
        let derived = scrypt_18_14_12_8_1 cr passphrase (ke_salt entry) in
        if cr_sha3 cr derived = ke_hash entry then
          Some \<lparr>kc_keys = fold (\<lambda>(name, diff). bt_insert name (hixor (hmac cr name derived) diff)) (ke_groups entry) [],
                kc_derived = derived\<rparr>
        else None
      else None)"

fun try_derive_key :: "'u crypto \<Rightarrow> bytes \<Rightarrow> (string \<times> 'u kdf_entry) list \<Rightarrow> key_chain option" where
  "try_derive_key cr passphrase [] = None"
| "try_derive_key cr passphrase ((_, k) # keys) =
     (case try_derive_key_single cr passphrase k of Some c \<Rightarrow> Some c | None \<Rightarrow> try_derive_key cr passphrase keys)"

definition xform_obj_id :: "'u crypto \<Rightarrow> hash_id \<Rightarrow> hash_id" where
  "xform_obj_id cr i = cr_sha3 cr i"

definition secret_dir_ver :: "'u crypto \<Rightarrow> hash_id \<Rightarrow> internal_key \<Rightarrow> hash_id" where
  "secret_dir_ver cr v k = hmac cr v (hmac_secret k)"

text \<open>Internal keys and hashes have 32 bytes.\<close>

definition sha3_ok :: "'u crypto \<Rightarrow> bool" where
  "sha3_ok cr = (\<forall>x. length (cr_sha3 cr x) = 32)"

definition chain_ok :: "key_chain \<Rightarrow> bool" where
  "chain_ok c = (bt_sorted (kc_keys c) \<and> (\<forall>(_, k)\<in>set (kc_keys c). length k = 32))"

definition entry_ok :: "'u kdf_entry \<Rightarrow> bool" where
  "entry_ok e = (bt_sorted (ke_groups e) \<and> (\<forall>(_, d)\<in>set (ke_groups e). length d = 32))"

definition demo_crypto :: "unit crypto" where
  "demo_crypto =
     \<lparr>cr_sha3 = (\<lambda>b. take 32 (b @ replicate 32 (CHR ''0''))),
      cr_scrypt = (\<lambda>n r p pass salt. take 32 (pass @ salt @ replicate 32 (CHR ''1''))), cr_unknown = ()\<rparr>"

section \<open>Lemmas\<close>

lemma bt_insert_map_of [simp]: "map_of (bt_insert k v m) = (map_of m)(k \<mapsto> v)"
  by (induction k v m rule: bt_insert.induct) auto

lemma bt_insert_set: "fst ` set (bt_insert k v m) = insert k (fst ` set m)"
  by (induction k v m rule: bt_insert.induct) auto

lemma bt_insert_set_sub: "set (bt_insert k v m) \<subseteq> insert (k, v) (set m)"
  by (induction k v m rule: bt_insert.induct) auto

lemma bt_insert_sorted [simp]: "bt_sorted m \<Longrightarrow> bt_sorted (bt_insert k v m)"
  unfolding bt_sorted_def
proof (induction k v m rule: bt_insert.induct)
  case (2 k v k1 v1 m)
  then show ?case using bt_insert_set [of k v m] by (auto simp flip: set_map)
qed simp

lemma bt_delete_sorted [simp]: "bt_sorted m \<Longrightarrow> bt_sorted (AList.delete k m)"
  unfolding bt_sorted_def AList.delete_eq by (induction m) auto

lemma bt_sorted_distinct: "bt_sorted m \<Longrightarrow> distinct (map fst m)"
  by (simp add: bt_sorted_def strict_sorted_iff)

lemma bt_sorted_map [simp]: "bt_sorted (map (\<lambda>(k, v). (k, f k v)) m) = bt_sorted m"
  by (simp add: bt_sorted_def comp_def case_prod_beta)

lemma bt_insert_end: "(\<And>k1. k1 \<in> fst ` set m \<Longrightarrow> k1 < k) \<Longrightarrow> bt_insert k v m = m @ [(k, v)]"
  by (induction k v m rule: bt_insert.induct) (auto simp: not_less_iff_gr_or_eq order.strict_implies_not_eq dest: order.asym)

lemma fold_bt_append:
  assumes "sorted_wrt (<) (map fst m)" "\<And>x y. x \<in> fst ` set acc \<Longrightarrow> y \<in> fst ` set m \<Longrightarrow> x < y"
  shows "fold (\<lambda>(k, v). bt_insert k (f k v)) m acc = acc @ map (\<lambda>(k, v). (k, f k v)) m"
  using assms
proof (induction m arbitrary: acc)
  case (Cons a m)
  have "bt_insert (fst a) (f (fst a) (snd a)) acc = acc @ [(fst a, f (fst a) (snd a))]" using Cons.prems(2) by (intro bt_insert_end) auto
  with Cons.prems Cons.IH [of "acc @ [(fst a, f (fst a) (snd a))]"] show ?case by (auto simp: case_prod_beta)
qed simp

lemma fold_bt_insert: "bt_sorted m \<Longrightarrow> fold (\<lambda>(k, v). bt_insert k (f k v)) m [] = map (\<lambda>(k, v). (k, f k v)) m"
  using fold_bt_append [of m "[]" f] by (simp add: bt_sorted_def)

text \<open>The difference stored for a group gives its internal key back.\<close>

lemma hixor_full: "length a = 32 \<Longrightarrow> length b = 32 \<Longrightarrow> hixor a b = map (\<lambda>(a, b). xor_byte a b) (zip a b)"
  by (simp add: hixor_def Let_def)

lemma hixor_length [simp]: "length (hixor a b) = 32"
  by (simp add: hixor_def Let_def)

lemma hixor_cancel: "length a = 32 \<Longrightarrow> length b = 32 \<Longrightarrow> hixor a (hixor a b) = b"
  using xor_byte_self by (auto simp: hixor_full xor_byte_comm [of "a ! i" for i] intro!: nth_equalityI)

lemma chain_okD: "chain_ok c \<Longrightarrow> bt_sorted (kc_keys c)" "chain_ok c \<Longrightarrow> map_of (kc_keys c) g = Some k \<Longrightarrow> length k = 32"
  by (auto simp: chain_ok_def dest: map_of_SomeD)

lemma chain_ok_insert [simp]: "chain_ok c \<Longrightarrow> length k = 32 \<Longrightarrow> chain_ok (c\<lparr>kc_keys := bt_insert g k (kc_keys c)\<rparr>)"
  using bt_insert_set_sub [of g k "kc_keys c"] by (auto simp: chain_ok_def)

lemma reassoc_groups:
  "chain_ok chain \<Longrightarrow> ke_groups (reassoc_keys cr e chain) = map (\<lambda>(g, k). (g, hixor (hmac cr g (kc_derived chain)) k)) (kc_keys chain)"
  using fold_bt_insert [of "kc_keys chain" "\<lambda>g k. hixor (hmac cr g (kc_derived chain)) k"] by (simp add: reassoc_keys_def chain_okD)

lemma derive_groups:
  assumes "entry_ok e" "try_derive_key_single cr p e = Some c"
  shows "kc_keys c = map (\<lambda>(g, d). (g, hixor (hmac cr g (kc_derived c)) d)) (ke_groups e)" "ke_algorithm e = SCRYPT_18_14_12_8_1"
    "kc_derived c = scrypt_18_14_12_8_1 cr p (ke_salt e)" "cr_sha3 cr (kc_derived c) = ke_hash e"
  using assms fold_bt_insert [of "ke_groups e" "\<lambda>g d. hixor (hmac cr g (scrypt_18_14_12_8_1 cr p (ke_salt e))) d"]
  by (auto simp: try_derive_key_single_def entry_ok_def Let_def split: if_split_asm)

lemma reassoc_derives:
  assumes "sha3_ok cr" "chain_ok c" "ke_algorithm e = SCRYPT_18_14_12_8_1" "kc_derived c = scrypt_18_14_12_8_1 cr p (ke_salt e)"
    "cr_sha3 cr (kc_derived c) = ke_hash e"
  shows "try_derive_key_single cr p (reassoc_keys cr e c) = Some c"
proof -
  let ?h = "\<lambda>g. hmac cr g (kc_derived c)"
  have h: "length (?h g) = 32" for g using assms(1) by (simp add: hmac_def sha3_ok_def)
  have "map (\<lambda>(g, d). (g, hixor (?h g) d)) (map (\<lambda>(g, k). (g, hixor (?h g) k)) (kc_keys c)) = kc_keys c"
    using assms(2) h by (auto simp: chain_ok_def hixor_cancel intro!: map_idI)
  moreover have "bt_sorted (map (\<lambda>(g, k). (g, hixor (?h g) k)) (kc_keys c))" using chain_okD(1) [OF assms(2)] by simp
  ultimately have "fold (\<lambda>(g, d). bt_insert g (hixor (?h g) d)) (ke_groups (reassoc_keys cr e c)) [] = kc_keys c"
    using fold_bt_insert [of "map (\<lambda>(g, k). (g, hixor (?h g) k)) (kc_keys c)" "\<lambda>g d. hixor (?h g) d"] by (simp add: reassoc_groups [OF assms(2)])
  then show ?thesis
    using assms(3-5) by (simp add: try_derive_key_single_def Let_def) (simp add: reassoc_keys_def)
qed

lemma created_derives:
  assumes "sha3_ok cr" "chain_ok chain" "create_key cr salt passphrase chain created updated = (entry, chain1)"
  shows "try_derive_key_single cr passphrase entry = Some chain1 \<and> kc_keys chain1 = kc_keys chain"
proof -
  let ?d = "scrypt_18_14_12_8_1 cr passphrase salt"
  let ?e = "\<lparr>ke_created = created, ke_updated = updated, ke_algorithm = SCRYPT_18_14_12_8_1, ke_salt = salt,
    ke_hash = cr_sha3 cr ?d, ke_groups = [], ke_unknown = cr_unknown cr\<rparr>"
  have c: "chain1 = chain\<lparr>kc_derived := ?d\<rparr>" "entry = reassoc_keys cr ?e chain1" using assms(3) by (auto simp: create_key_def Let_def)
  have "chain_ok chain1" using assms(2) c(1) by (simp add: chain_ok_def)
  from reassoc_derives [OF assms(1) this, of ?e passphrase] c show ?thesis by simp
qed

section \<open>Properties\<close>

text \<open>C32. The passphrase a key is created with derives the internal keys of the chain it was created from, all groups and
  nothing else, and the derived key; no property of the hash but the length of its values is needed.\<close>

theorem create_then_derive:
  assumes "sha3_ok cr" "chain_ok chain" "create_key cr salt passphrase chain created updated = (entry, chain1)"
  shows "try_derive_key_single cr passphrase entry = Some chain1 \<and> kc_keys chain1 = kc_keys chain"
  using created_derives [OF assms] .

theorem create_then_derive_witness:
  "try_derive_key_single demo_crypto ''hunter2''
     (fst (create_key demo_crypto (replicate 32 (CHR ''s'')) ''hunter2'' (generate_new (replicate 32 (CHR ''a'')) (replicate 32 (CHR ''b''))) 0 None)) \<noteq> None"
proof -
  have "sha3_ok demo_crypto" by (auto simp: sha3_ok_def demo_crypto_def min_def)
  moreover have "chain_ok (generate_new (replicate 32 (CHR ''a'')) (replicate 32 (CHR ''b'')))"
    by (simp add: chain_ok_def generate_new_def bt_sorted_def GROUP_ROOT_def GROUP_EVERYONE_def less_char_def)
  ultimately show ?thesis
    using create_then_derive [of demo_crypto "generate_new (replicate 32 (CHR ''a'')) (replicate 32 (CHR ''b''))"]
    by (metis option.discI prod.collapse)
qed

end
