(* ===== verification/Block_Xfer.thy ===== *)
theory Block_Xfer
  imports Errors_Log
begin

text \<open>
  Splitting a byte stream into blocks and putting it together again, \<open>src/block_xfer.rs\<close>.
  The hash function is a parameter: a hasher is fed pieces of input and hashes their concatenation, so
  its state is the input so far. A reader, a writer and the closures that take and fetch blocks
  are parameters as well, functions on a state of their own. \<open>None\<close> is a run that never
  returns (a reader that is interrupted for ever) or a panic (a reader that claims to have read more than it
  was asked for).

  What the code relies on in a reader is the locale \<open>byte_source\<close>. A script of read events, which says what
  the successive reads do, is an instance of it; every finite behaviour of a reader is one.

  The lemmas show that the split is the one into pieces of the block size whatever the sizes of the single
  reads are, that a file assembled from blocks is what was split unless two blocks with the same
  hash are known.
\<close>

section \<open>Definitions\<close>

subsection \<open>Readers\<close>

datatype io_error = Interrupted | IoFailed string

type_synonym 'r reader = "'r \<Rightarrow> nat \<Rightarrow> 'r \<times> (io_error + bytes)"

datatype read_event = Chunk bytes | Fault io_error

text \<open>\<open>script_read r n\<close> is \<open>read\<close> with a buffer of \<open>n\<close> bytes.\<close>

fun script_read :: "read_event list reader" where
  "script_read [] n = ([], Inr [])"
| "script_read (Fault e # r) n = (r, Inl e)"
| "script_read (Chunk c # r) n =
     (if n = 0 then (Chunk c # r, Inr [])
      else if c = [] then script_read r n
      else if length c \<le> n then (r, Inr c)
      else (Chunk (drop n c) # r, Inr (take n c)))"

fun script_data :: "read_event list \<Rightarrow> bytes" where
  "script_data [] = []"
| "script_data (Chunk c # r) = c @ script_data r"
| "script_data (Fault e # r) = script_data r"

definition only_interrupts :: "read_event list \<Rightarrow> bool" where
  "only_interrupts r = list_all (\<lambda>ev. case ev of Chunk _ \<Rightarrow> True | Fault e \<Rightarrow> e = Interrupted) r"

subsection \<open>From a stream to blocks\<close>

record block_list =
  bl_total :: hash_id
  bl_blocks :: "hash_id list"

definition hash_block :: "(bytes \<Rightarrow> hash_id) \<Rightarrow> bytes \<Rightarrow> bytes \<Rightarrow> hash_id" where
  "hash_block sha3 secret block = sha3 (secret @ block)"

text \<open>The inner loop: \<open>off\<close> is the length of what has been read.\<close>

partial_function (option) fill_block :: "'r reader \<Rightarrow> nat \<Rightarrow> 'r \<Rightarrow> bytes \<Rightarrow> ('r \<times> bytes res) option" where
  "fill_block read block_size r got =
     (if length got < block_size then
        (case read r (block_size - length got) of
           (r1, Inr d) \<Rightarrow>
             if d = [] then Some (r1, Inr got)
             else if length d > block_size - length got then None
             else fill_block read block_size r1 (got @ d)
         | (r1, Inl Interrupted) \<Rightarrow> fill_block read block_size r1 got
         | (r1, Inl (IoFailed e)) \<Rightarrow> Some (r1, Inl (err (Io e))))
      else Some (r, Inr got))"

declare fill_block.simps [code]

type_synonym 's block_out = "'s \<Rightarrow> hash_id \<Rightarrow> bytes \<Rightarrow> 's \<times> unit res"

text \<open>The outer loop, with the closure's state, the hasher \<open>kc\<close> and the hashes so far.\<close>

partial_function (option) blocks_loop ::
  "(bytes \<Rightarrow> hash_id) \<Rightarrow> 'r reader \<Rightarrow> 's block_out \<Rightarrow> nat \<Rightarrow> bytes \<Rightarrow> 'r \<Rightarrow> 's \<Rightarrow> bytes \<Rightarrow> hash_id list \<Rightarrow>
   ('r \<times> 's \<times> (bytes \<times> hash_id list) res) option" where
  "blocks_loop sha3 read block_out block_size secret r s kc blocks =
     Option.bind (fill_block read block_size r []) (\<lambda>(r1, res).
       case res of
         Inl e \<Rightarrow> Some (r1, s, Inl e)
       | Inr block \<Rightarrow>
           if block = [] then Some (r1, s, Inr (kc, blocks))
           else let hash = hash_block sha3 secret block in
             case block_out s hash block of
               (s1, Inl e) \<Rightarrow> Some (r1, s1, Inl e)
             | (s1, Inr _) \<Rightarrow>
                 blocks_loop sha3 read block_out block_size secret r1 s1 (kc @ hash) (blocks @ [hash]))"

declare blocks_loop.simps [code]

definition stream_to_blocks ::
  "(bytes \<Rightarrow> hash_id) \<Rightarrow> 'r reader \<Rightarrow> 's block_out \<Rightarrow> 'r \<Rightarrow> 's \<Rightarrow> nat \<Rightarrow> bytes \<Rightarrow> ('r \<times> 's \<times> block_list res) option" where
  "stream_to_blocks sha3 read block_out r s block_size secret =
     Option.bind (blocks_loop sha3 read block_out block_size secret r s secret []) (\<lambda>(r1, s1, res).
       case res of
         Inl e \<Rightarrow> Some (r1, s1, Inl e)
       | Inr (kc, blocks) \<Rightarrow> Some (r1, s1, Inr \<lparr>bl_total = sha3 kc, bl_blocks = blocks\<rparr>))"

subsection \<open>From blocks to a stream\<close>

type_synonym 'w writer = "'w \<Rightarrow> bytes \<Rightarrow> 'w \<times> (string + unit)"
type_synonym ('f, 'r) block_fetch = "'f \<Rightarrow> hash_id \<Rightarrow> 'f \<times> 'r res"

definition write_error :: "string \<Rightarrow> error" where
  "write_error e = Error (Msg ''Error writing to output stream'') (Some (ForeignCause e))"

partial_function (option) copy_block ::
  "'r reader \<Rightarrow> 'w writer \<Rightarrow> 'r \<Rightarrow> 'w \<Rightarrow> bytes \<Rightarrow> ('w \<times> bytes res) option" where
  "copy_block read write r w kc =
     (case read r 4096 of
        (r1, Inr d) \<Rightarrow>
          if d = [] then Some (w, Inr kc)
          else if length d > 4096 then None
          else (case write w d of
                  (w1, Inl e) \<Rightarrow> Some (w1, Inl (write_error e))
                | (w1, Inr _) \<Rightarrow> copy_block read write r1 w1 (kc @ d))
      | (r1, Inl Interrupted) \<Rightarrow> copy_block read write r1 w kc
      | (r1, Inl (IoFailed e)) \<Rightarrow> Some (w, Inl (err (Io e))))"

declare copy_block.simps [code]

fun fetch_loop ::
  "(bytes \<Rightarrow> hash_id) \<Rightarrow> 'r reader \<Rightarrow> 'w writer \<Rightarrow> ('f, 'r) block_fetch \<Rightarrow> bytes \<Rightarrow> hash_id list \<Rightarrow> 'w \<Rightarrow> 'f \<Rightarrow>
   ('w \<times> 'f \<times> unit res) option" where
  "fetch_loop sha3 read write fetch secret [] w f = Some (w, f, Inr ())"
| "fetch_loop sha3 read write fetch secret (i # ids) w f =
     (case fetch f i of
        (f1, Inl e) \<Rightarrow> Some (w, f1, Inl e)
      | (f1, Inr r) \<Rightarrow>
          Option.bind (copy_block read write r w secret) (\<lambda>(w1, res).
            case res of
              Inl e \<Rightarrow> Some (w1, f1, Inl e)
            | Inr kc \<Rightarrow>
                if sha3 kc \<noteq> i then Some (w1, f1, Inl (err (HmacMismatch ''block'' i (sha3 kc))))
                else fetch_loop sha3 read write fetch secret ids w1 f1))"

definition blocks_to_stream ::
  "(bytes \<Rightarrow> hash_id) \<Rightarrow> 'r reader \<Rightarrow> 'w writer \<Rightarrow> ('f, 'r) block_fetch \<Rightarrow> block_list \<Rightarrow> 'w \<Rightarrow> bytes \<Rightarrow> 'f \<Rightarrow>
   ('w \<times> 'f \<times> unit res) option" where
  "blocks_to_stream sha3 read write fetch input w secret f =
     (let hash = sha3 (secret @ concat (bl_blocks input)) in
      if hash \<noteq> bl_total input then Some (w, f, Inl (err (HmacMismatch ''total'' (bl_total input) hash)))
      else fetch_loop sha3 read write fetch secret (bl_blocks input) w f)"

subsection \<open>Reference\<close>

text \<open>The pieces of the block size, the last one possibly shorter, and their delivery.\<close>

function chunks :: "nat \<Rightarrow> bytes \<Rightarrow> bytes list" where
  "chunks n xs = (if n = 0 \<or> xs = [] then [] else take n xs # chunks n (drop n xs))"
  by pat_completeness auto
termination by (relation "measure (\<lambda>(n, xs). length xs)") (auto simp: length_drop)

declare chunks.simps [simp del]

fun deliver :: "'s block_out \<Rightarrow> (bytes \<Rightarrow> hash_id) \<Rightarrow> 's \<Rightarrow> bytes list \<Rightarrow> 's \<times> unit res" where
  "deliver block_out h s [] = (s, Inr ())"
| "deliver block_out h s (b # bs) =
     (case block_out s (h b) b of (s1, Inl e) \<Rightarrow> (s1, Inl e) | (s1, Inr _) \<Rightarrow> deliver block_out h s1 bs)"

definition block_list_of :: "(bytes \<Rightarrow> hash_id) \<Rightarrow> bytes \<Rightarrow> bytes list \<Rightarrow> block_list" where
  "block_list_of sha3 secret bs =
     (let hs = map (hash_block sha3 secret) bs in \<lparr>bl_total = sha3 (secret @ concat hs), bl_blocks = hs\<rparr>)"

text \<open>Output into a vector, and a table of blocks as store.\<close>

definition vec_write :: "bytes writer" where
  "vec_write w d = (w @ d, Inr ())"

definition table_out :: "(hash_id \<times> bytes) list block_out" where
  "table_out s h b = ((h, b) # s, Inr ())"

definition table_fetch :: "((hash_id \<times> bytes) list, read_event list) block_fetch" where
  "table_fetch s h = (s, case map_of s h of None \<Rightarrow> Inl (err NotFound) | Some b \<Rightarrow> Inr [Chunk b])"

text \<open>A hash function for examples: the first 32 bytes, padded.\<close>

definition demo_hash :: "bytes \<Rightarrow> hash_id" where
  "demo_hash b = take 32 (b @ replicate 32 (CHR 0x00))"

section \<open>Lemmas\<close>

subsection \<open>What the loops need of a reader\<close>

locale byte_source =
  fixes read :: "'r reader" and data :: "'r \<Rightarrow> bytes" and rank :: "'r \<Rightarrow> nat" and sound :: "'r \<Rightarrow> bool"
  assumes read_data: "read r n = (r1, Inr d) \<Longrightarrow> 0 < n \<Longrightarrow>
      data r = d @ data r1 \<and> length d \<le> n \<and> (d = [] \<longrightarrow> data r1 = []) \<and> (d \<noteq> [] \<longrightarrow> rank r1 < rank r) \<and> (sound r \<longrightarrow> sound r1)"
    and read_error: "read r n = (r1, Inl e) \<Longrightarrow> data r1 = data r \<and> rank r1 < rank r \<and> (sound r \<longrightarrow> sound r1 \<and> e = Interrupted)"
begin

text \<open>Filling a block takes exactly what is missing, or fails.\<close>

definition filled :: "nat \<Rightarrow> bytes \<Rightarrow> 'r \<Rightarrow> 'r \<Rightarrow> bytes res \<Rightarrow> bool" where
  "filled bsize got r r1 res =
     ((sound r \<longrightarrow> is_ok res \<and> sound r1) \<and>
      (\<forall>b. res = Inr b \<longrightarrow> b = got @ take (bsize - length got) (data r) \<and> data r1 = drop (bsize - length got) (data r)))"

lemma fill_block_returns:
  "length got \<le> bsize \<Longrightarrow> \<exists>r1 res. fill_block read bsize r got = Some (r1, res) \<and> filled bsize got r r1 res"
proof (induction "rank r" arbitrary: r got rule: less_induct)
  case less
  note fb = fill_block.simps [of read bsize r got]
  show ?case
  proof (cases "length got < bsize")
    case True
    obtain r1 x where rd: "read r (bsize - length got) = (r1, x)" by force
    show ?thesis
    proof (cases x)
      case (Inl e)
      note e = read_error [OF rd [unfolded Inl]]
      with less.hyps [of r1 got] less.prems True rd Inl show ?thesis
        by (cases e) (auto simp: fb filled_def is_ok_def)
    next
      case (Inr d)
      with read_data [of r "bsize - length got" r1 d] rd True
      have d: "data r = d @ data r1" "length d \<le> bsize - length got" "d = [] \<longrightarrow> data r1 = []"
        "d \<noteq> [] \<longrightarrow> rank r1 < rank r" "sound r \<longrightarrow> sound r1" by auto
      show ?thesis
      proof (cases "d = []")
        case False
        with d True have "rank r1 < rank r" "length (got @ d) \<le> bsize" by auto
        from less.hyps [OF this] d True False rd Inr show ?thesis by (auto simp: fb filled_def)
      qed (use d rd Inr True in \<open>auto simp: fb filled_def is_ok_def\<close>)
    qed
  qed (use less.prems in \<open>auto simp: fb filled_def is_ok_def\<close>)
qed

text \<open>With a sound reader the outer loop is the delivery of the chunks.\<close>

lemma blocks_loop_chunks:
  "0 < bsize \<Longrightarrow> sound r \<Longrightarrow>
   \<exists>r1. blocks_loop sha3 read block_out bsize secret r s kc blocks =
     (case deliver block_out (hash_block sha3 secret) s (chunks bsize (data r)) of
        (s1, Inl e) \<Rightarrow> Some (r1, s1, Inl e)
      | (s1, Inr _) \<Rightarrow>
          let hs = map (hash_block sha3 secret) (chunks bsize (data r)) in Some (r1, s1, Inr (kc @ concat hs, blocks @ hs)))"
proof (induction "length (data r)" arbitrary: r s kc blocks rule: less_induct)
  case less
  note bl = blocks_loop.simps [of sha3 read block_out bsize secret r s kc blocks]
  from fill_block_returns [of "[]" bsize r] obtain r1 res where
    fr: "fill_block read bsize r [] = Some (r1, res)" "filled bsize [] r r1 res" by auto
  with less.prems(2) have f: "fill_block read bsize r [] = Some (r1, Inr (take bsize (data r)))"
    "data r1 = drop bsize (data r)" "sound r1"
    by (cases res; simp add: filled_def is_ok_def)+
  show ?case
  proof (cases "data r = []")
    case False
    with f less.prems have "length (data r1) < length (data r)" by simp
    note ih = less.hyps [OF this less.prems(1) f(3)]
    from False less.prems have ne: "take bsize (data r) \<noteq> []"
      and ch: "chunks bsize (data r) = take bsize (data r) # chunks bsize (data r1)"
      by (simp_all add: f(2) chunks.simps [of bsize "data r"])
    obtain s1 o1 where bo: "block_out s (hash_block sha3 secret (take bsize (data r))) (take bsize (data r)) = (s1, o1)" by force
    show ?thesis
    proof (cases o1)
      case (Inr u)
      from ih [of s1 "kc @ hash_block sha3 secret (take bsize (data r))" "blocks @ [hash_block sha3 secret (take bsize (data r))]"]
      show ?thesis using f ne ch bo Inr by (simp add: bl Let_def)
    qed (use f ne ch bo in \<open>simp add: bl Let_def\<close>)
  qed (use f less.prems in \<open>simp add: bl chunks.simps\<close>)
qed

lemma stream_to_blocks_chunks:
  assumes "0 < bsize" "sound r"
  shows "\<exists>r1. stream_to_blocks sha3 read block_out r s bsize secret =
    (case deliver block_out (hash_block sha3 secret) s (chunks bsize (data r)) of
       (s1, Inl e) \<Rightarrow> Some (r1, s1, Inl e)
     | (s1, Inr _) \<Rightarrow> Some (r1, s1, Inr (block_list_of sha3 secret (chunks bsize (data r)))))"
  using blocks_loop_chunks [OF assms, of sha3 block_out secret s secret "[]"]
  by (auto simp: stream_to_blocks_def block_list_of_def Let_def split: prod.splits sum.splits)

text \<open>Any reader at all: the split returns.\<close>

lemma blocks_loop_returns:
  "0 < bsize \<Longrightarrow> \<exists>res. blocks_loop sha3 read block_out bsize secret r s kc blocks = Some res"
proof (induction "length (data r)" arbitrary: r s kc blocks rule: less_induct)
  case less
  note bl = blocks_loop.simps [of sha3 read block_out bsize secret r s kc blocks]
  from fill_block_returns [of "[]" bsize r] obtain r1 res where
    f: "fill_block read bsize r [] = Some (r1, res)" "filled bsize [] r r1 res" by auto
  show ?case
  proof (cases res)
    case (Inr b)
    show ?thesis
    proof (cases "b = []")
      case False
      with f Inr less.prems have "length (data r1) < length (data r)" by (auto simp: filled_def)
      from less.hyps [OF this less.prems] f Inr show ?thesis
        by (auto simp: bl Let_def split: sum.splits prod.splits)
    qed (use f Inr in \<open>auto simp: bl\<close>)
  qed (use f in \<open>auto simp: bl\<close>)
qed

text \<open>Copying appends all the data and hashes it.\<close>

lemma copy_block_vec:
  "\<exists>w1 res. copy_block read vec_write r w kc = Some (w1, res) \<and> (sound r \<longrightarrow> is_ok res) \<and>
     (\<forall>k. res = Inr k \<longrightarrow> w1 = w @ data r \<and> k = kc @ data r)"
proof (induction "rank r" arbitrary: r w kc rule: less_induct)
  case less
  note cb = copy_block.simps [of read vec_write r w kc]
  obtain r1 x where rd: "read r 4096 = (r1, x)" by force
  show ?case
  proof (cases x)
    case (Inl e)
    with read_error [OF rd [unfolded Inl]] less.hyps [of r1 w kc] rd show ?thesis
      by (cases e) (auto simp: cb is_ok_def)
  next
    case (Inr d)
    with read_data [of r 4096 r1 d] rd have d: "data r = d @ data r1" "length d \<le> 4096" "d = [] \<longrightarrow> data r1 = []"
      "d \<noteq> [] \<longrightarrow> rank r1 < rank r" "sound r \<longrightarrow> sound r1" by auto
    show ?thesis
    proof (cases "d = []")
      case False
      with d have "rank r1 < rank r" by simp
      from less.hyps [OF this, of "w @ d" "kc @ d"] d False rd Inr show ?thesis by (auto simp: cb vec_write_def)
    qed (use d rd Inr in \<open>auto simp: cb is_ok_def\<close>)
  qed
qed

lemma copy_block_sound:
  assumes "sound r" shows "copy_block read vec_write r w kc = Some (w @ data r, Inr (kc @ data r))"
proof -
  from copy_block_vec [of r w kc] obtain w1 res where
    c: "copy_block read vec_write r w kc = Some (w1, res)" "sound r \<longrightarrow> is_ok res"
    "\<forall>k. res = Inr k \<longrightarrow> w1 = w @ data r \<and> k = kc @ data r" by blast
  with assms show ?thesis by (cases res) (simp_all add: is_ok_def)
qed

text \<open>Whatever the fetched readers deliver, what is written hashes to the list.\<close>

lemma fetch_loop_vec:
  "\<exists>w1 f1 res. fetch_loop sha3 read vec_write fetch secret ids w f = Some (w1, f1, res) \<and>
     (is_ok res \<longrightarrow> (\<exists>ds. w1 = w @ concat ds \<and> map (hash_block sha3 secret) ds = ids))"
proof (induction ids arbitrary: w f)
  case (Cons i ids)
  obtain f1 x where ft: "fetch f i = (f1, x)" by force
  show ?case
  proof (cases x)
    case (Inr r)
    from copy_block_vec [of r w secret] obtain w1 res where
      c: "copy_block read vec_write r w secret = Some (w1, res)" "\<forall>k. res = Inr k \<longrightarrow> w1 = w @ data r \<and> k = secret @ data r" by blast
    from Cons.IH [of w1 f1] obtain w2 f2 res2 where
      l: "fetch_loop sha3 read vec_write fetch secret ids w1 f1 = Some (w2, f2, res2)"
      "is_ok res2 \<longrightarrow> (\<exists>ds. w2 = w1 @ concat ds \<and> map (hash_block sha3 secret) ds = ids)" by blast
    show ?thesis
    proof (cases res)
      case (Inr k)
      show ?thesis
      proof (cases "sha3 k = i")
        case True
        have "is_ok res2 \<longrightarrow> (\<exists>ds. w2 = w @ concat ds \<and> map (hash_block sha3 secret) ds = i # ids)"
        proof
          assume "is_ok res2"
          with l obtain ds where "w2 = w1 @ concat ds" "map (hash_block sha3 secret) ds = ids" by blast
          with c Inr True show "\<exists>ds. w2 = w @ concat ds \<and> map (hash_block sha3 secret) ds = i # ids"
            by (intro exI [of _ "data r # ds"]) (auto simp: hash_block_def)
        qed
        with ft \<open>x = Inr r\<close> c l Inr True show ?thesis by simp
      qed (use ft \<open>x = Inr r\<close> c Inr in \<open>simp add: is_ok_def\<close>)
    qed (use ft \<open>x = Inr r\<close> c in \<open>simp add: is_ok_def\<close>)
  qed (use ft in \<open>simp add: is_ok_def\<close>)
qed (simp add: is_ok_def)

text \<open>An invariant of the closure that takes the blocks, weaker once it has failed.\<close>

lemma blocks_loop_inv:
  assumes "0 < bsize" "\<And>s h b s1. I s \<Longrightarrow> block_out s h b = (s1, Inr ()) \<Longrightarrow> I s1"
    "\<And>s h b s1 e. I s \<Longrightarrow> block_out s h b = (s1, Inl e) \<Longrightarrow> F s1" "\<And>s. I s \<Longrightarrow> F s" "I s"
  shows "\<exists>r1 s1 res. blocks_loop sha3 read block_out bsize secret r s kc blocks = Some (r1, s1, res) \<and> (case res of Inl _ \<Rightarrow> F s1 | Inr _ \<Rightarrow> I s1)"
  using assms(5)
proof (induction "length (data r)" arbitrary: r s kc blocks rule: less_induct)
  case less
  note bl = blocks_loop.simps [of sha3 read block_out bsize secret r s kc blocks]
  from fill_block_returns [of "[]" bsize r] obtain r1 res where
    f: "fill_block read bsize r [] = Some (r1, res)" "filled bsize [] r r1 res" by auto
  show ?case
  proof (cases res)
    case (Inr b)
    show ?thesis
    proof (cases "b = []")
      case False
      obtain s1 u where o: "block_out s (hash_block sha3 secret b) b = (s1, u)" by force
      from False f Inr assms(1) have "length (data r1) < length (data r)" by (auto simp: filled_def)
      with less.hyps [OF this, of s1] assms(2,3) less.prems o f Inr False show ?thesis
        by (cases u) (auto simp: bl Let_def)
    qed (use f Inr less.prems in \<open>auto simp: bl\<close>)
  qed (use f less.prems assms(4) in \<open>auto simp: bl\<close>)
qed

lemma stream_to_blocks_inv:
  assumes "0 < bsize" "\<And>s h b s1. I s \<Longrightarrow> block_out s h b = (s1, Inr ()) \<Longrightarrow> I s1"
    "\<And>s h b s1 e. I s \<Longrightarrow> block_out s h b = (s1, Inl e) \<Longrightarrow> F s1" "\<And>s. I s \<Longrightarrow> F s" "I s"
  shows "\<exists>r1 s1 res. stream_to_blocks sha3 read block_out r s bsize secret = Some (r1, s1, res) \<and> (case res of Inl _ \<Rightarrow> F s1 | Inr _ \<Rightarrow> I s1)"
proof -
  from blocks_loop_inv [of bsize I block_out F s sha3 secret r secret "[]"] assms obtain r1 s1 res where
    "blocks_loop sha3 read block_out bsize secret r s secret [] = Some (r1, s1, res)" "case res of Inl _ \<Rightarrow> F s1 | Inr _ \<Rightarrow> I s1" by blast
  then show ?thesis by (cases res) (auto simp: stream_to_blocks_def)
qed

end

subsection \<open>Scripts are readers\<close>

fun script_rank :: "read_event list \<Rightarrow> nat" where
  "script_rank [] = 0"
| "script_rank (Chunk c # r) = length c + script_rank r"
| "script_rank (Fault e # r) = Suc (script_rank r)"

lemma script_read_data:
  "script_read r n = (r1, Inr d) \<Longrightarrow> 0 < n \<Longrightarrow>
   script_data r = d @ script_data r1 \<and> length d \<le> n \<and> (d = [] \<longrightarrow> script_data r1 = []) \<and>
   (d \<noteq> [] \<longrightarrow> script_rank r1 < script_rank r) \<and> (only_interrupts r \<longrightarrow> only_interrupts r1)"
  unfolding only_interrupts_def by (induction r n arbitrary: r1 rule: script_read.induct) (auto split: if_split_asm)

lemma script_read_error:
  "script_read r n = (r1, Inl e) \<Longrightarrow> script_data r1 = script_data r \<and> script_rank r1 < script_rank r \<and>
   (only_interrupts r \<longrightarrow> only_interrupts r1 \<and> e = Interrupted)"
  unfolding only_interrupts_def by (induction r n arbitrary: r1 rule: script_read.induct) (auto split: if_split_asm)

interpretation script: byte_source script_read script_data script_rank only_interrupts
  by unfold_locales (blast dest: script_read_data script_read_error)+

subsection \<open>Pieces\<close>

lemma chunks_concat: "0 < n \<Longrightarrow> concat (chunks n xs) = xs"
  by (induction n xs rule: chunks.induct) (simp add: chunks.simps)

lemma chunks_bounds: "list_all (\<lambda>b. b \<noteq> [] \<and> length b \<le> n) (chunks n xs)"
  by (induction n xs rule: chunks.induct) (simp add: chunks.simps)

lemma chunks_full: "0 < n \<Longrightarrow> i + 1 < length (chunks n xs) \<Longrightarrow> length (chunks n xs ! i) = n"
proof (induction n xs arbitrary: i rule: chunks.induct)
  case (1 n xs)
  show ?case
  proof (cases "xs = []")
    case False
    with 1 have c: "chunks n xs = take n xs # chunks n (drop n xs)" by (simp add: chunks.simps [of n xs])
    with 1 False show ?thesis
      by (cases i) (auto simp: chunks.simps [of n "drop n xs"] not_le split: if_split_asm)
  qed (use 1 in \<open>simp add: chunks.simps\<close>)
qed

lemma deliver_table: "deliver table_out h s bs = (rev (map (\<lambda>b. (h b, b)) bs) @ s, Inr ())"
  by (induction bs arbitrary: s) (simp_all add: table_out_def)

text \<open>Two lists with the same hashes are equal or show a collision.\<close>

lemma map_eq_or_collision: "map h xs = map h ys \<Longrightarrow> xs = ys \<or> (\<exists>x y. x \<noteq> y \<and> h x = h y)"
proof (induction xs arbitrary: ys)
  case (Cons x xs)
  then obtain y ys' where "ys = y # ys'" "h x = h y" "map h xs = map h ys'" by (cases ys) auto
  with Cons.IH show ?case by blast
qed simp

lemma lookup_by_hash:
  "inj_on h (set bs) \<Longrightarrow> b \<in> set bs \<Longrightarrow> map_of (rev (map (\<lambda>b. (h b, b)) bs)) (h b) = Some b"
proof -
  assume inj: "inj_on h (set bs)" and b: "b \<in> set bs"
  let ?t = "rev (map (\<lambda>b. (h b, b)) bs)"
  have "h b \<in> fst ` set ?t" using b by force
  then obtain c where c: "map_of ?t (h b) = Some c" by (metis map_of_eq_None_iff not_None_eq)
  then have "c \<in> set bs" "h c = h b" using map_of_SomeD by fastforce+
  with inj b have "c = b" by (meson inj_onD)
  with c show ?thesis by simp
qed

lemma fetch_loop_table:
  "\<forall>b \<in> set bs. map_of s (hash_block sha3 secret b) = Some b \<Longrightarrow>
   fetch_loop sha3 script_read vec_write table_fetch secret (map (hash_block sha3 secret) bs) w s = Some (w @ concat bs, s, Inr ())"
proof (induction bs arbitrary: w)
  case (Cons b bs)
  have "copy_block script_read vec_write [Chunk b] w secret = Some (w @ b, Inr (secret @ b))"
    using script.copy_block_sound [of "[Chunk b]" w secret] by (simp add: only_interrupts_def)
  with Cons show ?case by (simp add: table_fetch_def hash_block_def)
qed simp

section \<open>Properties\<close>

text \<open>C25. Splitting is independent of how the reads come out: for a reader that delivers its data in pieces of
  any size and is interrupted any number of times, but does not fail, the function returns, gives the closure exactly
  the pieces of the block size in order (stopping at its first error), and the list it returns is the hashes of the pieces with the
  hash of their concatenation. The pieces put together are the data; none is empty and none exceeds the
  block size.\<close>

theorem stream_splits:
  assumes "0 < block_size" "only_interrupts r"
  shows "(\<exists>r1. stream_to_blocks sha3 script_read block_out r s block_size secret =
      (case deliver block_out (hash_block sha3 secret) s (chunks block_size (script_data r)) of
         (s1, Inl e) \<Rightarrow> Some (r1, s1, Inl e)
       | (s1, Inr _) \<Rightarrow> Some (r1, s1, Inr (block_list_of sha3 secret (chunks block_size (script_data r)))))) \<and>
    concat (chunks block_size (script_data r)) = script_data r \<and>
    list_all (\<lambda>b. b \<noteq> [] \<and> length b \<le> block_size) (chunks block_size (script_data r))"
  by (intro conjI script.stream_to_blocks_chunks [OF assms] chunks_concat [OF assms(1)] chunks_bounds)

theorem stream_splits_witness:
  "(0 :: nat) < 2 \<and> only_interrupts [Chunk ''a'', Fault Interrupted, Chunk ''bcd'', Chunk ''e''] \<and>
   chunks 2 (script_data [Chunk ''a'', Fault Interrupted, Chunk ''bcd'', Chunk ''e'']) = [''ab'', ''cd'', ''e''] \<and>
   (\<exists>r1 s1. stream_to_blocks demo_hash script_read table_out [Chunk ''a'', Fault Interrupted, Chunk ''bcd'', Chunk ''e''] [] 2 ''k'' =
      Some (r1, s1, Inr (block_list_of demo_hash ''k'' [''ab'', ''cd'', ''e''])))"
proof -
  have c: "only_interrupts [Chunk ''a'', Fault Interrupted, Chunk ''bcd'', Chunk ''e'']"
    "chunks 2 (script_data [Chunk ''a'', Fault Interrupted, Chunk ''bcd'', Chunk ''e'']) = [''ab'', ''cd'', ''e'']"
    by (simp_all add: only_interrupts_def chunks.simps)
  then show ?thesis using stream_splits [OF _ c(1), of 2 demo_hash table_out "[]" "''k''"] by (auto simp: table_out_def)
qed



text \<open>C27. Round trip: a file split into a table of blocks comes back unchanged, whatever the pieces in which it was read,
  provided the hash tells its blocks apart.\<close>

theorem split_reassemble:
  assumes "0 < block_size" "only_interrupts r"
    and "inj_on (hash_block sha3 secret) (set (chunks block_size (script_data r)))"
  shows "\<exists>r1 store bl. stream_to_blocks sha3 script_read table_out r [] block_size secret = Some (r1, store, Inr bl) \<and>
    blocks_to_stream sha3 script_read vec_write table_fetch bl [] secret store = Some (script_data r, store, Inr ())"
proof -
  let ?cs = "chunks block_size (script_data r)" and ?h = "hash_block sha3 secret"
  let ?store = "rev (map (\<lambda>b. (?h b, b)) ?cs)"
  from script.stream_to_blocks_chunks [OF assms(1,2), of sha3 table_out "[]" secret] obtain r1 where
    "stream_to_blocks sha3 script_read table_out r [] block_size secret = Some (r1, ?store, Inr (block_list_of sha3 secret ?cs))"
    by (auto simp: deliver_table)
  moreover have "fetch_loop sha3 script_read vec_write table_fetch secret (map ?h ?cs) [] ?store = Some ([] @ concat ?cs, ?store, Inr ())"
    by (rule fetch_loop_table) (use lookup_by_hash [OF assms(3)] in blast)
  ultimately show ?thesis
    by (simp add: chunks_concat [OF assms(1)] blocks_to_stream_def block_list_of_def Let_def)
qed

theorem split_reassemble_witness:
  "(0 :: nat) < 2 \<and> only_interrupts [Chunk ''abc''] \<and>
   (\<exists>r1 store bl. stream_to_blocks demo_hash script_read table_out [Chunk ''abc''] [] 2 ''k'' = Some (r1, store, Inr bl) \<and>
      blocks_to_stream demo_hash script_read vec_write table_fetch bl [] ''k'' store = Some (''abc'', store, Inr ()))"
proof -
  have h: "only_interrupts [Chunk ''abc'']" "inj_on (hash_block demo_hash ''k'') (set (chunks 2 (script_data [Chunk ''abc''])))"
    by (simp_all add: only_interrupts_def chunks.simps hash_block_def demo_hash_def)
  then show ?thesis using split_reassemble [OF _ h] by simp
qed

end
