(* ===== verification/Crypt_Stream.thy ===== *)
theory Crypt_Stream
  imports Crypt_Keys Block_Xfer
begin

text \<open>
  Encryption of objects, directories and directory versions, the second half of \<open>src/server/crypt.rs\<close>. AES in CBC mode is
  third-party code: a record with the two kinds of cryptors and their step, and what the program relies on is the predicate
  \<open>cbc_ok\<close>. The loop that feeds a stream through a cryptor, the prefix with the session key, and the encoding of
  versions are the program's own.
\<close>

section \<open>Definitions\<close>

subsection \<open>Cryptors\<close>

text \<open>A step gets input and whether it ends there, and returns its output, how much input it left, and whether it succeeded.
  The flag of the constructors says whether the padding is PKCS.\<close>

record 'c cipher =
  ci_enc :: "bool \<Rightarrow> bytes \<Rightarrow> bytes \<Rightarrow> 'c"
  ci_dec :: "bool \<Rightarrow> bytes \<Rightarrow> bytes \<Rightarrow> 'c"
  ci_step :: "'c \<Rightarrow> bytes \<Rightarrow> bool \<Rightarrow> 'c \<times> bytes \<times> nat \<times> bool"

text \<open>Filling the buffer: what was read and whether the end was reached. An interrupted read is an error here.\<close>

partial_function (option) fill_buf :: "'r reader \<Rightarrow> 'r \<Rightarrow> bytes \<Rightarrow> ('r \<times> (bytes \<times> bool) res) option" where
  "fill_buf read r got =
     (if length got < 4096 then
        (case read r (4096 - length got) of
           (r1, Inl Interrupted) \<Rightarrow> Some (r1, Inl (err (Io ''interrupted'')))
         | (r1, Inl (IoFailed e)) \<Rightarrow> Some (r1, Inl (err (Io e)))
         | (r1, Inr d) \<Rightarrow>
             if length d > 4096 - length got then None
             else if d = [] then Some (r1, Inr (got, True))
             else fill_buf read r1 (got @ d))
      else Some (r, Inr (got, False)))"

declare fill_buf.simps [code]

partial_function (option) crypt_stream ::
  "'c cipher \<Rightarrow> 'r reader \<Rightarrow> 'w writer \<Rightarrow> 'w \<Rightarrow> 'r \<Rightarrow> 'c \<Rightarrow> bool \<Rightarrow> ('w \<times> 'r \<times> unit res) option" where
  "crypt_stream ci read write dst src c panic_on_crypt_err =
     Option.bind (fill_buf read src []) (\<lambda>(src1, res).
       case res of
         Inl e \<Rightarrow> Some (dst, src1, Inl e)
       | Inr (buf, eof) \<Rightarrow>
           (case ci_step ci c buf eof of
              (c1, out, left, ok) \<Rightarrow>
                if ok \<and> left \<noteq> 0 \<or> \<not> ok \<and> panic_on_crypt_err then None
                else
                  (case write dst (if ok then out else out @ replicate left (CHR 0x00)) of
                     (dst1, Inl e) \<Rightarrow> Some (dst1, src1, Inl (err (Io e)))
                   | (dst1, Inr _) \<Rightarrow>
                       if eof then Some (dst1, src1, Inr ())
                       else crypt_stream ci read write dst1 src1 c1 panic_on_crypt_err)))"

declare crypt_stream.simps [code]

text \<open>Reading from a slice.\<close>

definition slice_read :: "bytes reader" where
  "slice_read b n = (drop n b, Inr (take n b))"

subsection \<open>Prefix and objects\<close>

definition split_key_and_iv :: "bytes \<Rightarrow> bytes \<times> bytes" where
  "split_key_and_iv k = (take BLKSZ k, take (32 - BLKSZ) (drop BLKSZ k))"

definition zero_iv :: bytes where
  "zero_iv = replicate BLKSZ (CHR 0x00)"

text \<open>The 32 random bytes are an argument.\<close>

definition write_cbc_prefix :: "'c cipher \<Rightarrow> 'w writer \<Rightarrow> 'w \<Rightarrow> bytes \<Rightarrow> bytes \<Rightarrow> ('w \<times> (bytes \<times> bytes) res) option" where
  "write_cbc_prefix ci write dst key_and_iv master =
     map_option (\<lambda>(dst1, _, r). (dst1, case r of Inl e \<Rightarrow> Inl e | Inr _ \<Rightarrow> Inr (split_key_and_iv key_and_iv)))
       (crypt_stream ci slice_read write dst key_and_iv (ci_enc ci False master zero_iv) True)"

text \<open>Writing to a slice fills it from the front and fails when it is full; the rest of it keeps its bytes.\<close>

definition slice_write :: "(bytes \<times> bytes) writer" where
  "slice_write w d =
     (case w of (written, rest) \<Rightarrow>
        ((written @ take (length rest) d, drop (length d) rest),
         if length d \<le> length rest then Inr () else Inl ''failed to write whole buffer''))"

text \<open>\<open>read_exact\<close> on a slice.\<close>

definition read_cbc_prefix :: "'c cipher \<Rightarrow> bytes \<Rightarrow> bytes \<Rightarrow> (bytes \<times> (bytes \<times> bytes) res) option" where
  "read_cbc_prefix ci src master =
     (if length src < 32 then Some (src, Inl (err (Io ''failed to fill whole buffer'')))
      else
        map_option (\<lambda>((written, rest), _, r).
            (drop 32 src, case r of Inl e \<Rightarrow> Inl e | Inr _ \<Rightarrow> Inr (split_key_and_iv (written @ rest))))
          (crypt_stream ci slice_read slice_write ([], replicate 32 (CHR 0x00)) (take 32 src) (ci_dec ci False master zero_iv) False))"

definition encrypt_obj :: "'c cipher \<Rightarrow> 'r reader \<Rightarrow> 'w writer \<Rightarrow> 'w \<Rightarrow> 'r \<Rightarrow> hash_id \<Rightarrow> ('w \<times> 'r \<times> unit res) option" where
  "encrypt_obj ci read write dst src i =
     crypt_stream ci read write dst src (ci_enc ci True (take BLKSZ i) (drop BLKSZ i)) True"

definition decrypt_obj :: "'c cipher \<Rightarrow> 'r reader \<Rightarrow> 'w writer \<Rightarrow> 'w \<Rightarrow> 'r \<Rightarrow> hash_id \<Rightarrow> ('w \<times> 'r \<times> unit res) option" where
  "decrypt_obj ci read write dst src i =
     crypt_stream ci read write dst src (ci_dec ci True (take BLKSZ i) (drop BLKSZ i)) False"

subsection \<open>Directories\<close>

definition encrypt_whole_dir :: "'c cipher \<Rightarrow> bytes \<Rightarrow> bytes \<Rightarrow> bytes \<Rightarrow> internal_key \<Rightarrow> (bytes \<times> bytes res) option" where
  "encrypt_whole_dir ci key_and_iv dst src k =
     Option.bind (write_cbc_prefix ci vec_write dst key_and_iv (dir_key k)) (\<lambda>(dst1, r).
       case r of
         Inl e \<Rightarrow> Some (dst1, Inl e)
       | Inr (key, iv) \<Rightarrow>
           map_option (\<lambda>(dst2, _, r). (dst2, case r of Inl e \<Rightarrow> Inl e | Inr _ \<Rightarrow> Inr key))
             (crypt_stream ci slice_read vec_write dst1 src (ci_enc ci False key iv) True))"

definition encrypt_append_dir :: "'c cipher \<Rightarrow> bytes \<Rightarrow> bytes \<Rightarrow> bytes \<Rightarrow> bytes \<Rightarrow> (bytes \<times> unit res) option" where
  "encrypt_append_dir ci dst src key iv =
     map_option (\<lambda>(dst1, _, r). (dst1, r)) (crypt_stream ci slice_read vec_write dst src (ci_enc ci False key iv) True)"

definition decrypt_whole_dir :: "'c cipher \<Rightarrow> bytes \<Rightarrow> bytes \<Rightarrow> internal_key \<Rightarrow> (bytes \<times> bytes res) option" where
  "decrypt_whole_dir ci dst src k =
     Option.bind (read_cbc_prefix ci src (dir_key k)) (\<lambda>(src1, r).
       case r of
         Inl e \<Rightarrow> Some (dst, Inl e)
       | Inr (key, iv) \<Rightarrow>
           map_option (\<lambda>(dst1, _, r). (dst1, case r of Inl e \<Rightarrow> Inl e | Inr _ \<Rightarrow> Inr key))
             (crypt_stream ci slice_read vec_write dst src1 (ci_dec ci False key iv) False))"

text \<open>\<open>data.len() - BLKSZ\<close> panics on data shorter than a block.\<close>

definition dir_append_iv :: "bytes \<Rightarrow> bytes option" where
  "dir_append_iv data = (if length data < BLKSZ then None else Some (drop (length data - BLKSZ) data))"

subsection \<open>Versions\<close>

definition dir_ver_iv :: "hash_id \<Rightarrow> bytes" where
  "dir_ver_iv dir = map (\<lambda>ix. if ix < 8 then xor_byte (dir ! ix) (dir ! (ix + BLKSZ)) else CHR 0x00) [0..<BLKSZ]"

text \<open>The eight bytes of a version, least significant first, and back.\<close>

definition le_bytes :: "64 word \<Rightarrow> bytes" where
  "le_bytes v = map (\<lambda>ix. char_of (unat (and (drop_bit (8 * ix) v) 0xFF))) [0..<8]"

definition le_word :: "bytes \<Rightarrow> 64 word" where
  "le_word b = fold (\<lambda>ix acc. or acc (push_bit (8 * ix) (of_nat (of_char (b ! ix))))) [0..<8] 0"

definition encrypt_dir_ver :: "'c cipher \<Rightarrow> hash_id \<Rightarrow> 64 word \<Rightarrow> key_chain \<Rightarrow> hash_id option" where
  "encrypt_dir_ver ci dir ver kc =
     (case chain_key kc GROUP_EVERYONE of
        Inl _ \<Rightarrow> None
      | Inr key \<Rightarrow>
          Option.bind
            (crypt_stream ci slice_read slice_write ([], replicate 32 (CHR 0x00)) (le_bytes ver @ replicate 24 (CHR 0x00))
               (ci_enc ci False (dir_key key) (dir_ver_iv dir)) True)
            (\<lambda>((written, rest), _, r). case r of Inl _ \<Rightarrow> None | Inr _ \<Rightarrow> Some (written @ rest)))"

definition decrypt_dir_ver :: "'c cipher \<Rightarrow> hash_id \<Rightarrow> hash_id \<Rightarrow> key_chain \<Rightarrow> 64 word option" where
  "decrypt_dir_ver ci dir ciphertext kc =
     (case chain_key kc GROUP_EVERYONE of
        Inl _ \<Rightarrow> None
      | Inr key \<Rightarrow>
          map_option (\<lambda>((written, rest), _, _).
              let cleartext = written @ rest in
              if list_ex (\<lambda>p. p \<noteq> CHR 0x00) (drop 8 cleartext) then 0 else le_word cleartext)
            (crypt_stream ci slice_read slice_write ([], replicate 32 (CHR 0xFF)) ciphertext
               (ci_dec ci False (dir_key key) (dir_ver_iv dir)) False))"

subsection \<open>What is assumed of the cipher\<close>

text \<open>Feeding full buffers and a last, shorter one: the outputs.\<close>

fun feed :: "'c cipher \<Rightarrow> 'c \<Rightarrow> bytes list \<Rightarrow> bytes \<Rightarrow> bytes list option" where
  "feed ci c [] last_buf =
     (case ci_step ci c last_buf True of (c1, out, left, ok) \<Rightarrow> if ok \<and> left = 0 then Some [out] else None)"
| "feed ci c (b # bs) last_buf =
     (case ci_step ci c b False of
        (c1, out, left, ok) \<Rightarrow> if ok \<and> left = 0 then map_option (\<lambda>outs. out # outs) (feed ci c1 bs last_buf) else None)"

function cut_buf :: "bytes \<Rightarrow> bytes list \<times> bytes" where
  "cut_buf x = (if length x < 4096 then ([], x) else case cut_buf (drop 4096 x) of (bs, l) \<Rightarrow> (take 4096 x # bs, l))"
  by pat_completeness auto
termination by (relation "measure length") auto

declare cut_buf.simps [simp del]

definition feeds :: "'c cipher \<Rightarrow> 'c \<Rightarrow> bytes \<Rightarrow> bytes \<Rightarrow> bool" where
  "feeds ci c x y = (\<exists>outs. feed ci c (fst (cut_buf x)) (snd (cut_buf x)) = Some outs \<and> concat outs = y)"

text \<open>CBC: \<open>E pad key iv\<close> is the encryption of a message, of whole blocks when there is no padding, which keeps its length then; decryption
  inverts it; and a message is continued by using the last block of ciphertext as the initial vector.\<close>

definition cbc_ok :: "'c cipher \<Rightarrow> (bool \<Rightarrow> bytes \<Rightarrow> bytes \<Rightarrow> bytes \<Rightarrow> bytes) \<Rightarrow> bool" where
  "cbc_ok ci E =
     ((\<forall>pad key iv x. pad \<or> BLKSZ dvd length x \<longrightarrow>
         feeds ci (ci_enc ci pad key iv) x (E pad key iv x) \<and> feeds ci (ci_dec ci pad key iv) (E pad key iv x) x) \<and>
      (\<forall>key iv x. BLKSZ dvd length x \<longrightarrow> length (E False key iv x) = length x) \<and>
      (\<forall>key iv x y. x \<noteq> [] \<and> BLKSZ dvd length x \<longrightarrow>
         E False key iv (x @ y) =
         E False key iv x @ E False key (drop (length x - BLKSZ) (E False key iv x)) y))"

text \<open>A cipher that does nothing meets it.\<close>

definition null_cipher :: "unit cipher" where
  "null_cipher = \<lparr>ci_enc = (\<lambda>_ _ _. ()), ci_dec = (\<lambda>_ _ _. ()), ci_step = (\<lambda>c b _. (c, b, 0, True))\<rparr>"

section \<open>Lemmas\<close>

subsection \<open>The stream loop\<close>

text \<open>A reader that never fails.\<close>

locale steady_source = byte_source +
  assumes steady: "sound r \<Longrightarrow> read r n \<noteq> (r1, Inl e)"
begin

lemma fill_buf_steady:
  assumes "sound r" "length got \<le> 4096"
  shows "\<exists>r1. fill_buf read r got = Some (r1, Inr (got @ take (4096 - length got) (data r), length got + length (data r) < 4096)) \<and>
    data r1 = drop (4096 - length got) (data r) \<and> sound r1"
  using assms
proof (induction "rank r" arbitrary: r got rule: less_induct)
  case less
  note fb = fill_buf.simps [of read r got]
  show ?case
  proof (cases "length got < 4096")
    case True
    obtain r1 x where rd: "read r (4096 - length got) = (r1, x)" by force
    with steady [OF less.prems(1)] obtain d where x: "x = Inr d" by (cases x) auto
    with read_data [of r "4096 - length got" r1 d] rd True less.prems(1)
    have d: "data r = d @ data r1" "length d \<le> 4096 - length got" "d = [] \<longrightarrow> data r1 = []" "d \<noteq> [] \<longrightarrow> rank r1 < rank r" "sound r1" by auto
    show ?thesis
    proof (cases "d = []")
      case False
      with d True have "rank r1 < rank r" "length (got @ d) \<le> 4096" by auto
      from less.hyps [OF this(1) d(5) this(2)] d True False rd x show ?thesis by (auto simp: fb)
    qed (use d rd x True in \<open>auto simp: fb\<close>)
  qed (use less.prems in \<open>auto simp: fb\<close>)
qed

lemma crypt_stream_feeds:
  assumes "sound r" "feeds ci c (data r) y"
  shows "\<exists>r1. crypt_stream ci read vec_write dst r c p = Some (dst @ y, r1, Inr ())"
  using assms
proof (induction "length (data r)" arbitrary: r c dst y rule: less_induct)
  case less
  note cs = crypt_stream.simps [of ci read vec_write dst r c p]
  from fill_buf_steady [OF less.prems(1), of "[]"] obtain r1 where
    f: "fill_buf read r [] = Some (r1, Inr (take 4096 (data r), length (data r) < 4096))" "data r1 = drop 4096 (data r)" "sound r1" by auto
  from less.prems(2) obtain outs where o: "feed ci c (fst (cut_buf (data r))) (snd (cut_buf (data r))) = Some outs" "concat outs = y"
    by (auto simp: feeds_def)
  show ?case
  proof (cases "length (data r) < 4096")
    case True
    with o f show ?thesis by (auto simp: cs cut_buf.simps [of "data r"] vec_write_def split: if_split_asm prod.splits)
  next
    case False
    with o(1) obtain c1 out outs1 where st: "ci_step ci c (take 4096 (data r)) False = (c1, out, 0, True)" "outs = out # outs1"
      "feed ci c1 (fst (cut_buf (data r1))) (snd (cut_buf (data r1))) = Some outs1"
      by (auto simp: cut_buf.simps [of "data r"] f(2) split: if_split_asm prod.splits)
    then have "feeds ci c1 (data r1) (concat outs1)" by (auto simp: feeds_def)
    with less.hyps [of r1 c1 "concat outs1" "dst @ out"] False f st o(2) show ?thesis by (auto simp: cs vec_write_def)
  qed
qed

end

interpretation slice: steady_source slice_read "\<lambda>b. b" length "\<lambda>_. True"
  by unfold_locales (auto simp: slice_read_def)

lemma crypt_small:
  assumes "length src < 4096" "feeds ci c src y" "length y \<le> length rest"
  shows "crypt_stream ci slice_read slice_write (wr, rest) src c p = Some ((wr @ y, drop (length y) rest), [], Inr ())"
proof -
  have f: "fill_buf slice_read src [] = Some ([], Inr (src, True))"
    using assms(1) by (cases "src = []") (simp_all add: fill_buf.simps [of slice_read] slice_read_def)
  from assms(1,2) obtain c1 where st: "ci_step ci c src True = (c1, y, 0, True)"
    by (auto simp: feeds_def cut_buf.simps [of src] split: if_split_asm prod.splits)
  show ?thesis
    using f st assms(3) by (simp add: crypt_stream.simps [of ci slice_read] slice_write_def)
qed

subsection \<open>Messages\<close>

lemma cbcD:
  assumes "cbc_ok ci E"
  shows "pad \<or> BLKSZ dvd length x \<Longrightarrow> feeds ci (ci_enc ci pad key iv) x (E pad key iv x)"
    "pad \<or> BLKSZ dvd length x \<Longrightarrow> feeds ci (ci_dec ci pad key iv) (E pad key iv x) x"
    "BLKSZ dvd length x \<Longrightarrow> length (E False key iv x) = length x"
    "x \<noteq> [] \<Longrightarrow> BLKSZ dvd length x \<Longrightarrow>
       E False key iv (x @ y) = E False key iv x @ E False key (drop (length x - BLKSZ) (E False key iv x)) y"
  using assms unfolding cbc_ok_def by auto

lemma BLKSZ_32: "BLKSZ dvd 32"
  by (simp add: BLKSZ_def)

lemma write_prefix:
  assumes "cbc_ok ci E" "length ki = 32"
  shows "write_cbc_prefix ci vec_write dst ki master = Some (dst @ E False master zero_iv ki, Inr (split_key_and_iv ki))"
proof -
  have "feeds ci (ci_enc ci False master zero_iv) ki (E False master zero_iv ki)" using cbcD(1) [OF assms(1)] assms(2) BLKSZ_32 by simp
  from slice.crypt_stream_feeds [OF _ this, of dst True] show ?thesis by (auto simp: write_cbc_prefix_def)
qed

lemma read_prefix:
  assumes "cbc_ok ci E" "length ki = 32"
  shows "read_cbc_prefix ci (E False master zero_iv ki @ rest) master = Some (rest, Inr (split_key_and_iv ki))"
proof -
  have l: "length (E False master zero_iv ki) = 32" using cbcD(3) [OF assms(1)] assms(2) BLKSZ_32 by simp
  have "feeds ci (ci_dec ci False master zero_iv) (E False master zero_iv ki) ki" using cbcD(2) [OF assms(1)] assms(2) BLKSZ_32 by simp
  from crypt_small [OF _ this] l assms(2) show ?thesis by (simp add: read_cbc_prefix_def)
qed

text \<open>The stored form of a directory: prefix and body.\<close>

definition dir_cipher :: "(bool \<Rightarrow> bytes \<Rightarrow> bytes \<Rightarrow> bytes \<Rightarrow> bytes) \<Rightarrow> internal_key \<Rightarrow> bytes \<Rightarrow> bytes \<Rightarrow> bytes" where
  "dir_cipher E k ki x = E False (dir_key k) zero_iv ki @ E False (fst (split_key_and_iv ki)) (snd (split_key_and_iv ki)) x"

lemma encrypt_whole:
  assumes "cbc_ok ci E" "length ki = 32" "BLKSZ dvd length x"
  shows "encrypt_whole_dir ci ki [] x k = Some (dir_cipher E k ki x, Inr (fst (split_key_and_iv ki)))"
proof -
  obtain key iv where s: "split_key_and_iv ki = (key, iv)" by force
  have "feeds ci (ci_enc ci False key iv) x (E False key iv x)" using cbcD(1) [OF assms(1)] assms(3) by simp
  from slice.crypt_stream_feeds [OF _ this, of "E False (dir_key k) zero_iv ki" True] show ?thesis
    by (auto simp: encrypt_whole_dir_def write_prefix [OF assms(1,2)] s dir_cipher_def)
qed

lemma decrypt_whole:
  assumes "cbc_ok ci E" "length ki = 32" "BLKSZ dvd length x"
  shows "decrypt_whole_dir ci [] (dir_cipher E k ki x) k = Some (x, Inr (fst (split_key_and_iv ki)))"
proof -
  obtain key iv where s: "split_key_and_iv ki = (key, iv)" by force
  have "feeds ci (ci_dec ci False key iv) (E False key iv x) x" using cbcD(2) [OF assms(1)] assms(3) by simp
  from slice.crypt_stream_feeds [OF _ this, of "[]" False] show ?thesis
    by (auto simp: decrypt_whole_dir_def read_prefix [OF assms(1,2)] s dir_cipher_def)
qed

text \<open>Appending to it: the new initial vector is the end of what is stored.\<close>

lemma encrypt_append:
  assumes "cbc_ok ci E" "length ki = 32" "BLKSZ dvd length x" "x \<noteq> []" "BLKSZ dvd length y" "dir_append_iv (dir_cipher E k ki x) = Some iv"
  shows "\<exists>z. encrypt_append_dir ci [] y (fst (split_key_and_iv ki)) iv = Some (z, Inr ()) \<and> dir_cipher E k ki x @ z = dir_cipher E k ki (x @ y)"
proof -
  let ?key = "fst (split_key_and_iv ki)" and ?iv = "snd (split_key_and_iv ki)"
  have l: "length (E False ?key ?iv x) = length x" using cbcD(3) [OF assms(1)] assms(3) by simp
  have "BLKSZ \<le> length x" using assms(3,4) by (auto simp: dvd_imp_le)
  then have iv: "iv = drop (length x - BLKSZ) (E False ?key ?iv x)"
    using assms(6) l by (auto simp: dir_append_iv_def dir_cipher_def split: if_split_asm)
  have "feeds ci (ci_enc ci False ?key iv) y (E False ?key iv y)" using cbcD(1) [OF assms(1)] assms(5) by simp
  from slice.crypt_stream_feeds [OF _ this, of "[]" True]
  have "encrypt_append_dir ci [] y ?key iv = Some (E False ?key iv y, Inr ())" by (auto simp: encrypt_append_dir_def)
  moreover have "dir_cipher E k ki x @ E False ?key iv y = dir_cipher E k ki (x @ y)"
    using cbcD(4) [OF assms(1,4,3)] iv by (simp add: dir_cipher_def)
  ultimately show ?thesis by blast
qed

subsection \<open>Versions\<close>

lemma le_byte: "of_nat (unat (and w 0xFF) mod 256) = take_bit 8 (w :: 64 word)"
proof -
  have a: "and w 0xFF = take_bit 8 w" by (simp add: take_bit_eq_mask mask_eq_exp_minus_1)
  have "unat (take_bit 8 w) = unat w mod 256" by (simp add: unsigned_take_bit_eq take_bit_nat_def)
  then have "unat (and w 0xFF) mod 256 = unat (take_bit 8 w)" unfolding a by simp
  then show ?thesis by simp
qed

lemma le_fold: "fold (\<lambda>ix acc. or acc (push_bit (8 * ix) (take_bit 8 (drop_bit (8 * ix) v)))) [0..<n] 0 = take_bit (8 * n) (v :: 64 word)"
proof (induction n)
  case (Suc n)
  have "or (take_bit (8 * n) v) (push_bit (8 * n) (take_bit 8 (drop_bit (8 * n) v))) = take_bit (8 * Suc n) v"
    by (rule bit_word_eqI) (auto simp: bit_simps)
  with Suc show ?case by simp
qed simp

lemma le_roundtrip: "le_word (le_bytes v @ rest) = v"
proof -
  have "le_word (le_bytes v @ rest) = fold (\<lambda>ix acc. or acc (push_bit (8 * ix) (take_bit 8 (drop_bit (8 * ix) v)))) [0..<8] 0"
    unfolding le_word_def by (rule fold_cong) (auto simp: le_bytes_def nth_append le_byte)
  then show ?thesis by (simp only: le_fold) (simp add: take_bit_word_eq_self)
qed

lemma le_bytes_length [simp]: "length (le_bytes v) = 8"
  by (simp add: le_bytes_def)

lemma encrypt_ver:
  assumes "cbc_ok ci E" "chain_key kc GROUP_EVERYONE = Inr key"
  shows "encrypt_dir_ver ci dir v kc = Some (E False (dir_key key) (dir_ver_iv dir) (le_bytes v @ replicate 24 (CHR 0x00)))"
proof -
  let ?x = "le_bytes v @ replicate 24 (CHR 0x00)" and ?y = "E False (dir_key key) (dir_ver_iv dir) (le_bytes v @ replicate 24 (CHR 0x00))"
  have f: "feeds ci (ci_enc ci False (dir_key key) (dir_ver_iv dir)) ?x ?y" and l: "length ?y = 32"
    using cbcD(1,3) [OF assms(1)] BLKSZ_32 by simp_all
  from crypt_small [OF _ f] l assms(2) show ?thesis by (simp add: encrypt_dir_ver_def)
qed

lemma decrypt_ver:
  assumes "cbc_ok ci E" "chain_key kc GROUP_EVERYONE = Inr key"
  shows "decrypt_dir_ver ci dir (E False (dir_key key) (dir_ver_iv dir) (le_bytes v @ replicate 24 (CHR 0x00))) kc = Some v"
proof -
  let ?x = "le_bytes v @ replicate 24 (CHR 0x00)" and ?y = "E False (dir_key key) (dir_ver_iv dir) (le_bytes v @ replicate 24 (CHR 0x00))"
  have f: "feeds ci (ci_dec ci False (dir_key key) (dir_ver_iv dir)) ?y ?x" and l: "length ?y = 32"
    using cbcD(2,3) [OF assms(1)] BLKSZ_32 by simp_all
  from crypt_small [OF _ f, of "replicate 32 (CHR 0xFF)" "[]" False] l assms(2) show ?thesis
    by (simp add: decrypt_dir_ver_def list_ex_iff le_roundtrip)
qed

subsection \<open>A cipher and a reader\<close>

lemma null_feed: "feed null_cipher c bs l = Some (bs @ [l])"
  by (induction bs) (auto simp: null_cipher_def)

lemma cut_concat: "concat (fst (cut_buf x)) @ snd (cut_buf x) = x"
proof (induction x rule: cut_buf.induct)
  case (1 x)
  show ?case
  proof (cases "length x < 4096")
    case False
    with "1.IH" have "take 4096 x @ concat (fst (cut_buf (drop 4096 x))) @ snd (cut_buf (drop 4096 x)) = x" by simp
    with False show ?thesis by (simp add: cut_buf.simps [of x] case_prod_beta)
  qed (simp add: cut_buf.simps [of x])
qed

lemma null_cipher_ok: "cbc_ok null_cipher (\<lambda>_ _ _ x. x)"
  using cut_concat by (auto simp: cbc_ok_def feeds_def null_feed)

definition is_chunk :: "read_event \<Rightarrow> bool" where
  "is_chunk ev = (case ev of Chunk _ \<Rightarrow> True | Fault _ \<Rightarrow> False)"

lemma chunk_read:
  "list_all is_chunk r \<Longrightarrow> script_read r n = (r1, Inl e) \<Longrightarrow> False"
  "list_all is_chunk r \<Longrightarrow> script_read r n = (r1, Inr d) \<Longrightarrow> list_all is_chunk r1"
  by (induction r n arbitrary: r1 rule: script_read.induct) (auto simp: is_chunk_def split: if_split_asm)

interpretation chunk: steady_source script_read script_data script_rank "list_all is_chunk"
proof
  fix r n r1 d
  assume "script_read r n = (r1, Inr d)" "0 < n"
  then show "script_data r = d @ script_data r1 \<and> length d \<le> n \<and> (d = [] \<longrightarrow> script_data r1 = []) \<and>
      (d \<noteq> [] \<longrightarrow> script_rank r1 < script_rank r) \<and> (list_all is_chunk r \<longrightarrow> list_all is_chunk r1)"
    using script_read_data chunk_read(2) by blast
next
  fix r n r1 e
  assume "script_read r n = (r1, Inl e)"
  then show "script_data r1 = script_data r \<and> script_rank r1 < script_rank r \<and> (list_all is_chunk r \<longrightarrow> list_all is_chunk r1 \<and> e = Interrupted)"
    using script_read_error chunk_read(1) by blast
qed (blast dest: chunk_read(1))

section \<open>Properties\<close>

text \<open>C1. Encrypting an object and decrypting the result returns the object's bytes, whatever pieces the source delivers them in; the
  only thing used of the cipher is that its decryption inverts its encryption.\<close>

theorem object_roundtrip:
  assumes "cbc_ok ci E" "list_all is_chunk src"
  shows "\<exists>ciphertext r1 r2. encrypt_obj ci script_read vec_write [] src i = Some (ciphertext, r1, Inr ()) \<and>
    decrypt_obj ci slice_read vec_write [] ciphertext i = Some (script_data src, r2, Inr ())"
proof -
  let ?y = "E True (take BLKSZ i) (drop BLKSZ i) (script_data src)"
  have e: "feeds ci (ci_enc ci True (take BLKSZ i) (drop BLKSZ i)) (script_data src) ?y"
    and d: "feeds ci (ci_dec ci True (take BLKSZ i) (drop BLKSZ i)) ?y (script_data src)" using cbcD(1,2) [OF assms(1)] by simp_all
  from chunk.crypt_stream_feeds [OF assms(2) e, of "[]" True]
  have "\<exists>r1. encrypt_obj ci script_read vec_write [] src i = Some (?y, r1, Inr ())" by (simp add: encrypt_obj_def)
  moreover from slice.crypt_stream_feeds [OF _ d, of "[]" False]
  have "\<exists>r2. decrypt_obj ci slice_read vec_write [] ?y i = Some (script_data src, r2, Inr ())" by (simp add: decrypt_obj_def)
  ultimately show ?thesis by blast
qed

theorem object_roundtrip_witness:
  "\<exists>ciphertext r1 r2. encrypt_obj null_cipher script_read vec_write [] [Chunk ''some'', Chunk ''thing''] (replicate 32 (CHR ''i'')) = Some (ciphertext, r1, Inr ()) \<and>
    decrypt_obj null_cipher slice_read vec_write [] ciphertext (replicate 32 (CHR ''i'')) = Some (''something'', r2, Inr ())"
  using object_roundtrip [OF null_cipher_ok, of "[Chunk ''some'', Chunk ''thing'']" "replicate 32 (CHR ''i'')"] by (simp add: is_chunk_def)

text \<open>C2. The encrypted version of a directory decrypts to the same 64-bit number, for every number, so versions can be compared for
  rollback and two versions never look the same.\<close>

theorem version_roundtrip:
  assumes "cbc_ok ci E" "chain_key kc GROUP_EVERYONE = Inr key"
  shows "\<exists>c. encrypt_dir_ver ci dir v kc = Some c \<and> length c = 32 \<and> decrypt_dir_ver ci dir c kc = Some v"
  using encrypt_ver [OF assms, of dir v] decrypt_ver [OF assms, of dir v]
    cbcD(3) [OF assms(1), of "le_bytes v @ replicate 24 (CHR 0x00)" "dir_key key" "dir_ver_iv dir"] BLKSZ_32
  by simp

theorem version_roundtrip_witness:
  "\<exists>c. encrypt_dir_ver null_cipher (replicate 32 (CHR ''d'')) 18446744073709551615 (generate_new (replicate 32 (CHR ''a'')) (replicate 32 (CHR ''b''))) = Some c \<and>
     length c = 32 \<and> decrypt_dir_ver null_cipher (replicate 32 (CHR ''d'')) c (generate_new (replicate 32 (CHR ''a'')) (replicate 32 (CHR ''b''))) = Some 18446744073709551615"
  by (rule version_roundtrip [OF null_cipher_ok, where key = "replicate 32 (CHR ''b'')"])
    (simp add: chain_key_def generate_new_def GROUP_ROOT_def GROUP_EVERYONE_def less_char_def)

end
