(* ===== verification/Dir_Config.thy ===== *)
theory Dir_Config
  imports Crypt_Keys
begin

text \<open>
  The configuration embedded in the names of server directories, \<open>src/server/dir_config.rs\<close>: which key groups may read and write
  a directory. The three regular expressions of the source are fixed: the anchored one is matched by derivatives, and the two
  that are searched for are scanned for from left to right, longest match first, as their classes determine.
\<close>

section \<open>Definitions\<close>

subsection \<open>Regular expressions\<close>

datatype rx = RNone | REps | RCls "char \<Rightarrow> bool" | RAlt rx rx | RCat rx rx | RStar rx

fun nullable :: "rx \<Rightarrow> bool" where
  "nullable RNone = False"
| "nullable REps = True"
| "nullable (RCls _) = False"
| "nullable (RAlt a b) = (nullable a \<or> nullable b)"
| "nullable (RCat a b) = (nullable a \<and> nullable b)"
| "nullable (RStar a) = True"

fun deriv :: "char \<Rightarrow> rx \<Rightarrow> rx" where
  "deriv c (RCls p) = (if p c then REps else RNone)"
| "deriv c (RAlt a b) = RAlt (deriv c a) (deriv c b)"
| "deriv c (RCat a b) = (if nullable a then RAlt (RCat (deriv c a) b) (deriv c b) else RCat (deriv c a) b)"
| "deriv c (RStar a) = RCat (deriv c a) (RStar a)"
| "deriv c _ = RNone"

text \<open>Whether the whole text matches.\<close>

fun rx_match :: "rx \<Rightarrow> string \<Rightarrow> bool" where
  "rx_match a [] = nullable a"
| "rx_match a (c # s) = rx_match (deriv c a) s"

definition RPlus :: "rx \<Rightarrow> rx" where
  "RPlus a = RCat a (RStar a)"

subsection \<open>The patterns\<close>

definition lower :: "char \<Rightarrow> bool" where
  "lower c = (CHR ''a'' \<le> c \<and> c \<le> CHR ''z'')"

definition value_char :: "char \<Rightarrow> bool" where
  "value_char c = (c \<noteq> CHR '','' \<and> c \<noteq> CHR '']'')"

definition VALID_CONFIG_PATTERN :: rx where
  "VALID_CONFIG_PATTERN =
     RStar (RCat (RPlus (RCls lower)) (RCat (RCls (\<lambda>c. c = CHR ''='')) (RCat (RPlus (RCls value_char)) (RStar (RCls (\<lambda>c. c = CHR '',''))))))"

text \<open>The texts between the brackets of \<open>NAME_PATTERN\<close>, in order, without overlaps.\<close>

fun after_prefix :: "string \<Rightarrow> string \<Rightarrow> string option" where
  "after_prefix [] s = Some s"
| "after_prefix (p # ps) [] = None"
| "after_prefix (p # ps) (c # s) = (if p = c then after_prefix ps s else None)"

fun after_open :: "string \<Rightarrow> string option" where
  "after_open [] = None"
| "after_open (c # s) = (case after_prefix ''.ensync['' (c # s) of Some r \<Rightarrow> Some r | None \<Rightarrow> after_open s)"

definition next_config :: "string \<Rightarrow> (string \<times> string) option" where
  "next_config s =
     (case after_open s of
        None \<Rightarrow> None
      | Some r \<Rightarrow>
          (case dropWhile (\<lambda>c. c \<noteq> CHR '']'') r of
             [] \<Rightarrow> None
           | _ # post \<Rightarrow> Some (takeWhile (\<lambda>c. c \<noteq> CHR '']'') r, post)))"

lemma after_prefix_shorter: "after_prefix p s = Some r \<Longrightarrow> length r \<le> length s"
  by (induction p s rule: after_prefix.induct) (auto split: if_split_asm)

lemma after_open_shorter: "after_open s = Some r \<Longrightarrow> length r \<le> length s"
  by (induction s) (auto split: option.split_asm if_split_asm dest: after_prefix_shorter)

lemma next_config_shorter:
  assumes "next_config s = Some (cfg, post)"
  shows "length post < length s"
proof -
  from assms obtain r c where "after_open s = Some r" and d: "dropWhile (\<lambda>c. c \<noteq> CHR '']'') r = c # post"
    by (auto simp: next_config_def split: option.split_asm list.split_asm)
  with length_dropWhile_le [of "\<lambda>c. c \<noteq> CHR '']''" r] after_open_shorter [of s r] show ?thesis by simp
qed

function name_configs :: "string \<Rightarrow> string list" where
  "name_configs s = (case next_config s of None \<Rightarrow> [] | Some (cfg, post) \<Rightarrow> cfg # name_configs post)"
  by pat_completeness auto
termination by (relation "measure length") (auto dest: next_config_shorter)

declare name_configs.simps [simp del]

text \<open>The matches of \<open>PAIR_PATTERN\<close>.\<close>

function pairs :: "string \<Rightarrow> (string \<times> string) list" where
  "pairs [] = []"
| "pairs (c # s) =
     (let k = takeWhile lower (c # s); r = dropWhile lower (c # s) in
      if k \<noteq> [] \<and> r \<noteq> [] \<and> hd r = CHR ''='' \<and> takeWhile value_char (tl r) \<noteq> []
      then (k, takeWhile value_char (tl r)) # pairs (dropWhile value_char (tl r))
      else pairs s)"
  by pat_completeness auto
termination
proof (relation "measure length")
  fix c s k r
  assume "k = takeWhile lower (c # s)" "r = dropWhile lower (c # s)" "k \<noteq> [] \<and> r \<noteq> [] \<and> hd r = CHR ''='' \<and> takeWhile value_char (tl r) \<noteq> []"
  then show "(dropWhile value_char (tl r), c # s) \<in> measure length"
    using length_dropWhile_le [of value_char "tl r"] length_dropWhile_le [of lower "c # s"] by (cases r) auto
qed auto

declare pairs.simps(2) [simp del]

subsection \<open>Configurations\<close>

record dir_config =
  read_group :: string
  write_group :: string

definition default_config :: dir_config where
  "default_config = \<lparr>read_group = GROUP_EVERYONE, write_group = GROUP_ROOT\<rparr>"

fun apply_pairs :: "string \<Rightarrow> (string \<times> string) list \<Rightarrow> dir_config \<Rightarrow> dir_config res" where
  "apply_pairs configs [] cfg = Inr cfg"
| "apply_pairs configs ((key, v) # ps) cfg =
     (if key = ''r'' then apply_pairs configs ps (cfg\<lparr>read_group := v\<rparr>)
      else if key = ''w'' then apply_pairs configs ps (cfg\<lparr>write_group := v\<rparr>)
      else if key = ''rw'' \<or> key = ''wr'' then apply_pairs configs ps (cfg\<lparr>read_group := v, write_group := v\<rparr>)
      else Inl (err (BadServerDirConfigKey configs key)))"

fun apply_configs :: "string list \<Rightarrow> dir_config \<Rightarrow> dir_config res" where
  "apply_configs [] cfg = Inr cfg"
| "apply_configs (configs # cs) cfg =
     (if \<not> rx_match VALID_CONFIG_PATTERN configs then Inl (err (BadServerDirConfig configs))
      else case apply_pairs configs (pairs configs) cfg of Inl e \<Rightarrow> Inl e | Inr cfg1 \<Rightarrow> apply_configs cs cfg1)"

definition config_sub :: "dir_config \<Rightarrow> string \<Rightarrow> dir_config res" where
  "config_sub cfg name = apply_configs (name_configs name) cfg"

subsection \<open>Writing a configuration\<close>

fun print_pairs :: "(string \<times> string) list \<Rightarrow> string" where
  "print_pairs [] = []"
| "print_pairs [(k, v)] = k @ CHR ''='' # v"
| "print_pairs ((k, v) # p # ps) = k @ CHR ''='' # v @ CHR '','' # print_pairs (p # ps)"

fun set_group :: "string \<times> string \<Rightarrow> dir_config \<Rightarrow> dir_config" where
  "set_group (k, v) cfg =
     (if k = ''r'' then cfg\<lparr>read_group := v\<rparr> else if k = ''w'' then cfg\<lparr>write_group := v\<rparr> else cfg\<lparr>read_group := v, write_group := v\<rparr>)"

definition pair_ok :: "string \<times> string \<Rightarrow> bool" where
  "pair_ok p = (fst p \<in> {''r'', ''w'', ''rw'', ''wr''} \<and> snd p \<noteq> [] \<and> list_all value_char (snd p))"

section \<open>Lemmas\<close>

text \<open>The derivatives decide membership in the language.\<close>

inductive in_lang :: "rx \<Rightarrow> string \<Rightarrow> bool" where
  in_eps: "in_lang REps []"
| in_cls: "p c \<Longrightarrow> in_lang (RCls p) [c]"
| in_alt1: "in_lang a s \<Longrightarrow> in_lang (RAlt a b) s"
| in_alt2: "in_lang b s \<Longrightarrow> in_lang (RAlt a b) s"
| in_cat: "in_lang a s \<Longrightarrow> in_lang b t \<Longrightarrow> in_lang (RCat a b) (s @ t)"
| in_star0: "in_lang (RStar a) []"
| in_star: "in_lang a s \<Longrightarrow> s \<noteq> [] \<Longrightarrow> in_lang (RStar a) t \<Longrightarrow> in_lang (RStar a) (s @ t)"

inductive_cases in_lang_cases: "in_lang RNone s" "in_lang REps s" "in_lang (RCls p) s" "in_lang (RAlt a b) s" "in_lang (RCat a b) s"
  "in_lang (RStar a) s"

lemma nullable_lang: "nullable a \<longleftrightarrow> in_lang a []"
proof
  show "nullable a \<Longrightarrow> in_lang a []" by (induction a) (auto intro: in_lang.intros in_cat [of _ "[]" _ "[]", simplified])
  show "in_lang a [] \<Longrightarrow> nullable a" by (induction a "[] :: string" rule: in_lang.induct) auto
qed

lemma deriv_lang: "in_lang (deriv c a) s \<longleftrightarrow> in_lang a (c # s)"
proof
  show "in_lang (deriv c a) s \<Longrightarrow> in_lang a (c # s)"
  proof (induction a arbitrary: s)
    case (RCls p)
    then show ?case by (auto elim!: in_lang_cases intro: in_lang.intros split: if_split_asm)
  next
    case (RAlt a b)
    then show ?case by (auto elim!: in_lang_cases(4) intro: in_lang.intros)
  next
    case (RCat a b)
    then show ?case
      by (auto elim!: in_lang_cases(4,5) intro: in_cat [of a "c # t" for t, simplified] in_cat [of a "[]", simplified]
          simp: nullable_lang split: if_split_asm)
  next
    case (RStar a)
    then show ?case by (auto elim!: in_lang_cases(5) intro: in_star [of a "c # t" for t, simplified])
  qed (auto elim: in_lang_cases)
  show "in_lang a (c # s) \<Longrightarrow> in_lang (deriv c a) s"
  proof (induction a "c # s" arbitrary: s rule: in_lang.induct)
    case (in_cat a u b t)
    show ?case
    proof (cases u)
      case Nil
      with in_cat show ?thesis by (auto simp: nullable_lang intro: in_lang.intros)
    next
      case (Cons d v)
      with in_cat have "in_lang (RCat (deriv c a) b) s" by (auto intro: in_lang.in_cat)
      then show ?thesis by (auto intro: in_alt1)
    qed
  next
    case (in_star a u t)
    then show ?case by (cases u) (auto intro: in_lang.in_cat)
  qed (auto intro: in_lang.intros)
qed

lemma rx_match_lang: "rx_match a s \<longleftrightarrow> in_lang a s"
  by (induction a s rule: rx_match.induct) (simp_all add: nullable_lang deriv_lang)

text \<open>Scanning what was written.\<close>

lemma pair_okD: "pair_ok (k, v) \<Longrightarrow> k \<noteq> [] \<and> list_all lower k \<and> v \<noteq> [] \<and> list_all value_char v"
  by (auto simp: pair_ok_def lower_def less_eq_char_def)

lemma takeWhile_all: "list_all P xs \<Longrightarrow> \<not> P y \<Longrightarrow> takeWhile P (xs @ y # ys) = xs \<and> dropWhile P (xs @ y # ys) = y # ys"
  by (induction xs) auto

lemma takeWhile_full: "list_all P xs \<Longrightarrow> takeWhile P xs = xs \<and> dropWhile P xs = []"
  by (induction xs) auto

lemma not_value: "\<not> value_char (CHR '','')" "\<not> value_char (CHR '']'')" "\<not> lower (CHR '']'')" "\<not> lower (CHR ''='')"
  by (simp_all add: value_char_def lower_def less_eq_char_def)

lemma pairs_step:
  assumes "pair_ok (k, v)" "rest = [] \<or> (\<exists>r. rest = CHR '','' # r)"
  shows "pairs (k @ CHR ''='' # v @ rest) = (k, v) # pairs rest"
proof -
  note ok = pair_okD [OF assms(1)]
  have t: "takeWhile lower (k @ CHR ''='' # v @ rest) = k" "dropWhile lower (k @ CHR ''='' # v @ rest) = CHR ''='' # v @ rest"
    using takeWhile_all [of lower k "CHR ''=''"] not_value(4) ok by auto
  have v: "takeWhile value_char (v @ rest) = v" "dropWhile value_char (v @ rest) = rest"
    using assms(2) takeWhile_all [of value_char v "CHR '',''"] takeWhile_full [of value_char v] not_value(1) ok by auto
  from ok obtain c k1 where "k = c # k1" by (cases k) auto
  with pairs.simps(2) [of c "k1 @ CHR ''='' # v @ rest"] t v ok not_value(4) show ?thesis by (simp add: Let_def)
qed

lemma pairs_print: "list_all pair_ok ps \<Longrightarrow> pairs (print_pairs ps) = ps"
proof (induction ps rule: print_pairs.induct)
  case (2 k v)
  then show ?case using pairs_step [of k v "[]"] by simp
next
  case (3 k v p ps)
  have "pairs (CHR '','' # print_pairs (p # ps)) = pairs (print_pairs (p # ps))"
    by (simp add: pairs.simps(2) lower_def less_eq_char_def)
  with 3 pairs_step [of k v "CHR '','' # print_pairs (p # ps)"] show ?case by simp
qed simp

lemma plus_lang: "list_all p s \<Longrightarrow> s \<noteq> [] \<Longrightarrow> in_lang (RPlus (RCls p)) s"
proof -
  have star: "list_all p s \<Longrightarrow> in_lang (RStar (RCls p)) s" for s
    by (induction s) (auto intro: in_star0 in_star [OF in_cls, of p _ s for s, simplified])
  assume "list_all p s" "s \<noteq> []"
  then obtain c t where "s = [c] @ t" "p c" "list_all p t" by (cases s) auto
  then show ?thesis using in_cat [OF in_cls star] by (simp add: RPlus_def)
qed

lemma valid_print: "list_all pair_ok ps \<Longrightarrow> in_lang VALID_CONFIG_PATTERN (print_pairs ps)"
proof -
  let ?comma = "RStar (RCls (\<lambda>c. c = CHR '',''))"
  let ?item = "RCat (RPlus (RCls lower)) (RCat (RCls (\<lambda>c. c = CHR ''='')) (RCat (RPlus (RCls value_char)) ?comma))"
  have item: "in_lang ?item (k @ CHR ''='' # v @ w)" if "pair_ok (k, v)" "in_lang ?comma w" for k v w
    using in_cat [OF plus_lang in_cat [OF in_cls in_cat [OF plus_lang that(2)]], of lower k "\<lambda>c. c = CHR ''=''" "CHR ''=''" value_char v]
      pair_okD [OF that(1)] by simp
  have comma: "in_lang ?comma [CHR '','']" using in_star [OF in_cls _ in_star0, of "\<lambda>c. c = CHR '',''" "CHR '',''"] by simp
  show "list_all pair_ok ps \<Longrightarrow> in_lang VALID_CONFIG_PATTERN (print_pairs ps)"
    unfolding VALID_CONFIG_PATTERN_def
  proof (induction ps rule: print_pairs.induct)
    case (2 k v)
    then show ?case using in_star [OF item [OF _ in_star0] _ in_star0, of k v] by simp
  next
    case (3 k v p ps)
    then show ?case using in_star [OF item [OF _ comma], of k v "print_pairs (p # ps)"] by simp
  qed (simp add: in_star0)
qed

lemma print_no_bracket: "list_all pair_ok ps \<Longrightarrow> CHR '']'' \<notin> set (print_pairs ps)"
proof (induction ps rule: print_pairs.induct)
  case (2 k v)
  then show ?case using pair_okD [of k v] not_value by (auto simp: list_all_iff)
next
  case (3 k v p ps)
  then show ?case using pair_okD [of k v] not_value by (auto simp: list_all_iff)
qed simp

lemma after_open_plain: "CHR ''.'' \<notin> set pre \<Longrightarrow> after_open (pre @ ''.ensync['' @ r) = Some r"
  by (induction pre) auto

lemma after_open_none: "CHR ''.'' \<notin> set s \<Longrightarrow> after_open s = None"
  by (induction s) auto

lemma apply_pairs_ok: "list_all pair_ok ps \<Longrightarrow> apply_pairs configs ps cfg = Inr (fold set_group ps cfg)"
  by (induction configs ps cfg rule: apply_pairs.induct) (auto simp: pair_ok_def)

section \<open>Properties\<close>

text \<open>C1. A configuration written into a directory's name, with any text before and after it, gives exactly the groups it names, each
  pair overriding the earlier ones and what is not mentioned being inherited.\<close>

theorem config_in_name:
  assumes "list_all pair_ok ps" "CHR ''.'' \<notin> set pre" "CHR ''.'' \<notin> set post"
  shows "config_sub cfg (pre @ ''.ensync['' @ print_pairs ps @ '']'' @ post) = Inr (fold set_group ps cfg)"
proof -
  have "list_all (\<lambda>c. c \<noteq> CHR '']'') (print_pairs ps)" using print_no_bracket [OF assms(1)] by (auto simp: list_all_iff)
  from takeWhile_all [OF this, of "CHR '']''" post] after_open_plain [OF assms(2), of "print_pairs ps @ '']'' @ post"]
  have "next_config (pre @ ''.ensync['' @ print_pairs ps @ '']'' @ post) = Some (print_pairs ps, post)"
    by (simp add: next_config_def del: takeWhile_append dropWhile_append)
  moreover have "name_configs post = []" using after_open_none [OF assms(3)] by (simp add: name_configs.simps [of post] next_config_def)
  ultimately have "name_configs (pre @ ''.ensync['' @ print_pairs ps @ '']'' @ post) = [print_pairs ps]"
    by (subst name_configs.simps) simp
  then show ?thesis
    using valid_print [OF assms(1)] by (simp add: config_sub_def rx_match_lang pairs_print [OF assms(1)] apply_pairs_ok [OF assms(1)])
qed

theorem config_in_name_witness:
  "config_sub default_config ''subdir.ensync[r=root,w=my-group]'' = Inr \<lparr>read_group = ''root'', write_group = ''my-group''\<rparr>"
  using config_in_name [of "[(''r'', ''root''), (''w'', ''my-group'')]" "''subdir''" "[]" default_config]
  by (simp add: pair_ok_def value_char_def default_config_def)

end
