(* ===== verification/Server_Dir.thy ===== *)
theory Server_Dir
  imports Crypt_Stream Dir_Config Std_Text
begin

text \<open>
  Directories on the server, \<open>src/server/dir.rs\<close>: the client's view of a directory stored as an encrypted log of chunks, each signed with
  the signature of the one before. Operations run over any storage record, with the serialiser, the compressor,
  the cipher, the hash and the random numbers as arguments, and a fault possible at every statement on the client's database.

  The content of a directory, which the source keeps behind a mutex, is threaded through the operations; a chain of parents is a list
  of directories with their contents. A panic is \<open>None\<close>.
\<close>

section \<open>Definitions\<close>

subsection \<open>Data\<close>

definition DIRID_PROOT :: hash_id where
  "DIRID_PROOT = replicate 32 (CHR 0xFF)"

record dir_header =
  hd_dir_id :: hash_id
  hd_ver :: "64 word"
  hd_fmt :: "32 word"

datatype 'u entry =
    EDirectory file_mode hash_id 'u
  | ERegular file_mode file_size file_time hash_id "32 word" "(hash_id \<times> hash_id) list" 'u
  | ESymlink bytes 'u
  | EDeleted 'u
  | EUnknown "64 word" 'u

type_synonym 'u entry_pair = "bytes \<times> 'u entry"

record server_dir =
  di_id :: hash_id
  di_path :: os_string
  di_config :: dir_config

record 'u dir_content =
  ct_version :: "64 word"
  ct_cipher_version :: hash_id
  ct_length :: "32 word"
  ct_files :: "(os_string \<times> 'u entry) list"
  ct_list_up_to_date :: bool
  ct_prev_hmac :: hash_id
  ct_physical_entries :: "32 word"
  ct_session_key :: bytes
  ct_iv :: bytes
  ct_synth :: "(os_string \<times> file_mode) option"

definition default_content :: "'u dir_content" where
  "default_content =
     \<lparr>ct_version = 0, ct_cipher_version = UNKNOWN_HASH, ct_length = 0, ct_files = [], ct_list_up_to_date = False,
      ct_prev_hmac = UNKNOWN_HASH, ct_physical_entries = 0, ct_session_key = replicate BLKSZ (CHR 0x00), ct_iv = replicate BLKSZ (CHR 0x00),
      ct_synth = None\<rparr>"

text \<open>The state of the storage, the table \<open>latest_dir_ver\<close>, and how many statements, random identifiers and transaction numbers
  were used.\<close>

record 's dir_world =
  dw_st :: 's
  dw_db :: "(hash_id \<times> int \<times> int) list"
  dw_count :: nat
  dw_drawn :: nat
  dw_tx :: txid

text \<open>\<open>dv_order\<close> is the order in which the hash table of files is iterated.\<close>

record ('s, 'c, 'u) dir_env =
  dv_storage :: "'s storage"
  dv_ci :: "'c cipher"
  dv_cr :: "'u crypto"
  dv_key :: key_chain
  dv_rand :: "nat \<Rightarrow> hash_id"
  dv_faults :: "nat \<Rightarrow> string option"
  dv_block_size :: nat
  dv_ser_header :: "dir_header \<Rightarrow> bytes"
  dv_de_header :: "bytes \<Rightarrow> dir_header res"
  dv_ser_pairs :: "'u entry_pair list \<Rightarrow> bytes"
  dv_de_pairs :: "bytes \<Rightarrow> 'u entry_pair list res"
  dv_gzip :: "bytes \<Rightarrow> bytes"
  dv_gunzip :: "bytes \<Rightarrow> read_event list"
  dv_order :: "(os_string \<times> 'u entry) list \<Rightarrow> (os_string \<times> 'u entry) list"

subsection \<open>Steps\<close>

text \<open>A computation on the world and a local state \<open>'l\<close>, which is mostly the content of a directory.\<close>

type_synonym ('s, 'l, 'a) cm = "'s dir_world \<Rightarrow> 'l \<Rightarrow> ('s dir_world \<times> 'l \<times> 'a res) option"

definition cm_ok :: "'a \<Rightarrow> ('s, 'l, 'a) cm" where
  "cm_ok a w c = Some (w, c, Inr a)"

definition cm_err :: "error_kind \<Rightarrow> ('s, 'l, 'a) cm" where
  "cm_err k w c = Some (w, c, Inl (err k))"

definition cm_res :: "'a res \<Rightarrow> ('s, 'l, 'a) cm" where
  "cm_res r w c = Some (w, c, r)"

definition cm_bind :: "('s, 'l, 'a) cm \<Rightarrow> ('a \<Rightarrow> ('s, 'l, 'b) cm) \<Rightarrow> ('s, 'l, 'b) cm" where
  "cm_bind m f w c =
     Option.bind (m w c) (\<lambda>(w1, c1, r). case r of Inl e \<Rightarrow> Some (w1, c1, Inl e) | Inr a \<Rightarrow> f a w1 c1)"

definition cm_get :: "('s, 'l, 'l) cm" where
  "cm_get w c = Some (w, c, Inr c)"

definition cm_mod :: "('l \<Rightarrow> 'l) \<Rightarrow> ('s, 'l, unit) cm" where
  "cm_mod f w c = Some (w, f c, Inr ())"

text \<open>A value, or a panic.\<close>

definition cm_some :: "'a option \<Rightarrow> ('s, 'l, 'a) cm" where
  "cm_some x w c = map_option (\<lambda>a. (w, c, Inr a)) x"

definition cm_st :: "('s \<Rightarrow> 's \<times> 'a res) \<Rightarrow> ('s, 'l, 'a) cm" where
  "cm_st f w c = (case f (dw_st w) of (s, r) \<Rightarrow> Some (w\<lparr>dw_st := s\<rparr>, c, r))"

definition cm_rand :: "('s, 'c, 'u) dir_env \<Rightarrow> ('s, 'l, hash_id) cm" where
  "cm_rand env w c = Some (w\<lparr>dw_drawn := dw_drawn w + 1\<rparr>, c, Inr (dv_rand env (dw_drawn w)))"

definition cm_sql :: "('s, 'c, 'u) dir_env \<Rightarrow> ((hash_id \<times> int \<times> int) list \<Rightarrow> (hash_id \<times> int \<times> int) list \<times> 'a) \<Rightarrow> ('s, 'l, 'a) cm" where
  "cm_sql env f w c =
     (case dv_faults env (dw_count w) of
        Some e \<Rightarrow> Some (w\<lparr>dw_count := dw_count w + 1\<rparr>, c, Inl (err (Sqlite e)))
      | None \<Rightarrow> case f (dw_db w) of (d, a) \<Rightarrow> Some (w\<lparr>dw_db := d, dw_count := dw_count w + 1\<rparr>, c, Inr a))"

definition cm_chain :: "string \<Rightarrow> ('s, 'l, 'a) cm \<Rightarrow> ('s, 'l, 'a) cm" where
  "cm_chain msg m w c = map_option (\<lambda>(w1, c1, r). (w1, c1, chain_err r (Msg msg))) (m w c)"

text \<open>Running on a part of the local state, or on one of its own.\<close>

definition cm_fst :: "('s, 'l, 'a) cm \<Rightarrow> ('s, 'l \<times> 'x, 'a) cm" where
  "cm_fst m w p = map_option (\<lambda>(w1, l, r). (w1, (l, snd p), r)) (m w (fst p))"

definition cm_snd :: "('s, 'x, 'a) cm \<Rightarrow> ('s, 'l \<times> 'x, 'a) cm" where
  "cm_snd m w p = map_option (\<lambda>(w1, x, r). (w1, (fst p, x), r)) (m w (snd p))"

definition cm_within :: "'m \<Rightarrow> ('s, 'm, 'a) cm \<Rightarrow> ('s, 'l, 'a \<times> 'm) cm" where
  "cm_within c0 m w l = map_option (\<lambda>(w1, c1, r). (w1, l, map_sum id (\<lambda>a. (a, c1)) r)) (m w c0)"

subsection \<open>Content\<close>

definition apply_entry :: "'u entry_pair \<Rightarrow> 'u dir_content \<Rightarrow> 'u dir_content" where
  "apply_entry p c =
     (let c1 = (case snd p of
                  EDeleted _ \<Rightarrow> c\<lparr>ct_files := AList.delete (fst p) (ct_files c)\<rparr>
                | e \<Rightarrow> c\<lparr>ct_files := AList.update (fst p) e (ct_files c)\<rparr>)
      in c1\<lparr>ct_physical_entries := ct_physical_entries c1 + 1\<rparr>)"

definition ct_is_valid :: "'u dir_content \<Rightarrow> bool" where
  "ct_is_valid c = (ct_length c > 0)"

definition rewrite_instead_of_append :: "'u dir_content \<Rightarrow> bool" where
  "rewrite_instead_of_append c =
     (ct_physical_entries c > 16 \<and> unat (ct_physical_entries c) > length (ct_files c) * 2)"

subsection \<open>Chunks\<close>

definition read_key :: "('s, 'c, 'u) dir_env \<Rightarrow> server_dir \<Rightarrow> internal_key res" where
  "read_key env d = chain_key (dv_key env) (read_group (di_config d))"

definition write_key :: "('s, 'c, 'u) dir_env \<Rightarrow> server_dir \<Rightarrow> internal_key res" where
  "write_key env d = chain_key (dv_key env) (write_group (di_config d))"

definition le4 :: "nat \<Rightarrow> bytes" where
  "le4 n = map (\<lambda>i. char_of (n div 256 ^ i mod 256)) [0..<4]"

definition le4_dec :: "bytes \<Rightarrow> nat" where
  "le4_dec b = (\<Sum>i<4. of_char (b ! i) * 256 ^ i)"

definition pad_block :: "bytes \<Rightarrow> bytes" where
  "pad_block b = b @ replicate ((BLKSZ - length b mod BLKSZ) mod BLKSZ) (CHR 0x00)"

text \<open>\<open>dst\<close> with the chunk, and the chunk's signature.\<close>

definition encode_chunk :: "('s, 'c, 'u) dir_env \<Rightarrow> server_dir \<Rightarrow> bytes \<Rightarrow> bytes \<Rightarrow> hash_id \<Rightarrow> (bytes \<times> hash_id) res" where
  "encode_chunk env d dst content prev_hmac =
     (let padded = pad_block (dst @ UNKNOWN_HASH @ le4 (4 + length content) @ content);
          body = drop (length dst + 32) padded
      in case read_key env d of
           Inl e \<Rightarrow> Inl e
         | Inr k \<Rightarrow> let h = cr_sha3 (dv_cr env) (body @ prev_hmac @ hmac_secret k) in Inr (dst @ h @ body, h))"

definition corrupt :: "server_dir \<Rightarrow> string \<Rightarrow> error" where
  "corrupt d msg = err (ServerDirectoryCorrupt (di_path d) msg)"

text \<open>What follows the chunk, its signature and its value. The slice \<open>hmac_data[4..len_bytes]\<close> panics when the length is less
  than 4.\<close>

definition read_v0_chunk ::
  "('s, 'c, 'u) dir_env \<Rightarrow> server_dir \<Rightarrow> (bytes \<Rightarrow> 'a res) \<Rightarrow> bytes \<Rightarrow> hash_id \<Rightarrow> (bytes \<times> hash_id \<times> 'a) option res option" where
  "read_v0_chunk env d de data prev_hmac =
     (if data = [] then Some (Inr None)
      else if length data < 32 + 4 then Some (Inl (corrupt d ''Trailing bytes too small to be a chunk header''))
      else
        let chunk_hmac = take 32 data;
            rest = drop 32 data;
            len_bytes = le4_dec rest;
            len_blocks = (len_bytes + BLKSZ - 1) div BLKSZ
        in
        if length rest < len_blocks * BLKSZ then Some (Inl (corrupt d ''Chunk length larger than remainder of content''))
        else if len_bytes < 4 then None
        else
          let hmac_data = take (len_blocks * BLKSZ) rest in
          case read_key env d of
            Inl e \<Rightarrow> Some (Inl e)
          | Inr k \<Rightarrow>
              if cr_sha3 (dv_cr env) (hmac_data @ prev_hmac @ hmac_secret k) \<noteq> chunk_hmac
              then Some (Inl (corrupt d ''Chunk HMAC is invalid''))
              else
                case de (take (len_bytes - 4) (drop 4 hmac_data)) of
                  Inl e \<Rightarrow> Some (Inl (Error (ServerDirectoryCorrupt (di_path d) ''Chunk contains invalid data'') (Some (EnsyncCause e))))
                | Inr v \<Rightarrow> Some (Inr (Some (drop (len_blocks * BLKSZ) rest, chunk_hmac, v))))"

text \<open>The loop of \<open>refresh\<close> over the chunks of entries; every chunk takes at least 36 bytes, so the length of the data is enough
  fuel.\<close>

fun read_chunks ::
  "('s, 'c, 'u) dir_env \<Rightarrow> server_dir \<Rightarrow> nat \<Rightarrow> bytes \<Rightarrow> 'u dir_content \<Rightarrow> 'u dir_content res option" where
  "read_chunks env d 0 data c = None"
| "read_chunks env d (Suc n) data c =
     (case read_v0_chunk env d (dv_de_pairs env) data (ct_prev_hmac c) of
        None \<Rightarrow> None
      | Some (Inl e) \<Rightarrow> Some (Inl e)
      | Some (Inr None) \<Rightarrow> Some (Inr c)
      | Some (Inr (Some (data1, h, entries))) \<Rightarrow>
          read_chunks env d n data1 (fold apply_entry entries (c\<lparr>ct_prev_hmac := h\<rparr>)))"

subsection \<open>Reading a directory\<close>

definition save_latest_dir_ver :: "('s, 'c, 'u) dir_env \<Rightarrow> server_dir \<Rightarrow> ('s, 'u dir_content, unit) cm" where
  "save_latest_dir_ver env d =
     cm_bind cm_get (\<lambda>c.
       cm_chain ''Failed to save latest directory version''
         (cm_sql env (\<lambda>db. (AList.update (di_id d) (sint (ct_version c), int (unat (ct_length c))) db, ()))))"

text \<open>The version has not gone back: \<open>latest_ver\<close> and \<open>latest_len\<close> are cast from \<open>i64\<close>, and pairs are compared lexicographically.\<close>

definition check_latest :: "server_dir \<Rightarrow> 64 word \<Rightarrow> nat \<Rightarrow> (int \<times> int) option \<Rightarrow> unit res" where
  "check_latest d version len latest =
     (case latest of
        None \<Rightarrow> Inr ()
      | Some (lv, ll) \<Rightarrow>
          let latest_ver = word_of_int lv; latest_len = word_of_int ll; l = (of_nat len :: 64 word) in
          if version < latest_ver \<or> version = latest_ver \<and> l < latest_len
          then Inl (err (DirectoryVersionRecessed (di_path d) latest_ver latest_len version l))
          else Inr ())"

definition check_header :: "server_dir \<Rightarrow> 64 word \<Rightarrow> dir_header \<Rightarrow> unit res" where
  "check_header d version h =
     (if hd_dir_id h \<noteq> di_id d then Inl (err (DirectoryEmbeddedIdMismatch (di_path d)))
      else if hd_ver h \<noteq> version then Inl (err (DirectoryEmbeddedVerMismatch (di_path d)))
      else if hd_fmt h > 0 then Inl (err (UnsupportedServerDirectoryFormat (di_path d) 0 (hd_fmt h)))
      else Inr ())"

text \<open>Decryption and parsing: the new content.\<close>

definition parse_dir :: "('s, 'c, 'u) dir_env \<Rightarrow> server_dir \<Rightarrow> hash_id \<Rightarrow> bytes \<Rightarrow> 64 word \<Rightarrow> ('s, 'l, 'u dir_content) cm" where
  "parse_dir env d cipher_version cipher_data version =
     cm_bind (cm_res (read_key env d)) (\<lambda>k.
     cm_bind (cm_some (decrypt_whole_dir (dv_ci env) [] cipher_data k)) (\<lambda>(data, r).
     cm_bind (cm_res r) (\<lambda>session_key.
     cm_bind (cm_some (read_v0_chunk env d (dv_de_header env) data UNKNOWN_HASH)) (\<lambda>r.
     cm_bind (cm_res r) (\<lambda>h. case h of
         None \<Rightarrow> cm_res (Inl (corrupt d ''No header at start of directory''))
       | Some (data1, chunk_hmac, header) \<Rightarrow>
           cm_bind (cm_res (check_header d version header)) (\<lambda>_.
           cm_bind (cm_some (dir_append_iv cipher_data)) (\<lambda>iv.
           cm_bind (cm_some (read_chunks env d (Suc (length data1)) data1
              \<lparr>ct_version = version, ct_cipher_version = cipher_version, ct_length = of_nat (length cipher_data), ct_files = [],
               ct_list_up_to_date = False, ct_prev_hmac = chunk_hmac, ct_physical_entries = 0, ct_session_key = session_key,
               ct_iv = iv, ct_synth = None\<rparr>)) cm_res)))))))"

definition refresh :: "('s, 'c, 'u) dir_env \<Rightarrow> server_dir \<Rightarrow> ('s, 'u dir_content, unit) cm" where
  "refresh env d =
     cm_bind cm_get (\<lambda>c.
     if ct_synth c \<noteq> None then cm_ok ()
     else
       cm_bind (cm_st (\<lambda>s. st_getdir (dv_storage env) s (di_id d))) (\<lambda>g. case g of
           None \<Rightarrow> cm_err DirectoryMissing
         | Some (cipher_version, cipher_data) \<Rightarrow>
             cm_bind (cm_some (decrypt_dir_ver (dv_ci env) (di_id d) cipher_version (dv_key env))) (\<lambda>version.
             cm_bind (cm_sql env (\<lambda>db. (db, map_of db (di_id d)))) (\<lambda>latest.
             cm_bind (cm_res (check_latest d version (length cipher_data) latest)) (\<lambda>_.
             cm_bind (parse_dir env d cipher_version cipher_data version) (\<lambda>new_content.
             cm_bind (cm_mod (\<lambda>_. new_content)) (\<lambda>_.
             save_latest_dir_ver env d)))))))"

definition refresh_if_needed :: "('s, 'c, 'u) dir_env \<Rightarrow> server_dir \<Rightarrow> ('s, 'u dir_content, unit) cm" where
  "refresh_if_needed env d = cm_bind cm_get (\<lambda>c. if \<not> ct_is_valid c then refresh env d else cm_ok ())"

definition lookup_opt :: "('s, 'c, 'u) dir_env \<Rightarrow> server_dir \<Rightarrow> os_string \<Rightarrow> ('s, 'u dir_content, 'u entry option) cm" where
  "lookup_opt env d name = cm_bind (refresh_if_needed env d) (\<lambda>_. cm_bind cm_get (\<lambda>c. cm_ok (map_of (ct_files c) name)))"

definition lookup_entry :: "('s, 'c, 'u) dir_env \<Rightarrow> server_dir \<Rightarrow> os_string \<Rightarrow> ('s, 'u dir_content, 'u entry) cm" where
  "lookup_entry env d name =
     cm_bind (lookup_opt env d name) (\<lambda>x. case x of Some e \<Rightarrow> cm_ok e | None \<Rightarrow> cm_err NotFound)"

definition v0_entry_to_filedata :: "'u entry \<Rightarrow> file_data option" where
  "v0_entry_to_filedata e =
     (case e of
        EDirectory mode _ _ \<Rightarrow> Some (Directory mode)
      | ERegular mode sz time hm _ _ _ \<Rightarrow> Some (Regular mode sz time hm)
      | ESymlink target _ \<Rightarrow> Some (Symlink target)
      | EUnknown _ _ \<Rightarrow> Some Special
      | EDeleted _ \<Rightarrow> None)"

definition dir_list :: "('s, 'c, 'u) dir_env \<Rightarrow> server_dir \<Rightarrow> ('s, 'u dir_content, (os_string \<times> file_data) list) cm" where
  "dir_list env d =
     cm_bind (refresh_if_needed env d) (\<lambda>_.
     cm_bind (cm_mod (\<lambda>c. c\<lparr>ct_list_up_to_date := True\<rparr>)) (\<lambda>_.
     cm_bind cm_get (\<lambda>c.
     cm_some (those (map (\<lambda>(name, e). map_option (Pair name) (v0_entry_to_filedata e)) (dv_order env (ct_files c)))))))"

definition ver_and_len :: "('s, 'c, 'u) dir_env \<Rightarrow> server_dir \<Rightarrow> ('s, 'u dir_content, 64 word \<times> 32 word) cm" where
  "ver_and_len env d = cm_bind (refresh_if_needed env d) (\<lambda>_. cm_bind cm_get (\<lambda>c. cm_ok (ct_version c, ct_length c)))"

subsection \<open>Writing a directory\<close>

text \<open>\<open>encode_chunk\<close> with \<open>&mut content.prev_hmac\<close>.\<close>

definition put_chunk :: "('s, 'c, 'u) dir_env \<Rightarrow> server_dir \<Rightarrow> bytes \<Rightarrow> bytes \<Rightarrow> ('s, 'u dir_content, bytes) cm" where
  "put_chunk env d dst content =
     cm_bind cm_get (\<lambda>c.
     cm_bind (cm_res (encode_chunk env d dst content (ct_prev_hmac c))) (\<lambda>(out, h).
     cm_bind (cm_mod (\<lambda>c. c\<lparr>ct_prev_hmac := h\<rparr>)) (\<lambda>_. cm_ok out)))"

definition write_secret :: "('s, 'c, 'u) dir_env \<Rightarrow> server_dir \<Rightarrow> ('s, 'u dir_content, hash_id) cm" where
  "write_secret env d =
     cm_bind cm_get (\<lambda>c. cm_bind (cm_res (write_key env d)) (\<lambda>k. cm_ok (secret_dir_ver (dv_cr env) (ct_cipher_version c) k)))"

definition rewrite :: "('s, 'c, 'u) dir_env \<Rightarrow> server_dir \<Rightarrow> txid \<Rightarrow> bool \<Rightarrow> ('s, 'u dir_content, unit) cm" where
  "rewrite env d tx rmdir =
     cm_bind (if rmdir
              then cm_bind (write_secret env d) (\<lambda>sv. cm_bind cm_get (\<lambda>c.
                     cm_st (\<lambda>s. st_rmdir (dv_storage env) s tx (di_id d) sv (ct_length c))))
              else cm_ok ()) (\<lambda>_.
     cm_bind (cm_mod (\<lambda>c. c\<lparr>ct_version := ct_version c + 1\<rparr>)) (\<lambda>_.
     cm_bind cm_get (\<lambda>c.
     cm_bind (cm_some (encrypt_dir_ver (dv_ci env) (di_id d) (ct_version c) (dv_key env))) (\<lambda>cv.
     let header = \<lparr>hd_dir_id = di_id d, hd_ver = ct_version c, hd_fmt = 0\<rparr>;
         entries = dv_order env (ct_files c)
     in
     cm_bind (cm_mod (\<lambda>c. c\<lparr>ct_cipher_version := cv, ct_physical_entries := of_nat (length entries), ct_prev_hmac := UNKNOWN_HASH\<rparr>)) (\<lambda>_.
     cm_bind (put_chunk env d [] (dv_ser_header env header)) (\<lambda>clear1.
     cm_bind (put_chunk env d clear1 (dv_ser_pairs env entries)) (\<lambda>cleartext.
     cm_bind (cm_res (read_key env d)) (\<lambda>k.
     cm_bind (cm_rand env) (\<lambda>key_and_iv.
     cm_bind (cm_some (encrypt_whole_dir (dv_ci env) key_and_iv [] cleartext k)) (\<lambda>(ciphertext, r).
     cm_bind (cm_res r) (\<lambda>session_key.
     cm_bind (cm_some (dir_append_iv ciphertext)) (\<lambda>iv.
     cm_bind (cm_mod (\<lambda>c. c\<lparr>ct_session_key := session_key, ct_length := of_nat (length ciphertext), ct_iv := iv\<rparr>)) (\<lambda>_.
     cm_bind (write_secret env d) (\<lambda>sv.
     cm_st (\<lambda>s. st_mkdir (dv_storage env) s tx (di_id d) cv sv ciphertext)))))))))))))))"

definition append_entry :: "('s, 'c, 'u) dir_env \<Rightarrow> server_dir \<Rightarrow> txid \<Rightarrow> os_string \<Rightarrow> 'u entry \<Rightarrow> ('s, 'u dir_content, unit) cm" where
  "append_entry env d tx name e =
     cm_bind (put_chunk env d [] (dv_ser_pairs env [(name, e)])) (\<lambda>cleartext.
     cm_bind cm_get (\<lambda>c.
     cm_bind (cm_some (encrypt_append_dir (dv_ci env) [] cleartext (ct_session_key c) (ct_iv c))) (\<lambda>(ciphertext, r).
     cm_bind (cm_res r) (\<lambda>_.
     cm_bind (write_secret env d) (\<lambda>sv.
     cm_bind (cm_st (\<lambda>s. st_updir (dv_storage env) s tx (di_id d) sv (ct_length c) ciphertext)) (\<lambda>_.
     cm_bind (cm_some (dir_append_iv ciphertext)) (\<lambda>iv.
     cm_mod (\<lambda>c. c\<lparr>ct_length := ct_length c + of_nat (length ciphertext), ct_iv := iv\<rparr>))))))))"

definition add_entry :: "('s, 'c, 'u) dir_env \<Rightarrow> server_dir \<Rightarrow> txid \<Rightarrow> os_string \<Rightarrow> 'u entry \<Rightarrow> ('s, 'u dir_content, unit) cm" where
  "add_entry env d tx name e =
     cm_bind cm_get (\<lambda>c.
       if rewrite_instead_of_append c
       then cm_bind (cm_mod (apply_entry (name, e))) (\<lambda>_. rewrite env d tx True)
       else cm_bind (append_entry env d tx name e) (\<lambda>_. cm_mod (apply_entry (name, e))))"

subsection \<open>Transactions\<close>

text \<open>The closure of a transaction works on the content and on what it captures, \<open>'x\<close>. Only the content is restored.\<close>

fun dir_tx_loop ::
  "('s, 'c, 'u) dir_env \<Rightarrow> nat \<Rightarrow> (txid \<Rightarrow> ('s, 'u dir_content \<times> 'x, 'a option) cm) \<Rightarrow> ('s, 'u dir_content \<times> 'x, 'a option) cm" where
  "dir_tx_loop env 0 f w cx = cm_err TooManyTxRetries w cx"
| "dir_tx_loop env (Suc n) f w cx =
     (let st = dv_storage env; tx = dw_tx w; w0 = w\<lparr>dw_tx := tx + 1\<rparr> in
      case st_start_tx st (dw_st w0) tx of
        (s, Inl e) \<Rightarrow> Some (w0\<lparr>dw_st := s\<rparr>, cx, Inl e)
      | (s, Inr _) \<Rightarrow>
          Option.bind (f tx (w0\<lparr>dw_st := s\<rparr>) cx) (\<lambda>(w1, (c1, x1), r).
            case r of
              Inr (Some a) \<Rightarrow>
                (case st_commit st (dw_st w1) tx of
                   (s, Inl e) \<Rightarrow> Some (w1\<lparr>dw_st := s\<rparr>, (c1, x1), Inl e)
                 | (s, Inr True) \<Rightarrow> Some (w1\<lparr>dw_st := s\<rparr>, (c1, x1), Inr (Some a))
                 | (s, Inr False) \<Rightarrow> dir_tx_loop env n f (w1\<lparr>dw_st := s\<rparr>) (default_content, x1))
            | Inr None \<Rightarrow>
                (case st_abort st (dw_st w1) tx of
                   (s, Inl e) \<Rightarrow> Some (w1\<lparr>dw_st := s\<rparr>, (fst cx, x1), Inl e)
                 | (s, Inr _) \<Rightarrow> Some (w1\<lparr>dw_st := s\<rparr>, (fst cx, x1), Inr None))
            | Inl e \<Rightarrow> Some (w1\<lparr>dw_st := fst (st_abort st (dw_st w1) tx)\<rparr>, (fst cx, x1), Inl e)))"

definition dir_do_tx ::
  "('s, 'c, 'u) dir_env \<Rightarrow> (txid \<Rightarrow> ('s, 'u dir_content \<times> 'x, 'a option) cm) \<Rightarrow> ('s, 'u dir_content \<times> 'x, 'a option) cm" where
  "dir_do_tx env f = dir_tx_loop env 16 f"

text \<open>A closure that captures nothing it changes.\<close>

definition dir_do_tx0 ::
  "('s, 'c, 'u) dir_env \<Rightarrow> (txid \<Rightarrow> ('s, 'u dir_content, 'a option) cm) \<Rightarrow> ('s, 'u dir_content, 'a option) cm" where
  "dir_do_tx0 env f w c =
     map_option (\<lambda>(w1, (c1, _), r). (w1, c1, r)) (dir_do_tx env (\<lambda>tx. cm_fst (f tx)) w (c, ()))"

subsection \<open>Creating directories\<close>

definition subdir_path :: "server_dir \<Rightarrow> os_string \<Rightarrow> os_string" where
  "subdir_path d name = di_path d @ ''/'' @ name"

definition create_directory :: "('s, 'c, 'u) dir_env \<Rightarrow> server_dir \<Rightarrow> txid \<Rightarrow> os_string \<Rightarrow> ('s, 'l, hash_id) cm" where
  "create_directory env d tx name =
     cm_bind (cm_rand env) (\<lambda>i.
     cm_bind (cm_res (config_sub (di_config d) (to_string_lossy name))) (\<lambda>cfg.
     cm_bind (cm_within default_content (rewrite env \<lparr>di_id = i, di_path = [], di_config = cfg\<rparr> tx False)) (\<lambda>_. cm_ok i)))"

definition root_dir :: server_dir where
  "root_dir = \<lparr>di_id = DIRID_PROOT, di_path = [], di_config = default_config\<rparr>"

text \<open>The loop of \<open>root\<close>; it may run for ever when the storage keeps refusing.\<close>

partial_function (option) root_loop :: "('s, 'c, 'u) dir_env \<Rightarrow> 's dir_world \<Rightarrow> 'u dir_content \<Rightarrow> ('s dir_world \<times> 'u dir_content \<times> unit res) option" where
  "root_loop env w c =
     (case st_getdir (dv_storage env) (dw_st w) (di_id root_dir) of
        (s, Inl e) \<Rightarrow> Some (w\<lparr>dw_st := s\<rparr>, c, Inl e)
      | (s, Inr (Some _)) \<Rightarrow> Some (w\<lparr>dw_st := s\<rparr>, c, Inr ())
      | (s, Inr None) \<Rightarrow>
          let tx = dw_tx w in
          Option.bind
            (cm_bind (cm_st (\<lambda>s. st_start_tx (dv_storage env) s tx)) (\<lambda>_.
             cm_bind (rewrite env root_dir tx False) (\<lambda>_.
             cm_st (\<lambda>s. st_commit (dv_storage env) s tx))) (w\<lparr>dw_st := s, dw_tx := tx + 1\<rparr>) c)
            (\<lambda>(w1, c1, r). case r of Inl e \<Rightarrow> Some (w1, c1, Inl e) | Inr _ \<Rightarrow> root_loop env w1 c1))"

declare root_loop.simps [code]

definition dir_root :: "('s, 'c, 'u) dir_env \<Rightarrow> 's dir_world \<Rightarrow> ('s dir_world \<times> (server_dir \<times> 'u dir_content) res) option" where
  "dir_root env w =
     map_option (\<lambda>(w1, c, r). (w1, map_sum id (\<lambda>_. (root_dir, c)) r)) (root_loop env (w\<lparr>dw_tx := 1\<rparr>) default_content)"

text \<open>The new directory and its content; the local state is the content of the parent \<open>d\<close>.\<close>

definition subdir :: "('s, 'c, 'u) dir_env \<Rightarrow> server_dir \<Rightarrow> os_string \<Rightarrow> ('s, 'u dir_content, server_dir \<times> 'u dir_content) cm" where
  "subdir env d name =
     cm_bind (lookup_entry env d name) (\<lambda>e. case e of
         EDirectory _ i _ \<Rightarrow>
           cm_bind (cm_res (config_sub (di_config d) (to_string_lossy name))) (\<lambda>cfg.
             cm_ok (\<lparr>di_id = i, di_path = subdir_path d name, di_config = cfg\<rparr>, default_content))
       | _ \<Rightarrow> cm_err NotADirectory)"

definition synthdir :: "('s, 'c, 'u) dir_env \<Rightarrow> server_dir \<Rightarrow> os_string \<Rightarrow> file_mode \<Rightarrow> ('s, 'u dir_content, server_dir \<times> 'u dir_content) cm" where
  "synthdir env d name mode w c =
     Option.bind (subdir env d name w c) (\<lambda>(w1, c1, r).
       case r of
         Inr x \<Rightarrow> Some (w1, c1, Inr x)
       | Inl _ \<Rightarrow>
           cm_bind (cm_rand env) (\<lambda>i.
             cm_ok (\<lparr>di_id = i, di_path = subdir_path d name,
                     di_config = (case config_sub (di_config d) (to_string_lossy name) of Inr cfg \<Rightarrow> cfg | Inl _ \<Rightarrow> di_config d)\<rparr>,
                    default_content\<lparr>ct_synth := Some (name, mode)\<rparr>)) w1 c1)"

text \<open>The transaction of \<open>materialise\<close>: on the content of the parent \<open>pd\<close> and that of the directory.\<close>

definition mat_body ::
  "('s, 'c, 'u) dir_env \<Rightarrow> server_dir \<Rightarrow> server_dir \<Rightarrow> os_string \<Rightarrow> file_mode \<Rightarrow> txid \<Rightarrow> ('s, 'u dir_content \<times> 'u dir_content, unit option) cm" where
  "mat_body env d pd name mode tx =
     cm_bind cm_get (\<lambda>(pc, _).
       if map_of (ct_files pc) name \<noteq> None then cm_err SynthConflict
       else
         cm_bind (cm_snd (rewrite env d tx False)) (\<lambda>_.
         cm_bind (cm_fst (add_entry env pd tx name (EDirectory mode (di_id d) (cr_unknown (dv_cr env))))) (\<lambda>_. cm_ok (Some ()))))"

text \<open>A directory with its parents, nearest first. A synthetic root is a panic.\<close>

fun materialise :: "('s, 'c, 'u) dir_env \<Rightarrow> ('s, (server_dir \<times> 'u dir_content) list, unit) cm" where
  "materialise env w [] = None"
| "materialise env w ((d, c) # ps) =
     (case ct_synth c of
        None \<Rightarrow> Some (w, (d, c) # ps, Inr ())
      | Some (name, mode) \<Rightarrow>
          (case ps of
             [] \<Rightarrow> None
           | (pd, _) # _ \<Rightarrow>
               (case config_sub (di_config pd) (to_string_lossy name) of
                  Inl e \<Rightarrow> Some (w, (d, c) # ps, Inl e)
                | Inr _ \<Rightarrow>
                    Option.bind (materialise env w ps) (\<lambda>(w1, ps1, r).
                      case (r, ps1) of
                        (Inl e, _) \<Rightarrow> Some (w1, (d, c) # ps1, Inl e)
                      | (Inr _, []) \<Rightarrow> None
                      | (Inr _, (_, pc) # pps) \<Rightarrow>
                          Option.bind (dir_do_tx env (mat_body env d pd name mode) w1 (pc, c)) (\<lambda>(w2, (pc2, c2), r).
                            case r of
                              Inl e \<Rightarrow> Some (w2, (d, c2) # (pd, pc2) # pps, Inl e)
                            | Inr _ \<Rightarrow>
                                map_option (\<lambda>(w3, c3, r). (w3, (d, if is_ok r then c3\<lparr>ct_synth := None\<rparr> else c3) # (pd, pc2) # pps, r))
                                  (save_latest_dir_ver env d w2 c2))))))"

subsection \<open>Editing\<close>

text \<open>A \<open>StreamSource\<close>.\<close>

record 'r stream_source =
  sx_read :: "'r reader"
  sx_reset :: "'r \<Rightarrow> 'r \<times> unit res"
  sx_finish :: "'r \<Rightarrow> block_list \<Rightarrow> 'r \<times> unit res"

definition upload_object :: "('s, 'c, 'u) dir_env \<Rightarrow> txid \<Rightarrow> hash_id \<Rightarrow> hash_id \<Rightarrow> bytes \<Rightarrow> ('s, 'l, unit) cm" where
  "upload_object env tx blockid linkid block_data =
     cm_bind (cm_some (encrypt_obj (dv_ci env) slice_read vec_write [] (dv_gzip env block_data) blockid)) (\<lambda>(ciphertext, _, r).
     cm_bind (cm_res r) (\<lambda>_.
     cm_st (\<lambda>s. st_putobj (dv_storage env) s tx (xform_obj_id (dv_cr env) blockid) linkid ciphertext)))"

text \<open>The closure passed to \<open>stream_to_blocks\<close>; its state is the world and the list of blocks, or nothing after a panic.\<close>

definition put_block :: "('s, 'c, 'u) dir_env \<Rightarrow> txid \<Rightarrow> hash_id \<Rightarrow> bytes \<Rightarrow> ('s, (hash_id \<times> hash_id) list, unit) cm" where
  "put_block env tx blockid block_data =
     cm_bind (cm_rand env) (\<lambda>linkid.
     cm_bind (cm_mod (\<lambda>bs. bs @ [(blockid, linkid)])) (\<lambda>_.
     cm_bind (cm_st (\<lambda>s. st_linkobj (dv_storage env) s tx (xform_obj_id (dv_cr env) blockid) linkid)) (\<lambda>linked.
       if \<not> linked then upload_object env tx blockid linkid block_data else cm_ok ())))"

definition closure_out :: "(hash_id \<Rightarrow> bytes \<Rightarrow> ('s, 'l, unit) cm) \<Rightarrow> ('s dir_world \<times> 'l) option block_out" where
  "closure_out m s h b =
     (case Option.bind s (\<lambda>(w, l). m h b w l) of
        None \<Rightarrow> (None, Inl (err (Msg ''panic'')))
      | Some (w1, l1, r) \<Rightarrow> (Some (w1, l1), r))"

definition store_stream ::
  "('s, 'c, 'u) dir_env \<Rightarrow> 'r stream_source \<Rightarrow> txid \<Rightarrow> bytes \<Rightarrow> ('s, 'r, block_list \<times> (hash_id \<times> hash_id) list) cm" where
  "store_stream env sx tx secret w r =
     Option.bind (stream_to_blocks (cr_sha3 (dv_cr env)) (sx_read sx) (closure_out (put_block env tx)) r (Some (w, [])) (dv_block_size env) secret)
       (\<lambda>(r1, s, res). map_option (\<lambda>(w1, blocks). (w1, r1, map_sum id (\<lambda>bl. (bl, blocks)) res)) s)"

definition cm_src :: "('r \<Rightarrow> 'r \<times> 'a res) \<Rightarrow> ('s, 'r, 'a) cm" where
  "cm_src f w r = (case f r of (r1, x) \<Rightarrow> Some (w, r1, x))"

definition upload_file :: "('s, 'c, 'u) dir_env \<Rightarrow> 'r stream_source \<Rightarrow> txid \<Rightarrow> ('s, 'r, block_list \<times> (hash_id \<times> hash_id) list) cm" where
  "upload_file env sx tx =
     cm_bind (cm_src (sx_reset sx)) (\<lambda>_.
     cm_bind (cm_res (obj_hmac_secret (dv_key env))) (\<lambda>secret.
     cm_bind (store_stream env sx tx secret) (\<lambda>(bl, blocks).
     cm_bind (cm_src (\<lambda>r. sx_finish sx r bl)) (\<lambda>_. cm_ok (bl, blocks)))))"

text \<open>\<open>xfer.as_mut().ok_or(MissingXfer)\<close>.\<close>

definition cm_xfer :: "('s, 'r, 'a) cm \<Rightarrow> ('s, 'r option, 'a) cm" where
  "cm_xfer m w x =
     (case x of None \<Rightarrow> cm_err MissingXfer w x | Some r \<Rightarrow> map_option (\<lambda>(w1, r1, a). (w1, Some r1, a)) (m w r))"

fun unlink_blocks :: "('s, 'c, 'u) dir_env \<Rightarrow> txid \<Rightarrow> (hash_id \<times> hash_id) list \<Rightarrow> ('s, 'l, unit) cm" where
  "unlink_blocks env tx [] = cm_ok ()"
| "unlink_blocks env tx ((i, linkid) # bs) =
     cm_bind (cm_st (\<lambda>s. st_unlinkobj (dv_storage env) s tx (xform_obj_id (dv_cr env) i) linkid)) (\<lambda>_. unlink_blocks env tx bs)"

text \<open>What is at the name now, and the identifier when it is a directory.\<close>

definition edit_old :: "('s, 'c, 'u) dir_env \<Rightarrow> server_dir \<Rightarrow> txid \<Rightarrow> os_string \<Rightarrow> ('s, 'u dir_content, hash_id option \<times> file_data option) cm" where
  "edit_old env d tx name =
     cm_bind (lookup_opt env d name) (\<lambda>x. case x of
         Some (EDeleted _) \<Rightarrow> cm_some None
       | Some (EDirectory mode i _) \<Rightarrow> cm_ok (Some i, Some (Directory mode))
       | Some (ESymlink target _) \<Rightarrow> cm_ok (None, Some (Symlink target))
       | Some (ERegular mode sz time hm _ blocks _) \<Rightarrow>
           cm_bind (unlink_blocks env tx blocks) (\<lambda>_. cm_ok (None, Some (Regular mode sz time hm)))
       | Some (EUnknown _ _) \<Rightarrow> cm_ok (None, Some Special)
       | None \<Rightarrow> cm_ok (None, None))"

definition edit_new ::
  "('s, 'c, 'u) dir_env \<Rightarrow> server_dir \<Rightarrow> 'r stream_source \<Rightarrow> txid \<Rightarrow> os_string \<Rightarrow> hash_id option \<Rightarrow> file_data option \<Rightarrow> ('s, 'r option, 'u entry) cm" where
  "edit_new env d sx tx name subdir_id new =
     (let u = cr_unknown (dv_cr env) in
      case new of
        None \<Rightarrow> cm_ok (EDeleted u)
      | Some Special \<Rightarrow> cm_some None
      | Some (Directory mode) \<Rightarrow>
          cm_bind (case subdir_id of Some i \<Rightarrow> cm_ok i | None \<Rightarrow> create_directory env d tx name) (\<lambda>i. cm_ok (EDirectory mode i u))
      | Some (Symlink target) \<Rightarrow> cm_ok (ESymlink target u)
      | Some (Regular mode sz time _) \<Rightarrow>
          cm_bind (cm_xfer (upload_file env sx tx)) (\<lambda>(bl, blocks).
            cm_ok (ERegular mode sz time (bl_total bl) (of_nat (dv_block_size env)) blocks u)))"

definition dir_edit_body ::
  "('s, 'c, 'u) dir_env \<Rightarrow> server_dir \<Rightarrow> 'r stream_source \<Rightarrow> os_string \<Rightarrow> file_data option \<Rightarrow> (file_data option \<Rightarrow> unit res) \<Rightarrow> txid \<Rightarrow>
   ('s, 'u dir_content \<times> 'r option, file_data option option) cm" where
  "dir_edit_body env d sx name new test tx =
     cm_bind (cm_fst (edit_old env d tx name)) (\<lambda>(subdir_id, old).
     cm_bind (cm_res (test old)) (\<lambda>_.
       if subdir_id \<noteq> None \<and> \<not> is_dir new then cm_some None
       else
         cm_bind (cm_snd (edit_new env d sx tx name subdir_id new)) (\<lambda>e.
         cm_bind (cm_fst (add_entry env d tx name e)) (\<lambda>_. cm_ok (Some (v0_entry_to_filedata e))))))"

text \<open>Running on the directory at the head of the chain.\<close>

definition cm_head :: "(server_dir \<Rightarrow> ('s, 'l \<times> 'x, 'a) cm) \<Rightarrow> ('s, (server_dir \<times> 'l) list \<times> 'x, 'a) cm" where
  "cm_head m w p =
     (case fst p of
        [] \<Rightarrow> None
      | (d, c) # ps \<Rightarrow> map_option (\<lambda>(w1, (c1, x1), r). (w1, ((d, c1) # ps, x1), r)) (m d w (c, snd p)))"

definition edit ::
  "('s, 'c, 'u) dir_env \<Rightarrow> 'r stream_source \<Rightarrow> os_string \<Rightarrow> file_data option \<Rightarrow> (file_data option \<Rightarrow> unit res) \<Rightarrow>
   ('s, (server_dir \<times> 'u dir_content) list \<times> 'r option, file_data option) cm" where
  "edit env sx name new test =
     cm_bind (cm_fst (materialise env)) (\<lambda>_.
     cm_head (\<lambda>d.
       cm_bind (dir_do_tx env (dir_edit_body env d sx name new test)) (\<lambda>r.
       cm_bind (cm_some r) (\<lambda>ret.
       cm_bind (cm_fst (save_latest_dir_ver env d)) (\<lambda>_. cm_ok ret)))))"

definition rename_body :: "('s, 'c, 'u) dir_env \<Rightarrow> server_dir \<Rightarrow> os_string \<Rightarrow> os_string \<Rightarrow> txid \<Rightarrow> ('s, 'u dir_content, unit option) cm" where
  "rename_body env d old new tx =
     cm_bind (lookup_opt env d new) (\<lambda>x.
     if x \<noteq> None then cm_err RenameDestExists
     else
       cm_bind (lookup_entry env d old) (\<lambda>e.
       cm_bind (case e of
                  EDirectory _ _ _ \<Rightarrow>
                    (let old_config = (case config_sub (di_config d) (to_string_lossy old) of Inr cfg \<Rightarrow> cfg | Inl _ \<Rightarrow> di_config d) in
                     cm_bind (cm_res (config_sub (di_config d) (to_string_lossy new))) (\<lambda>new_config.
                       if old_config \<noteq> new_config then cm_err RenameChangesDirConfig else cm_ok ()))
                | _ \<Rightarrow> cm_ok ()) (\<lambda>_.
       cm_bind (add_entry env d tx old (EDeleted (cr_unknown (dv_cr env)))) (\<lambda>_.
       cm_bind (add_entry env d tx new e) (\<lambda>_. cm_ok (Some ()))))))"

definition dir_rename :: "('s, 'c, 'u) dir_env \<Rightarrow> server_dir \<Rightarrow> os_string \<Rightarrow> os_string \<Rightarrow> ('s, 'u dir_content, unit) cm" where
  "dir_rename env d old new =
     cm_bind (dir_do_tx0 env (rename_body env d old new)) (\<lambda>_. save_latest_dir_ver env d)"

fun find_subdir :: "(os_string \<Rightarrow> file_mode \<Rightarrow> hash_id \<Rightarrow> bool res) \<Rightarrow> (os_string \<times> 'u entry) list \<Rightarrow> (os_string \<times> hash_id) option res" where
  "find_subdir test [] = Inr None"
| "find_subdir test ((name, e) # fs) =
     (case e of
        EDirectory mode i _ \<Rightarrow>
          (case test name mode i of Inl x \<Rightarrow> Inl x | Inr True \<Rightarrow> Inr (Some (name, i)) | Inr False \<Rightarrow> find_subdir test fs)
      | _ \<Rightarrow> find_subdir test fs)"

definition remove_body ::
  "('s, 'c, 'u) dir_env \<Rightarrow> server_dir \<Rightarrow> (os_string \<Rightarrow> file_mode \<Rightarrow> hash_id \<Rightarrow> bool res) \<Rightarrow> txid \<Rightarrow> ('s, 'u dir_content, hash_id option) cm" where
  "remove_body env d test tx =
     cm_bind (refresh_if_needed env d) (\<lambda>_.
     cm_bind cm_get (\<lambda>c.
     cm_bind (cm_res (find_subdir test (dv_order env (ct_files c)))) (\<lambda>x. case x of
         None \<Rightarrow> cm_ok None
       | Some (name, i) \<Rightarrow>
           cm_bind (cm_res (config_sub (di_config d) (to_string_lossy name))) (\<lambda>cfg.
           let child = \<lparr>di_id = i, di_path = subdir_path d name, di_config = cfg\<rparr> in
           cm_bind (cm_within default_content (refresh_if_needed env child)) (\<lambda>(_, cc).
           if ct_files cc \<noteq> [] then cm_err DirNotEmpty
           else
             cm_bind (cm_res (write_key env child)) (\<lambda>k.
             cm_bind (cm_st (\<lambda>s. st_rmdir (dv_storage env) s tx i (secret_dir_ver (dv_cr env) (ct_cipher_version cc) k) (ct_length cc))) (\<lambda>_.
             cm_bind (add_entry env d tx name (EDeleted (cr_unknown (dv_cr env)))) (\<lambda>_. cm_ok (Some i)))))))))"

definition remove_subdir ::
  "('s, 'c, 'u) dir_env \<Rightarrow> server_dir \<Rightarrow> (os_string \<Rightarrow> file_mode \<Rightarrow> hash_id \<Rightarrow> bool res) \<Rightarrow> ('s, 'u dir_content, bool) cm" where
  "remove_subdir env d test =
     cm_bind (dir_do_tx0 env (remove_body env d test)) (\<lambda>child_id.
     cm_bind (save_latest_dir_ver env d) (\<lambda>_.
     cm_bind (case child_id of
                None \<Rightarrow> cm_ok ()
              | Some i \<Rightarrow> cm_chain ''Error cleaning up latest_dir_ver'' (cm_sql env (\<lambda>db. (AList.delete i db, ())))) (\<lambda>_.
     cm_ok (child_id \<noteq> None))))"

subsection \<open>Transfer out\<close>

record ca_source =
  cs_blocks :: block_list
  cs_block_size :: nat

definition dir_transfer :: "('s, 'c, 'u) dir_env \<Rightarrow> server_dir \<Rightarrow> os_string \<Rightarrow> hash_id \<Rightarrow> ('s, 'u dir_content, ca_source) cm" where
  "dir_transfer env d name expected =
     cm_bind (lookup_opt env d name) (\<lambda>x. case x of
         None \<Rightarrow> cm_err ServerContentDeleted
       | Some (ERegular _ _ _ actual block_size blocks _) \<Rightarrow>
           if expected = actual
           then cm_ok \<lparr>cs_blocks = \<lparr>bl_total = actual, bl_blocks = map fst blocks\<rparr>, cs_block_size = unat block_size\<rparr>
           else cm_err ServerContentUpdated
       | Some _ \<Rightarrow> cm_err ServerContentUpdated)"

text \<open>\<open>ServerTransferOut::fetch\<close>: the reader is a decompressor over the decrypted object.\<close>

definition server_fetch :: "('s, 'c, 'u) dir_env \<Rightarrow> 's \<Rightarrow> hash_id \<Rightarrow> ('s \<times> read_event list res) option" where
  "server_fetch env s block =
     (case st_getobj (dv_storage env) s (xform_obj_id (dv_cr env) block) of
        (s1, Inl e) \<Rightarrow> Some (s1, Inl e)
      | (s1, Inr None) \<Rightarrow> Some (s1, Inl (err ServerContentDeleted))
      | (s1, Inr (Some ciphertext)) \<Rightarrow>
          map_option (\<lambda>(cleartext, _, r). (s1, map_sum id (\<lambda>_. dv_gunzip env cleartext) r))
            (decrypt_obj (dv_ci env) slice_read vec_write [] ciphertext block))"

end
