(* ===== verification/Server_Dir_Log.thy ===== *)
theory Server_Dir_Log
  imports Server_Dir "HOL-Library.Multiset"
begin

text \<open>
  What the stored bytes of a directory mean. A directory is a log: a header and lists of entries, each in a chunk signed
  with the signature of the chunk before. \<open>dir_repr\<close> relates the client's content to the stored
  version, secret version and bytes; parsing the bytes gives the same files, and a rewrite and an append both establish the relation
  for the changed files.
\<close>

section \<open>Definitions\<close>

text \<open>The body of a chunk and its signature; a sequence of chunks and its last signature.\<close>

definition chunk_body :: "bytes \<Rightarrow> bytes" where
  "chunk_body content = pad_block (le4 (4 + length content) @ content)"

definition chunk_mac :: "'u crypto \<Rightarrow> internal_key \<Rightarrow> hash_id \<Rightarrow> bytes \<Rightarrow> hash_id" where
  "chunk_mac cr k prev content = cr_sha3 cr (chunk_body content @ prev @ hmac_secret k)"

fun log_bytes :: "'u crypto \<Rightarrow> internal_key \<Rightarrow> hash_id \<Rightarrow> bytes list \<Rightarrow> bytes" where
  "log_bytes cr k prev [] = []"
| "log_bytes cr k prev (b # bs) = chunk_mac cr k prev b @ chunk_body b @ log_bytes cr k (chunk_mac cr k prev b) bs"

definition log_mac :: "'u crypto \<Rightarrow> internal_key \<Rightarrow> hash_id \<Rightarrow> bytes list \<Rightarrow> hash_id" where
  "log_mac cr k prev bs = foldl (chunk_mac cr k) prev bs"

text \<open>The files after a log of entries.\<close>

definition file_upd :: "'u entry_pair \<Rightarrow> (os_string \<rightharpoonup> 'u entry) \<Rightarrow> os_string \<rightharpoonup> 'u entry" where
  "file_upd p m = m(fst p := (case snd p of EDeleted _ \<Rightarrow> None | e \<Rightarrow> Some e))"

definition is_deleted :: "'u entry \<Rightarrow> bool" where
  "is_deleted e = (case e of EDeleted _ \<Rightarrow> True | _ \<Rightarrow> False)"

text \<open>The files of a content have distinct names and none is a deleted entry.\<close>

definition ct_wf :: "'u dir_content \<Rightarrow> bool" where
  "ct_wf c = (distinct (map fst (ct_files c)) \<and> list_all (\<lambda>(_, e). \<not> is_deleted e) (ct_files c))"

text \<open>What is assumed of the libraries: hashes have 32 bytes, deserialising inverts serialising, iterating a table visits every entry
  once, random identifiers have 32 bytes, and the key of the group \<open>everyone\<close> is there.\<close>

definition dir_env_ok :: "('s, 'c, 'u) dir_env \<Rightarrow> (bool \<Rightarrow> bytes \<Rightarrow> bytes \<Rightarrow> bytes \<Rightarrow> bytes) \<Rightarrow> bool" where
  "dir_env_ok env E =
     (cbc_ok (dv_ci env) E \<and> sha3_ok (dv_cr env) \<and> (\<forall>h. dv_de_header env (dv_ser_header env h) = Inr h) \<and>
      (\<forall>es. dv_de_pairs env (dv_ser_pairs env es) = Inr es) \<and> (\<forall>fs. mset (dv_order env fs) = mset fs) \<and>
      (\<forall>n. length (dv_rand env n) = 32) \<and> is_ok (chain_key (dv_key env) GROUP_EVERYONE))"

definition header_of :: "server_dir \<Rightarrow> 64 word \<Rightarrow> dir_header" where
  "header_of d ver = \<lparr>hd_dir_id = di_id d, hd_ver = ver, hd_fmt = 0\<rparr>"

definition dir_log :: "('s, 'c, 'u) dir_env \<Rightarrow> server_dir \<Rightarrow> 64 word \<Rightarrow> 'u entry_pair list list \<Rightarrow> bytes list" where
  "dir_log env d ver ess = dv_ser_header env (header_of d ver) # map (dv_ser_pairs env) ess"

definition dir_repr ::
  "('s, 'c, 'u) dir_env \<Rightarrow> (bool \<Rightarrow> bytes \<Rightarrow> bytes \<Rightarrow> bytes \<Rightarrow> bytes) \<Rightarrow> server_dir \<Rightarrow> 'u dir_content \<Rightarrow> hash_id \<times> hash_id \<times> bytes \<Rightarrow> bool" where
  "dir_repr env E d c s =
     (\<exists>k wk ki ess.
        read_key env d = Inr k \<and> write_key env d = Inr wk \<and> length ki = 32 \<and>
        encrypt_dir_ver (dv_ci env) (di_id d) (ct_version c) (dv_key env) = Some (ct_cipher_version c) \<and>
        s = (ct_cipher_version c, secret_dir_ver (dv_cr env) (ct_cipher_version c) wk,
             dir_cipher E k ki (log_bytes (dv_cr env) k UNKNOWN_HASH (dir_log env d (ct_version c) ess))) \<and>
        ct_length c = of_nat (length (snd (snd s))) \<and> dir_append_iv (snd (snd s)) = Some (ct_iv c) \<and>
        ct_session_key c = fst (split_key_and_iv ki) \<and> ct_prev_hmac c = log_mac (dv_cr env) k UNKNOWN_HASH (dir_log env d (ct_version c) ess) \<and>
        map_of (ct_files c) = fold file_upd (concat ess) Map.empty \<and> ct_wf c \<and> ct_synth c = None)"

section \<open>Lemmas\<close>

lemma is_deleted_simps [simp]:
  "\<not> is_deleted (EDirectory m i u)" "\<not> is_deleted (ERegular m sz t h bs bl u)" "\<not> is_deleted (ESymlink tg u)"
  "is_deleted (EDeleted u)" "\<not> is_deleted (EUnknown n u)"
  by (simp_all add: is_deleted_def)

subsection \<open>Chunks\<close>

lemma le4_length [simp]: "length (le4 n) = 4"
  by (simp add: le4_def)

lemma le4_roundtrip: "n < 2 ^ 32 \<Longrightarrow> le4_dec (le4 n @ rest) = n"
proof -
  assume n: "n < 2 ^ 32"
  have "le4_dec (le4 n @ rest) = (\<Sum>i<4. (n div 256 ^ i mod 256) * 256 ^ i)"
    unfolding le4_dec_def by (rule sum.cong) (auto simp: nth_append le4_def)
  also have "\<dots> = n mod 256 ^ 4"
  proof -
    have "(\<Sum>i<j. (n div 256 ^ i mod 256) * 256 ^ i) = n mod 256 ^ j" for j
    proof (induction j)
      case (Suc j)
      have "n mod 256 ^ Suc j = n mod 256 ^ j + 256 ^ j * (n div 256 ^ j mod 256)" by (simp only: power_Suc2 mod_mult2_eq add.commute)
      with Suc show ?case by simp
    qed simp
    then show ?thesis .
  qed
  finally show ?thesis using n by simp
qed

lemma pad_arith: "n + (16 - n mod 16) mod 16 = (n + 15) div 16 * (16 :: nat)"
proof -
  obtain q r where n: "n = 16 * q + r" and r: "r < 16" by (metis mod_less_divisor mult.commute mult_div_mod_eq zero_less_numeral)
  show ?thesis
  proof (cases "r = 0")
    case False
    have "(16 * q + r + 15) div 16 = Suc q" using False r by (intro div_nat_eqI) auto
    moreover have "(16 - r) mod 16 = 16 - r" using False r by simp
    ultimately show ?thesis using n r by simp
  qed (simp add: n)
qed

lemma pad_take: "length (pad_block b) = (length b + BLKSZ - 1) div BLKSZ * BLKSZ"
  using pad_arith [of "length b"] by (simp add: pad_block_def BLKSZ_def)

lemma pad_dvd: "BLKSZ dvd length (pad_block b)"
  by (simp add: pad_take)

lemma pad_append: "BLKSZ dvd length a \<Longrightarrow> pad_block (a @ b) = a @ pad_block b"
  by (auto simp: pad_block_def)

lemma body_dvd [simp]: "BLKSZ dvd length (chunk_body b)"
  by (simp add: chunk_body_def pad_dvd)

lemma body_prefix: "\<exists>z. chunk_body b = le4 (4 + length b) @ b @ z"
  by (simp add: chunk_body_def pad_block_def)

lemma body_len: "4 + length b \<le> length (chunk_body b)"
  using body_prefix [of b] by auto

lemma mac_length: "sha3_ok cr \<Longrightarrow> length (chunk_mac cr k p b) = 32"
  by (simp add: chunk_mac_def sha3_ok_def)

lemma log_dvd: "sha3_ok cr \<Longrightarrow> BLKSZ dvd length (log_bytes cr k p bs)"
  by (induction bs arbitrary: p) (auto simp: mac_length BLKSZ_32)

lemma log_append: "log_bytes cr k p (bs @ bs1) = log_bytes cr k p bs @ log_bytes cr k (log_mac cr k p bs) bs1"
  by (induction bs arbitrary: p) (auto simp: log_mac_def)

lemma log_mac_append: "log_mac cr k p (bs @ bs1) = log_mac cr k (log_mac cr k p bs) bs1"
  by (simp add: log_mac_def)

lemma log_len: "b \<in> set bs \<Longrightarrow> 4 + length b \<le> length (log_bytes cr k p bs)"
proof (induction bs arbitrary: p)
  case (Cons a bs)
  show ?case
  proof (cases "b = a")
    case True
    with body_len [of a] show ?thesis by simp
  next
    case False
    with Cons show ?thesis by (auto intro: trans_le_add2)
  qed
qed simp

lemma log_fuel: "length bs \<le> length (log_bytes cr k p bs)"
proof (induction bs arbitrary: p)
  case (Cons b bs)
  have "1 \<le> length (chunk_body b)" using body_len [of b] by simp
  with Cons [of "chunk_mac cr k p b"] show ?case by simp
qed simp

lemma encode_chunk_log:
  assumes "read_key env d = Inr k" "BLKSZ dvd length dst"
  shows "encode_chunk env d dst content prev =
    Inr (dst @ log_bytes (dv_cr env) k prev [content], log_mac (dv_cr env) k prev [content])"
proof -
  have "BLKSZ dvd length (dst @ UNKNOWN_HASH)" using assms(2) BLKSZ_32 by (simp add: UNKNOWN_HASH_def)
  then have "pad_block (dst @ UNKNOWN_HASH @ le4 (4 + length content) @ content) = (dst @ UNKNOWN_HASH) @ chunk_body content"
    using pad_append [of "dst @ UNKNOWN_HASH"] by (simp add: chunk_body_def)
  moreover have "length UNKNOWN_HASH = 32" by (simp add: UNKNOWN_HASH_def)
  ultimately show ?thesis using assms(1) by (simp add: encode_chunk_def Let_def chunk_mac_def log_mac_def)
qed

lemma read_chunk_parts:
  assumes "read_key env d = Inr k" "length h = 32" "le4_dec (body @ r) = 4 + m" "length body = (4 + m + BLKSZ - 1) div BLKSZ * BLKSZ"
    "cr_sha3 (dv_cr env) (body @ prev @ hmac_secret k) = h" "de (take m (drop 4 body)) = Inr v" "4 \<le> length body"
  shows "read_v0_chunk env d de (h @ body @ r) prev = Some (Inr (Some (r, h, v)))"
proof -
  have dr: "drop 32 (h @ body @ r) = body @ r" "take 32 (h @ body @ r) = h" using assms(2) by simp_all
  have l: "\<not> length (h @ body @ r) < 32 + 4" "h @ body @ r \<noteq> []" using assms(2,7) by auto
  have b: "take (length body) (body @ r) = body" "drop (length body) (body @ r) = r" "\<not> length (body @ r) < length body"
    "\<not> 4 + m < 4" "4 + m - 4 = m" by simp_all
  show ?thesis
    unfolding read_v0_chunk_def Let_def dr assms(3) assms(4) [symmetric] b assms(1)
    using l assms(5,6) by simp
qed

lemma read_chunk_log:
  assumes "read_key env d = Inr k" "sha3_ok (dv_cr env)" "4 + length b < 2 ^ 32" "de b = Inr v"
  shows "read_v0_chunk env d de (log_bytes (dv_cr env) k prev (b # bs)) prev =
    Some (Inr (Some (log_bytes (dv_cr env) k (chunk_mac (dv_cr env) k prev b) bs, chunk_mac (dv_cr env) k prev b, v)))"
proof -
  obtain z where z: "chunk_body b = le4 (4 + length b) @ b @ z" using body_prefix by blast
  have "le4_dec (chunk_body b @ r) = 4 + length b" for r using assms(3) le4_roundtrip by (simp add: z)
  moreover have "length (chunk_body b) = (4 + length b + BLKSZ - 1) div BLKSZ * BLKSZ" by (simp add: chunk_body_def pad_take)
  moreover have "take (length b) (drop 4 (chunk_body b)) = b" "4 \<le> length (chunk_body b)" by (simp_all add: z)
  ultimately show ?thesis
    unfolding log_bytes.simps using read_chunk_parts [OF assms(1) mac_length [OF assms(2)], of "chunk_body b" _ "length b" prev k prev b de v] assms(4)
    by (metis chunk_mac_def)
qed

lemma entry_prev:
  "ct_prev_hmac (apply_entry p c) = ct_prev_hmac c" "apply_entry p (c\<lparr>ct_prev_hmac := h\<rparr>) = (apply_entry p c)\<lparr>ct_prev_hmac := h\<rparr>"
  by (cases "snd p"; simp add: apply_entry_def)+

lemma entries_prev:
  "ct_prev_hmac (fold apply_entry es c) = ct_prev_hmac c" "fold apply_entry es (c\<lparr>ct_prev_hmac := h\<rparr>) = (fold apply_entry es c)\<lparr>ct_prev_hmac := h\<rparr>"
  by (induction es arbitrary: c) (simp_all add: entry_prev)

lemma read_chunks_log:
  assumes "read_key env d = Inr k" "sha3_ok (dv_cr env)" "\<forall>es. dv_de_pairs env (dv_ser_pairs env es) = Inr es"
    "\<forall>es\<in>set ess. 4 + length (dv_ser_pairs env es) < 2 ^ 32" "length ess < n"
  shows "read_chunks env d n (log_bytes (dv_cr env) k (ct_prev_hmac c) (map (dv_ser_pairs env) ess)) c =
    Some (Inr ((fold apply_entry (concat ess) c)\<lparr>ct_prev_hmac := log_mac (dv_cr env) k (ct_prev_hmac c) (map (dv_ser_pairs env) ess)\<rparr>))"
  using assms(4,5)
proof (induction ess arbitrary: n c)
  case Nil
  then obtain m where "n = Suc m" by (cases n) auto
  then show ?case by (simp add: read_v0_chunk_def log_mac_def)
next
  case (Cons es ess)
  from Cons.prems obtain m where m: "n = Suc m" "length ess < m" by (cases n) auto
  have "4 + length (dv_ser_pairs env es) < 2 ^ 32" using Cons.prems(1) by simp
  note r = read_chunk_log [OF assms(1,2) this, of "dv_de_pairs env" es]
  let ?c = "fold apply_entry es (c\<lparr>ct_prev_hmac := chunk_mac (dv_cr env) k (ct_prev_hmac c) (dv_ser_pairs env es)\<rparr>)"
  have "ct_prev_hmac ?c = chunk_mac (dv_cr env) k (ct_prev_hmac c) (dv_ser_pairs env es)" by (simp add: entries_prev)
  with Cons.IH [of m ?c] Cons.prems(1) m assms(3) r show ?case
    by (simp add: log_mac_def entries_prev del: log_bytes.simps)
qed

subsection \<open>Files\<close>

lemma entry_frame:
  "ct_version (apply_entry p c) = ct_version c" "ct_cipher_version (apply_entry p c) = ct_cipher_version c"
  "ct_length (apply_entry p c) = ct_length c" "ct_session_key (apply_entry p c) = ct_session_key c" "ct_iv (apply_entry p c) = ct_iv c"
  "ct_synth (apply_entry p c) = ct_synth c"
  by (cases "snd p"; simp add: apply_entry_def)+

lemma entries_frame:
  "ct_version (fold apply_entry es c) = ct_version c" "ct_cipher_version (fold apply_entry es c) = ct_cipher_version c"
  "ct_length (fold apply_entry es c) = ct_length c" "ct_session_key (fold apply_entry es c) = ct_session_key c"
  "ct_iv (fold apply_entry es c) = ct_iv c" "ct_synth (fold apply_entry es c) = ct_synth c"
  by (induction es arbitrary: c) (simp_all add: entry_frame)

lemma entry_files: "map_of (ct_files (apply_entry p c)) = file_upd p (map_of (ct_files c))"
  by (cases "snd p") (auto simp: apply_entry_def file_upd_def update_conv' delete_conv')

lemma entries_files: "map_of (ct_files (fold apply_entry es c)) = fold file_upd es (map_of (ct_files c))"
  by (induction es arbitrary: c) (simp_all add: entry_files)

lemma entry_wf: "ct_wf c \<Longrightarrow> ct_wf (apply_entry p c)"
proof -
  have u: "list_all (\<lambda>(_, e). \<not> is_deleted e) (AList.update n x fs)" if "list_all (\<lambda>(_, e). \<not> is_deleted e) fs" "\<not> is_deleted x" for n x and fs :: "(os_string \<times> 'a entry) list"
    using that by (induction fs) auto
  have d: "list_all (\<lambda>(_, e). \<not> is_deleted e) (AList.delete n fs)" if "list_all (\<lambda>(_, e). \<not> is_deleted e) fs" for n and fs :: "(os_string \<times> 'a entry) list"
    using that by (auto simp: list_all_iff AList.delete_eq)
  assume "ct_wf c"
  then show ?thesis
    by (cases "snd p") (auto simp: ct_wf_def apply_entry_def distinct_update distinct_delete intro!: u d)
qed

lemma entries_wf: "ct_wf c \<Longrightarrow> ct_wf (fold apply_entry es c)"
  by (induction es arbitrary: c) (simp_all add: entry_wf)

lemma ct_wf_blind [simp]:
  "ct_wf (c\<lparr>ct_prev_hmac := h\<rparr>) = ct_wf c" "ct_wf (c\<lparr>ct_version := v\<rparr>) = ct_wf c" "ct_wf (c\<lparr>ct_cipher_version := cv\<rparr>) = ct_wf c"
  "ct_wf (c\<lparr>ct_physical_entries := n\<rparr>) = ct_wf c" "ct_wf (c\<lparr>ct_session_key := k\<rparr>) = ct_wf c" "ct_wf (c\<lparr>ct_length := l\<rparr>) = ct_wf c"
  "ct_wf (c\<lparr>ct_iv := i\<rparr>) = ct_wf c" "ct_wf (c\<lparr>ct_list_up_to_date := b\<rparr>) = ct_wf c"
  by (simp_all add: ct_wf_def)

text \<open>Writing all entries of a table, in any order, and reading them gives the table.\<close>

lemma file_upd_live: "distinct (map fst es) \<Longrightarrow> list_all (\<lambda>(_, e). \<not> is_deleted e) es \<Longrightarrow> fold file_upd es m = m ++ map_of es"
proof (induction es arbitrary: m)
  case (Cons p es)
  obtain n e where p: "p = (n, e)" by force
  with Cons.prems(2) have u: "file_upd p m = m(n \<mapsto> e)" by (cases e) (auto simp: file_upd_def)
  have "map_of es n = None" using Cons.prems(1) p by (simp add: map_of_eq_None_iff)
  then have "m(n \<mapsto> e) ++ map_of es = m ++ map_of ((n, e) # es)" by (auto simp: map_add_def split: option.split)
  moreover have "fold file_upd (p # es) m = m(n \<mapsto> e) ++ map_of es" using Cons u by simp
  ultimately show ?case by (simp only: p)
qed simp

lemma order_files:
  assumes "dir_env_ok env E" "ct_wf c"
  shows "fold file_upd (dv_order env (ct_files c)) Map.empty = map_of (ct_files c)"
proof -
  have m: "mset (dv_order env (ct_files c)) = mset (ct_files c)" using assms(1) by (simp add: dir_env_ok_def)
  then have d: "distinct (map fst (dv_order env (ct_files c)))" using assms(2) by (metis ct_wf_def mset_eq_imp_distinct_iff mset_map)
  have st: "set (dv_order env (ct_files c)) = set (ct_files c)" using m by (metis set_mset_mset)
  then have "list_all (\<lambda>(_, e). \<not> is_deleted e) (dv_order env (ct_files c))" using assms(2) by (simp add: ct_wf_def list_all_iff)
  with file_upd_live [OF d] have "fold file_upd (dv_order env (ct_files c)) Map.empty = map_of (dv_order env (ct_files c))" by simp
  moreover have "map_of (dv_order env (ct_files c)) = map_of (ct_files c)"
    using map_of_inject_set [OF d] st assms(2) by (simp add: ct_wf_def)
  ultimately show ?thesis by simp
qed

subsection \<open>Parsing what is stored\<close>

lemma dir_env_okD:
  assumes "dir_env_ok env E"
  shows "cbc_ok (dv_ci env) E" "sha3_ok (dv_cr env)" "dv_de_header env (dv_ser_header env h) = Inr h"
    "dv_de_pairs env (dv_ser_pairs env es) = Inr es" "length (dv_rand env n) = 32" "is_ok (chain_key (dv_key env) GROUP_EVERYONE)"
  using assms by (simp_all add: dir_env_ok_def)

lemma cipher_length:
  assumes "cbc_ok ci E" "length ki = 32" "BLKSZ dvd length x"
  shows "length (dir_cipher E k ki x) = 32 + length x"
  using cbcD(3) [OF assms(1)] assms(2,3) BLKSZ_32 by (simp add: dir_cipher_def)

lemma encrypt_everyone: "dir_env_ok env E \<Longrightarrow> \<exists>cv. encrypt_dir_ver (dv_ci env) i v (dv_key env) = Some cv \<and> length cv = 32 \<and>
    decrypt_dir_ver (dv_ci env) i cv (dv_key env) = Some v"
proof -
  assume ok: "dir_env_ok env E"
  then obtain key where key: "chain_key (dv_key env) GROUP_EVERYONE = Inr key"
    by (auto simp: dir_env_ok_def is_ok_def split: sum.split_asm)
  note c = dir_env_okD(1) [OF ok]
  show ?thesis
    using encrypt_ver [OF c key, of i v] decrypt_ver [OF c key, of i v]
      cbcD(3) [OF c, of "le_bytes v @ replicate 24 (CHR 0x00)" "dir_key key" "dir_ver_iv i"] BLKSZ_32 by simp
qed

lemma dir_reprI:
  assumes "read_key env d = Inr k" "write_key env d = Inr wk" "length ki = 32"
    "encrypt_dir_ver (dv_ci env) (di_id d) (ct_version c) (dv_key env) = Some (ct_cipher_version c)"
    "v = ct_cipher_version c" "sv = secret_dir_ver (dv_cr env) (ct_cipher_version c) wk"
    "data = dir_cipher E k ki (log_bytes (dv_cr env) k UNKNOWN_HASH (dir_log env d (ct_version c) ess))"
    "ct_length c = of_nat (length data)" "dir_append_iv data = Some (ct_iv c)" "ct_session_key c = fst (split_key_and_iv ki)"
    "ct_prev_hmac c = log_mac (dv_cr env) k UNKNOWN_HASH (dir_log env d (ct_version c) ess)"
    "map_of (ct_files c) = fold file_upd (concat ess) Map.empty" "ct_wf c" "ct_synth c = None"
  shows "dir_repr env E d c (v, sv, data)"
  unfolding dir_repr_def using assms by auto

lemma dir_reprE:
  assumes "dir_repr env E d c (v, sv, data)"
  obtains k wk ki ess where "read_key env d = Inr k" "write_key env d = Inr wk" "length ki = 32"
    "encrypt_dir_ver (dv_ci env) (di_id d) (ct_version c) (dv_key env) = Some (ct_cipher_version c)"
    "v = ct_cipher_version c" "sv = secret_dir_ver (dv_cr env) (ct_cipher_version c) wk"
    "data = dir_cipher E k ki (log_bytes (dv_cr env) k UNKNOWN_HASH (dir_log env d (ct_version c) ess))"
    "ct_length c = of_nat (length data)" "dir_append_iv data = Some (ct_iv c)" "ct_session_key c = fst (split_key_and_iv ki)"
    "ct_prev_hmac c = log_mac (dv_cr env) k UNKNOWN_HASH (dir_log env d (ct_version c) ess)"
    "map_of (ct_files c) = fold file_upd (concat ess) Map.empty" "ct_wf c" "ct_synth c = None"
  using assms unfolding dir_repr_def by auto

lemma parse_repr:
  assumes "dir_env_ok env E" "dir_repr env E d c (v, sv, data)" "length data < 2 ^ 32"
  shows "\<exists>c1. parse_dir env d v data (ct_version c) w l = Some (w, l, Inr c1) \<and> dir_repr env E d c1 (v, sv, data) \<and>
    map_of (ct_files c1) = map_of (ct_files c) \<and> ct_version c1 = ct_version c \<and> ct_is_valid c1"
proof -
  note ok = dir_env_okD [OF assms(1)]
  from assms(2) obtain k wk ki ess where r: "read_key env d = Inr k" "write_key env d = Inr wk" "length ki = 32"
    "encrypt_dir_ver (dv_ci env) (di_id d) (ct_version c) (dv_key env) = Some (ct_cipher_version c)"
    and v: "v = ct_cipher_version c" "sv = secret_dir_ver (dv_cr env) (ct_cipher_version c) wk"
    and data: "data = dir_cipher E k ki (log_bytes (dv_cr env) k UNKNOWN_HASH (dir_log env d (ct_version c) ess))"
    and iv: "dir_append_iv data = Some (ct_iv c)" and files: "map_of (ct_files c) = fold file_upd (concat ess) Map.empty"
    by (rule dir_reprE) blast
  let ?log = "log_bytes (dv_cr env) k UNKNOWN_HASH (dir_log env d (ct_version c) ess)"
  let ?h = "chunk_mac (dv_cr env) k UNKNOWN_HASH (dv_ser_header env (header_of d (ct_version c)))"
  have dv: "BLKSZ dvd length ?log" by (rule log_dvd [OF ok(2)])
  have len: "length data = 32 + length ?log" unfolding data by (rule cipher_length [OF ok(1) r(3) dv])
  have small: "4 + length b < 2 ^ 32" if "b \<in> set (dir_log env d (ct_version c) ess)" for b
    using log_len [OF that, of "dv_cr env" k UNKNOWN_HASH] len assms(3) by linarith
  have dec: "decrypt_whole_dir (dv_ci env) [] data k = Some (?log, Inr (fst (split_key_and_iv ki)))"
    unfolding data by (rule decrypt_whole [OF ok(1) r(3) dv])
  have hd: "read_v0_chunk env d (dv_de_header env) ?log UNKNOWN_HASH =
      Some (Inr (Some (log_bytes (dv_cr env) k ?h (map (dv_ser_pairs env) ess), ?h, header_of d (ct_version c))))"
    using read_chunk_log [OF r(1) ok(2) small, of "dv_ser_header env (header_of d (ct_version c))" "dv_de_header env"] ok(3)
    by (simp add: dir_log_def del: log_bytes.simps)
  have chk: "check_header d (ct_version c) (header_of d (ct_version c)) = Inr ()" by (simp add: check_header_def header_of_def)
  let ?c0 = "\<lparr>ct_version = ct_version c, ct_cipher_version = v, ct_length = of_nat (length data), ct_files = [],
     ct_list_up_to_date = False, ct_prev_hmac = ?h, ct_physical_entries = 0, ct_session_key = fst (split_key_and_iv ki),
     ct_iv = ct_iv c, ct_synth = None\<rparr>"
  let ?c1 = "(fold apply_entry (concat ess) ?c0)\<lparr>ct_prev_hmac := log_mac (dv_cr env) k ?h (map (dv_ser_pairs env) ess)\<rparr>"
  have rd: "read_chunks env d (Suc (length (log_bytes (dv_cr env) k ?h (map (dv_ser_pairs env) ess))))
      (log_bytes (dv_cr env) k ?h (map (dv_ser_pairs env) ess)) ?c0 = Some (Inr ?c1)"
    using read_chunks_log [OF r(1) ok(2), of ess _ ?c0] ok(4) small log_fuel [of "map (dv_ser_pairs env) ess" "dv_cr env" k ?h]
    by (simp add: dir_log_def del: read_chunks.simps)
  have pd: "parse_dir env d v data (ct_version c) w l = Some (w, l, Inr ?c1)"
    unfolding parse_dir_def by (simp add: cm_bind_def cm_res_def cm_some_def r(1) dec hd chk iv rd del: read_chunks.simps)
  have f: "map_of (ct_files ?c1) = fold file_upd (concat ess) Map.empty" by (simp add: entries_files)
  have "ct_wf ?c0" by (simp add: ct_wf_def)
  then have wf: "ct_wf ?c1" using entries_wf [of ?c0] by simp
  have rp: "dir_repr env E d ?c1 (v, sv, data)"
    by (rule dir_reprI [OF r(1-3), where ess = ess])
      (use r(4) v iv f data wf in \<open>simp_all add: entries_frame log_mac_def dir_log_def\<close>)
  have vd: "ct_is_valid ?c1"
  proof -
    have "unat (of_nat (length data) :: 32 word) = length data" using assms(3) by (simp add: unat_of_nat)
    then have "(of_nat (length data) :: 32 word) \<noteq> 0" using len by (metis add_gr_0 less_not_refl unat_0 zero_less_numeral)
    then show ?thesis by (simp add: ct_is_valid_def entries_frame word_gt_0)
  qed
  have ve: "ct_version ?c1 = ct_version c" by (simp add: entries_frame)
  from files have "map_of (ct_files ?c1) = map_of (ct_files c)" by (simp only: f)
  with pd rp vd ve show ?thesis by (intro exI [of _ ?c1] conjI)
qed

end
