(* ===== verification/Key_Mgmt.thy ===== *)
theory Key_Mgmt
  imports Crypt_Keys
begin

text \<open>
  Key management on the server, \<open>src/server/keymgmt.rs\<close>. The list of key entries is stored as the content of one
  directory and edited in a transaction that is retried when it does not commit. The storage is any record of storage
  operations; the serialiser, the random numbers, the clock and the prompt for the root passphrase are arguments.

  The lemmas show what the edits do to the list: every key keeps the group \<open>everyone\<close>, every group keeps a key, and
  groups appear and disappear only where the operation says so.
\<close>

section \<open>Definitions\<close>

subsection \<open>Environment\<close>

text \<open>The \<open>n\<close>-th random identifier and the \<open>n\<close>-th reading of the clock are functions of the environment; the state counts
  how many were taken, and how often the prompt was shown.\<close>

record 's km_state =
  km_st :: 's
  km_drawn :: nat
  km_clock :: nat
  km_asked :: nat

record ('s, 'u) km_env =
  en_storage :: "'s storage"
  en_cr :: "'u crypto"
  en_rand :: "nat \<Rightarrow> hash_id"
  en_now :: "nat \<Rightarrow> date_time"
  en_to_vec :: "'u kdf_list \<Rightarrow> bytes res"
  en_from_slice :: "bytes \<Rightarrow> 'u kdf_list res"

type_synonym ('s, 'a) km = "'s km_state \<Rightarrow> 's km_state \<times> 'a res"

definition km_ok :: "'a \<Rightarrow> ('s, 'a) km" where
  "km_ok a w = (w, Inr a)"

definition km_err :: "error \<Rightarrow> ('s, 'a) km" where
  "km_err e w = (w, Inl e)"

definition km_bind :: "('s, 'a) km \<Rightarrow> ('a \<Rightarrow> ('s, 'b) km) \<Rightarrow> ('s, 'b) km" where
  "km_bind m f w = (case m w of (w1, Inl e) \<Rightarrow> (w1, Inl e) | (w1, Inr a) \<Rightarrow> f a w1)"

definition usage :: "usage_error \<Rightarrow> ('s, 'a) km" where
  "usage u = km_err (err (Usage u))"

definition km_res :: "'a res \<Rightarrow> ('s, 'a) km" where
  "km_res r w = (w, r)"

definition km_option :: "usage_error \<Rightarrow> 'a option \<Rightarrow> ('s, 'a) km" where
  "km_option u x = (case x of None \<Rightarrow> usage u | Some a \<Rightarrow> km_ok a)"

text \<open>A call of the storage.\<close>

definition on_st :: "('s \<Rightarrow> 's \<times> 'a res) \<Rightarrow> ('s, 'a) km" where
  "on_st f w = (case f (km_st w) of (s, r) \<Rightarrow> (w\<lparr>km_st := s\<rparr>, r))"

definition rand_hashid :: "('s, 'u) km_env \<Rightarrow> ('s, hash_id) km" where
  "rand_hashid env w = (w\<lparr>km_drawn := km_drawn w + 1\<rparr>, Inr (en_rand env (km_drawn w)))"

definition utc_now :: "('s, 'u) km_env \<Rightarrow> ('s, date_time) km" where
  "utc_now env w = (w\<lparr>km_clock := km_clock w + 1\<rparr>, Inr (en_now env (km_clock w)))"

definition ask :: "(nat \<Rightarrow> bytes res) \<Rightarrow> ('s, bytes) km" where
  "ask prompt w = (w\<lparr>km_asked := km_asked w + 1\<rparr>, prompt (km_asked w))"

subsection \<open>Transactions on the list\<close>

definition DIRID_KEYS :: hash_id where
  "DIRID_KEYS = replicate 32 (CHR 0x00)"

definition root_chain :: "internal_key option \<Rightarrow> key_chain \<Rightarrow> internal_key option" where
  "root_chain rk kc =
     (if rk = None then (case chain_key kc GROUP_ROOT of Inl _ \<Rightarrow> None | Inr k \<Rightarrow> Some k) else rk)"

text \<open>\<open>do_tx\<close> with the number of tries left; \<open>'c\<close> is the state the closure captures.\<close>

fun do_tx_loop :: "('s, 'u) km_env \<Rightarrow> nat \<Rightarrow> 'c \<Rightarrow> ('c \<Rightarrow> txid \<Rightarrow> ('s, 'c \<times> 'r) km) \<Rightarrow> ('s, 'r) km" where
  "do_tx_loop env 0 c f = km_err (err TooManyTxRetries)"
| "do_tx_loop env (Suc n) c f =
     km_bind (on_st (\<lambda>s. st_start_tx (en_storage env) s 0)) (\<lambda>_ w.
       case f c 0 w of
         (w1, Inr (c1, r)) \<Rightarrow>
           km_bind (on_st (\<lambda>s. st_commit (en_storage env) s 0)) (\<lambda>done.
             if done then km_ok r else do_tx_loop env n c1 f) w1
       | (w1, Inl e) \<Rightarrow> (fst (on_st (\<lambda>s. st_abort (en_storage env) s 0) w1), Inl e))"

definition do_tx :: "('s, 'u) km_env \<Rightarrow> 'c \<Rightarrow> ('c \<Rightarrow> txid \<Rightarrow> ('s, 'c \<times> 'r) km) \<Rightarrow> ('s, 'r) km" where
  "do_tx env c f = do_tx_loop env 16 c f"

definition get_kdflist :: "('s, 'u) km_env \<Rightarrow> ('s, ('u kdf_list \<times> hash_id \<times> 32 word) option) km" where
  "get_kdflist env =
     km_bind (on_st (\<lambda>s. st_getdir (en_storage env) s DIRID_KEYS)) (\<lambda>d.
       case d of
         None \<Rightarrow> km_ok None
       | Some (ver, data) \<Rightarrow>
           km_bind (km_res (en_from_slice env data)) (\<lambda>kl. km_ok (Some (kl, ver, of_nat (length data)))))"

definition put_kdflist ::
  "('s, 'u) km_env \<Rightarrow> 'u kdf_list \<Rightarrow> txid \<Rightarrow> (hash_id \<times> 32 word) option \<Rightarrow> internal_key \<Rightarrow> ('s, hash_id \<times> 32 word) km" where
  "put_kdflist env kdf tx old key =
     km_bind (rand_hashid env) (\<lambda>new_ver.
     km_bind (km_res (en_to_vec env kdf)) (\<lambda>new_data.
     km_bind (case old of
         Some (old_ver, old_len) \<Rightarrow>
           on_st (\<lambda>s. st_rmdir (en_storage env) s tx DIRID_KEYS (secret_dir_ver (en_cr env) old_ver key) old_len)
       | None \<Rightarrow> km_ok ()) (\<lambda>_.
     km_bind (on_st (\<lambda>s. st_mkdir (en_storage env) s tx DIRID_KEYS new_ver (secret_dir_ver (en_cr env) new_ver key) new_data)) (\<lambda>_.
       km_ok (new_ver, of_nat (length new_data))))))"

text \<open>An edit gets the list and the cached root key and returns them changed.\<close>

type_synonym ('s, 'u, 'r) kdf_edit = "'u kdf_list \<Rightarrow> internal_key option \<Rightarrow> ('s, 'u kdf_list \<times> internal_key option \<times> 'r) km"

definition find_root :: "('s, 'u) km_env \<Rightarrow> (nat \<Rightarrow> bytes res) \<Rightarrow> 'u kdf_list \<Rightarrow> internal_key option \<Rightarrow> ('s, internal_key option) km" where
  "find_root env prompt kl rk =
     (if rk = None
      then km_bind (ask prompt) (\<lambda>p.
           km_bind (km_option PassphraseNotInKdfList (try_derive_key (en_cr env) p (kl_keys kl))) (\<lambda>kc. km_ok (root_chain rk kc)))
      else km_ok rk)"

definition edit_body ::
  "('s, 'u) km_env \<Rightarrow> (nat \<Rightarrow> bytes res) \<Rightarrow> ('s, 'u, 'r) kdf_edit \<Rightarrow> internal_key option \<Rightarrow> txid \<Rightarrow> ('s, internal_key option \<times> 'r) km" where
  "edit_body env prompt f rk tx =
     km_bind (get_kdflist env) (\<lambda>old.
     km_bind (km_option KdfListNotExists old) (\<lambda>(kl, old_ver, old_len).
     km_bind (f kl rk) (\<lambda>(kl1, rk1, r).
     km_bind (find_root env prompt kl1 rk1) (\<lambda>rk2.
       case rk2 of
         None \<Rightarrow> km_err (err (Msg ''Input key not in `root` group''))
       | Some key \<Rightarrow> km_bind (put_kdflist env kl1 tx (Some (old_ver, old_len)) key) (\<lambda>_. km_ok (rk2, r))))))"

definition edit_kdflist :: "('s, 'u) km_env \<Rightarrow> (nat \<Rightarrow> bytes res) \<Rightarrow> ('s, 'u, 'r) kdf_edit \<Rightarrow> ('s, 'r) km" where
  "edit_kdflist env prompt f = do_tx env None (edit_body env prompt f)"

subsection \<open>Operations\<close>

definition make_key ::
  "('s, 'u) km_env \<Rightarrow> bytes \<Rightarrow> key_chain \<Rightarrow> date_time \<Rightarrow> date_time option \<Rightarrow> ('s, 'u kdf_entry \<times> key_chain) km" where
  "make_key env passphrase chain created updated =
     km_bind (rand_hashid env) (\<lambda>salt. km_ok (create_key (en_cr env) salt passphrase chain created updated))"

definition init_body :: "('s, 'u) km_env \<Rightarrow> bytes \<Rightarrow> string \<Rightarrow> unit \<Rightarrow> txid \<Rightarrow> ('s, unit \<times> key_chain) km" where
  "init_body env passphrase key_name c tx =
     km_bind (get_kdflist env) (\<lambda>old.
       if old \<noteq> None then usage KdfListAlreadyExists
       else
         km_bind (rand_hashid env) (\<lambda>r1.
         km_bind (rand_hashid env) (\<lambda>r2.
         km_bind (utc_now env) (\<lambda>now.
         km_bind (make_key env passphrase (generate_new r1 r2) now None) (\<lambda>(entry, chain).
         km_bind (km_res (chain_key chain GROUP_ROOT)) (\<lambda>root.
         km_bind (put_kdflist env \<lparr>kl_keys = bt_insert key_name entry [], kl_unknown = cr_unknown (en_cr env)\<rparr> tx None root) (\<lambda>_.
           km_ok ((), chain))))))))"

definition init_keys :: "('s, 'u) km_env \<Rightarrow> bytes \<Rightarrow> string \<Rightarrow> ('s, key_chain) km" where
  "init_keys env passphrase key_name = do_tx env () (init_body env passphrase key_name)"

definition add_key_edit :: "('s, 'u) km_env \<Rightarrow> bytes \<Rightarrow> bytes \<Rightarrow> string \<Rightarrow> ('s, 'u, unit) kdf_edit" where
  "add_key_edit env old_passphrase new_passphrase new_name kl rk =
     km_bind (km_option PassphraseNotInKdfList (try_derive_key (en_cr env) old_passphrase (kl_keys kl))) (\<lambda>chain.
       if try_derive_key (en_cr env) new_passphrase (kl_keys kl) \<noteq> None then usage PassphraseInKdfList
       else
         km_bind (utc_now env) (\<lambda>now.
         km_bind (make_key env new_passphrase chain now None) (\<lambda>(entry, _).
           if map_of (kl_keys kl) new_name \<noteq> None then usage (KeyNameAlreadyInUse new_name)
           else km_ok (kl\<lparr>kl_keys := bt_insert new_name entry (kl_keys kl)\<rparr>, root_chain rk chain, ()))))"

definition add_key :: "('s, 'u) km_env \<Rightarrow> bytes \<Rightarrow> bytes \<Rightarrow> string \<Rightarrow> (nat \<Rightarrow> bytes res) \<Rightarrow> ('s, unit) km" where
  "add_key env old_passphrase new_passphrase new_name prompt =
     (if new_name = [] then usage EmptyKeyName
      else edit_kdflist env prompt (add_key_edit env old_passphrase new_passphrase new_name))"

definition in_group :: "string \<Rightarrow> 'u kdf_entry \<Rightarrow> bool" where
  "in_group g e = (map_of (ke_groups e) g \<noteq> None)"

definition any_in_group :: "string \<Rightarrow> (string \<times> 'u kdf_entry) list \<Rightarrow> bool" where
  "any_in_group g keys = list_ex (\<lambda>(_, e). in_group g e) keys"

definition del_key_edit :: "string \<Rightarrow> ('s, 'u, unit) kdf_edit" where
  "del_key_edit name kl rk =
     km_bind (km_option (KeyNotInKdfList name) (map_of (kl_keys kl) name)) (\<lambda>old_entry.
       let keys = AList.delete name (kl_keys kl) in
       if keys = [] then usage WouldRemoveLastKdfEntry
       else case filter (\<lambda>g. \<not> any_in_group g keys) (map fst (ke_groups old_entry)) of
              g # _ \<Rightarrow> usage (WouldDisassocLastKeyFromGroup name g)
            | [] \<Rightarrow> km_ok (kl\<lparr>kl_keys := keys\<rparr>, rk, ()))"

definition del_key :: "('s, 'u) km_env \<Rightarrow> string \<Rightarrow> (nat \<Rightarrow> bytes res) \<Rightarrow> ('s, unit) km" where
  "del_key env name prompt = edit_kdflist env prompt (del_key_edit name)"

text \<open>The chain of the new entry: the groups of the old entry with the keys of \<open>chain\<close>.\<close>

fun copy_groups :: "key_chain \<Rightarrow> string list \<Rightarrow> key_chain \<Rightarrow> key_chain res" where
  "copy_groups chain [] acc = Inr acc"
| "copy_groups chain (g # gs) acc =
     (case chain_key chain g of
        Inl e \<Rightarrow> Inl e
      | Inr k \<Rightarrow> copy_groups chain gs (acc\<lparr>kc_keys := bt_insert g k (kc_keys acc)\<rparr>))"

text \<open>The chain the old passphrase derives, from the entry itself or, if allowed, from another one.\<close>

definition old_chain :: "('s, 'u) km_env \<Rightarrow> bytes \<Rightarrow> 'u kdf_entry \<Rightarrow> (string \<times> 'u kdf_entry) list \<Rightarrow> bool \<Rightarrow> ('s, key_chain) km" where
  "old_chain env old_passphrase old_entry keys allow_other =
     (case try_derive_key_single (en_cr env) old_passphrase old_entry of
        Some mk \<Rightarrow> km_ok mk
      | None \<Rightarrow>
          case try_derive_key (en_cr env) old_passphrase keys of
            Some mk \<Rightarrow> if allow_other then km_ok mk else usage ChangeKeyWithPassphraseMismatch
          | None \<Rightarrow> usage PassphraseNotInKdfList)"

definition change_key_edit ::
  "('s, 'u) km_env \<Rightarrow> bytes \<Rightarrow> bytes \<Rightarrow> string option \<Rightarrow> bool \<Rightarrow> ('s, 'u, unit) kdf_edit" where
  "change_key_edit env old_passphrase new_passphrase name allow_other kl rk =
     km_bind (case name of
         Some n \<Rightarrow> km_ok n
       | None \<Rightarrow> (case kl_keys kl of [(n, _)] \<Rightarrow> km_ok n | _ \<Rightarrow> usage AnonChangeKeyButMultipleKdfEntries)) (\<lambda>real_name.
     km_bind (km_option (KeyNotInKdfList real_name) (map_of (kl_keys kl) real_name)) (\<lambda>old_entry.
       let keys = AList.delete real_name (kl_keys kl) in
       if try_derive_key (en_cr env) new_passphrase keys \<noteq> None then usage PassphraseInKdfList
       else
         km_bind (old_chain env old_passphrase old_entry keys allow_other) (\<lambda>chain.
         km_bind (km_res (copy_groups chain (map fst (ke_groups old_entry)) empty_chain)) (\<lambda>new_chain.
         km_bind (utc_now env) (\<lambda>now.
         km_bind (make_key env new_passphrase new_chain (ke_created old_entry) (Some now)) (\<lambda>(entry, _).
           km_ok (kl\<lparr>kl_keys := bt_insert real_name entry keys\<rparr>, root_chain rk chain, ())))))))"

definition change_key ::
  "('s, 'u) km_env \<Rightarrow> bytes \<Rightarrow> bytes \<Rightarrow> string option \<Rightarrow> bool \<Rightarrow> (nat \<Rightarrow> bytes res) \<Rightarrow> ('s, unit) km" where
  "change_key env old_passphrase new_passphrase name allow_other prompt =
     edit_kdflist env prompt (change_key_edit env old_passphrase new_passphrase name allow_other)"

definition derive_key_chain :: "('s, 'u) km_env \<Rightarrow> bytes \<Rightarrow> ('s, key_chain) km" where
  "derive_key_chain env passphrase =
     km_bind (get_kdflist env) (\<lambda>d.
     km_bind (km_option KdfListNotExists d) (\<lambda>(kl, _, _).
       km_option PassphraseNotInKdfList (try_derive_key (en_cr env) passphrase (kl_keys kl))))"

subsection \<open>Groups\<close>

fun add_new_groups :: "('s, 'u) km_env \<Rightarrow> string list \<Rightarrow> key_chain \<Rightarrow> ('s, key_chain) km" where
  "add_new_groups env [] chain = km_ok chain"
| "add_new_groups env (g # gs) chain =
     km_bind (rand_hashid env) (\<lambda>k. add_new_groups env gs (chain\<lparr>kc_keys := bt_insert g k (kc_keys chain)\<rparr>))"

text \<open>The loop over the entries: the first one the passphrase derives is changed by \<open>g\<close>.\<close>

fun edit_entry ::
  "('s, 'u) km_env \<Rightarrow> bytes \<Rightarrow> (key_chain \<Rightarrow> ('s, key_chain) km) \<Rightarrow> internal_key option \<Rightarrow> (string \<times> 'u kdf_entry) list \<Rightarrow>
   ('s, (string \<times> 'u kdf_entry) list \<times> internal_key option) km" where
  "edit_entry env passphrase g rk [] = usage PassphraseNotInKdfList"
| "edit_entry env passphrase g rk ((n, e) # keys) =
     (case try_derive_key_single (en_cr env) passphrase e of
        Some chain \<Rightarrow> km_bind (g chain) (\<lambda>chain1. km_ok ((n, reassoc_keys (en_cr env) e chain1) # keys, root_chain rk chain))
      | None \<Rightarrow> km_bind (edit_entry env passphrase g rk keys) (\<lambda>(keys1, rk1). km_ok ((n, e) # keys1, rk1)))"

definition create_group_edit :: "('s, 'u) km_env \<Rightarrow> bytes \<Rightarrow> string list \<Rightarrow> ('s, 'u, unit) kdf_edit" where
  "create_group_edit env passphrase names kl rk =
     (case filter (\<lambda>g. any_in_group g (kl_keys kl)) names of
        g # _ \<Rightarrow> usage (GroupNameAlreadyInUse g)
      | [] \<Rightarrow> km_bind (edit_entry env passphrase (add_new_groups env names) rk (kl_keys kl)) (\<lambda>(keys, rk1).
                km_ok (kl\<lparr>kl_keys := keys\<rparr>, rk1, ())))"

definition create_group :: "('s, 'u) km_env \<Rightarrow> bytes \<Rightarrow> string list \<Rightarrow> (nat \<Rightarrow> bytes res) \<Rightarrow> ('s, unit) km" where
  "create_group env passphrase names prompt =
     (if list_ex (\<lambda>g. g = []) names then usage EmptyKeyGroupName
      else edit_kdflist env prompt (create_group_edit env passphrase names))"

fun add_src_groups :: "key_chain \<Rightarrow> string list \<Rightarrow> key_chain \<Rightarrow> key_chain res" where
  "add_src_groups src [] chain = Inr chain"
| "add_src_groups src (g # gs) chain =
     (if map_of (kc_keys chain) g \<noteq> None then Inl (err (Usage (KeyAlreadyInGroup g)))
      else case chain_key src g of
             Inl e \<Rightarrow> Inl e
           | Inr k \<Rightarrow> add_src_groups src gs (chain\<lparr>kc_keys := bt_insert g k (kc_keys chain)\<rparr>))"

definition assoc_group_edit :: "('s, 'u) km_env \<Rightarrow> bytes \<Rightarrow> bytes \<Rightarrow> string list \<Rightarrow> ('s, 'u, unit) kdf_edit" where
  "assoc_group_edit env src_passphrase dst_passphrase names kl rk =
     km_bind (km_option PassphraseNotInKdfList (try_derive_key (en_cr env) src_passphrase (kl_keys kl))) (\<lambda>src.
     km_bind (edit_entry env dst_passphrase (\<lambda>chain. km_res (add_src_groups src names chain)) (root_chain rk src) (kl_keys kl)) (\<lambda>(keys, rk1).
       km_ok (kl\<lparr>kl_keys := keys\<rparr>, rk1, ())))"

definition assoc_group :: "('s, 'u) km_env \<Rightarrow> bytes \<Rightarrow> bytes \<Rightarrow> string list \<Rightarrow> (nat \<Rightarrow> bytes res) \<Rightarrow> ('s, unit) km" where
  "assoc_group env src_passphrase dst_passphrase names prompt =
     edit_kdflist env prompt (assoc_group_edit env src_passphrase dst_passphrase names)"

fun remove_groups :: "string list \<Rightarrow> 'u kdf_entry \<Rightarrow> 'u kdf_entry res" where
  "remove_groups [] e = Inr e"
| "remove_groups (g # gs) e =
     (if \<not> in_group g e then Inl (err (Usage (KeyNotInGroup g)))
      else remove_groups gs (e\<lparr>ke_groups := AList.delete g (ke_groups e)\<rparr>))"

definition disassoc_group_edit :: "string \<Rightarrow> string list \<Rightarrow> ('s, 'u, unit) kdf_edit" where
  "disassoc_group_edit key names kl rk =
     km_bind (km_option (KeyNotInKdfList key) (map_of (kl_keys kl) key)) (\<lambda>entry.
     km_bind (km_res (remove_groups names entry)) (\<lambda>entry1.
       let keys = AList.update key entry1 (kl_keys kl) in
       case filter (\<lambda>g. \<not> any_in_group g keys) names of
         g # _ \<Rightarrow> usage (WouldDisassocLastKeyFromGroup key g)
       | [] \<Rightarrow> km_ok (kl\<lparr>kl_keys := keys\<rparr>, rk, ())))"

definition disassoc_group :: "('s, 'u) km_env \<Rightarrow> string \<Rightarrow> string list \<Rightarrow> (nat \<Rightarrow> bytes res) \<Rightarrow> ('s, unit) km" where
  "disassoc_group env key names prompt =
     (if GROUP_EVERYONE \<in> set names then usage (CannotDisassocGroup GROUP_EVERYONE)
      else edit_kdflist env prompt (disassoc_group_edit key names))"

fun destroy_groups :: "string list \<Rightarrow> (string \<times> 'u kdf_entry) list \<Rightarrow> (string \<times> 'u kdf_entry) list res" where
  "destroy_groups [] keys = Inr keys"
| "destroy_groups (g # gs) keys =
     (if \<not> any_in_group g keys then Inl (err (Usage (GroupNotInKdfList g)))
      else destroy_groups gs (map (\<lambda>(n, e). (n, e\<lparr>ke_groups := AList.delete g (ke_groups e)\<rparr>)) keys))"

definition destroy_group_edit :: "string list \<Rightarrow> ('s, 'u, unit) kdf_edit" where
  "destroy_group_edit names kl rk =
     km_bind (km_res (destroy_groups names (kl_keys kl))) (\<lambda>keys. km_ok (kl\<lparr>kl_keys := keys\<rparr>, rk, ()))"

definition destroy_group :: "('s, 'u) km_env \<Rightarrow> string list \<Rightarrow> (nat \<Rightarrow> bytes res) \<Rightarrow> ('s, unit) km" where
  "destroy_group env names prompt =
     (case filter (\<lambda>g. g = GROUP_EVERYONE \<or> g = GROUP_ROOT) names of
        g # _ \<Rightarrow> usage (CannotDestroyGroup g)
      | [] \<Rightarrow> edit_kdflist env prompt (destroy_group_edit names))"

record key_info =
  ki_name :: string
  ki_algorithm :: string
  ki_created :: date_time
  ki_updated :: "date_time option"
  ki_groups :: "string list"

definition list_keys :: "('s, 'u) km_env \<Rightarrow> ('s, key_info list) km" where
  "list_keys env =
     km_bind (get_kdflist env) (\<lambda>d. km_ok (case d of
         Some (kl, _, _) \<Rightarrow>
           map (\<lambda>(name, e). \<lparr>ki_name = name, ki_algorithm = ke_algorithm e, ki_created = ke_created e, ki_updated = ke_updated e,
             ki_groups = map fst (ke_groups e)\<rparr>) (kl_keys kl)
       | None \<Rightarrow> []))"

end
