(* ===== verification/Key_Groups.thy ===== *)
theory Key_Groups
  imports Key_Mgmt
begin

text \<open>
  What the edits of the key list preserve: every entry is in \<open>everyone\<close>, some entry is in \<open>root\<close>, and no group loses its
  last key. The contract of an edit is the locale \<open>key_edit\<close>, with every edit of \<open>keymgmt.rs\<close> as an interpretation.
\<close>

section \<open>Definitions\<close>

definition kdf_inv :: "'u kdf_list \<Rightarrow> bool" where
  "kdf_inv kl =
     (bt_sorted (kl_keys kl) \<and> (\<forall>(_, e)\<in>set (kl_keys kl). entry_ok e \<and> in_group GROUP_EVERYONE e) \<and>
      any_in_group GROUP_ROOT (kl_keys kl))"

definition all_groups :: "'u kdf_list \<Rightarrow> string set" where
  "all_groups kl = {g. any_in_group g (kl_keys kl)}"

definition env_ok :: "('s, 'u) km_env \<Rightarrow> bool" where
  "env_ok env = (sha3_ok (en_cr env) \<and> (\<forall>n. length (en_rand env n) = 32))"

section \<open>Lemmas\<close>

named_theorems km_simps

lemma km_bind_Inr [km_simps]: "km_bind m f w = (w2, Inr b) \<longleftrightarrow> (\<exists>w1 a. m w = (w1, Inr a) \<and> f a w1 = (w2, Inr b))"
  by (auto simp: km_bind_def split: prod.split sum.split)

lemma km_units [km_simps]:
  "km_ok a w = (w1, r) \<longleftrightarrow> w1 = w \<and> r = Inr a" "km_err e w = (w1, r) \<longleftrightarrow> w1 = w \<and> r = Inl e" "km_res x w = (w1, r) \<longleftrightarrow> w1 = w \<and> x = r"
  "usage u w = (w1, r) \<longleftrightarrow> w1 = w \<and> r = Inl (err (Usage u))"
  by (auto simp: km_ok_def km_err_def km_res_def usage_def)

lemma km_option_Inr [km_simps]: "km_option u x w = (w1, Inr a) \<longleftrightarrow> x = Some a \<and> w1 = w"
  by (auto simp: km_option_def km_simps split: option.split)

lemma km_none [km_simps]:
  "(case xs of [] \<Rightarrow> m | g # gs \<Rightarrow> usage (u g)) w = (w1, Inr r) \<longleftrightarrow> xs = [] \<and> m w = (w1, Inr r)"
  by (auto simp: km_simps split: list.split)

lemma km_draws [km_simps]:
  "rand_hashid env w = (w1, Inr x) \<longleftrightarrow> w1 = w\<lparr>km_drawn := km_drawn w + 1\<rparr> \<and> x = en_rand env (km_drawn w)"
  "utc_now env w = (w1, Inr t) \<longleftrightarrow> w1 = w\<lparr>km_clock := km_clock w + 1\<rparr> \<and> t = en_now env (km_clock w)"
  by (auto simp: rand_hashid_def utc_now_def)

subsection \<open>Entries\<close>

lemma in_group_keys: "in_group g e \<longleftrightarrow> g \<in> fst ` set (ke_groups e)"
  by (simp add: in_group_def map_of_eq_None_iff)

lemma any_in_group_iff: "any_in_group g keys \<longleftrightarrow> (\<exists>(n, e)\<in>set keys. in_group g e)"
  by (auto simp: any_in_group_def list_ex_iff)

lemma entry_ok_delete [simp]: "entry_ok e \<Longrightarrow> entry_ok (e\<lparr>ke_groups := AList.delete g (ke_groups e)\<rparr>)"
  by (auto simp: entry_ok_def AList.delete_eq dest: bt_delete_sorted [of _ g, unfolded AList.delete_eq])

lemma in_group_delete [simp]: "in_group g (e\<lparr>ke_groups := AList.delete h (ke_groups e)\<rparr>) \<longleftrightarrow> g \<noteq> h \<and> in_group g e"
  by (simp add: in_group_def)

lemma derived_chain:
  assumes "entry_ok e" "try_derive_key_single cr p e = Some c"
  shows "chain_ok c" "map_of (kc_keys c) g \<noteq> None \<longleftrightarrow> in_group g e"
proof -
  note d = derive_groups [OF assms]
  show "chain_ok c" using assms(1) unfolding chain_ok_def entry_ok_def d(1) by auto
  show "map_of (kc_keys c) g \<noteq> None \<longleftrightarrow> in_group g e" unfolding d(1) in_group_def by (auto simp: map_of_eq_None_iff image_iff case_prod_beta)
qed

lemma reassoc_entry:
  assumes "chain_ok c"
  shows "entry_ok (reassoc_keys cr e c)" "in_group g (reassoc_keys cr e c) \<longleftrightarrow> map_of (kc_keys c) g \<noteq> None"
proof -
  show "entry_ok (reassoc_keys cr e c)" using chain_okD(1) [OF assms] unfolding entry_ok_def reassoc_groups [OF assms] by auto
  show "in_group g (reassoc_keys cr e c) \<longleftrightarrow> map_of (kc_keys c) g \<noteq> None"
    unfolding in_group_def reassoc_groups [OF assms] by (auto simp: map_of_eq_None_iff image_iff case_prod_beta)
qed

lemma created_entry:
  assumes "chain_ok c" "create_key cr salt p c t u = (e, c1)"
  shows "entry_ok e" "in_group g e \<longleftrightarrow> map_of (kc_keys c) g \<noteq> None"
proof -
  let ?c = "c\<lparr>kc_derived := scrypt_18_14_12_8_1 cr p salt\<rparr>"
  have ok: "chain_ok ?c" using assms(1) by (simp add: chain_ok_def)
  show "entry_ok e" "in_group g e \<longleftrightarrow> map_of (kc_keys c) g \<noteq> None"
    using assms(2) by (auto simp: create_key_def Let_def reassoc_entry [OF ok])
qed

lemma try_derive_key_Some:
  assumes "try_derive_key cr p keys = Some c"
  obtains n e where "(n, e) \<in> set keys" "try_derive_key_single cr p e = Some c"
  using assms by (induction cr p keys rule: try_derive_key.induct) (auto split: option.split_asm)

lemma kdf_inv_chain:
  assumes "kdf_inv kl" "try_derive_key cr p (kl_keys kl) = Some c"
  shows "chain_ok c" "map_of (kc_keys c) GROUP_EVERYONE \<noteq> None" "map_of (kc_keys c) g \<noteq> None \<Longrightarrow> g \<in> all_groups kl"
proof -
  from assms(2) obtain n e where e: "(n, e) \<in> set (kl_keys kl)" "try_derive_key_single cr p e = Some c" by (rule try_derive_key_Some)
  with assms(1) have ok: "entry_ok e" "in_group GROUP_EVERYONE e" by (auto simp: kdf_inv_def)
  note d = derived_chain [OF ok(1) e(2)]
  show "chain_ok c" "map_of (kc_keys c) GROUP_EVERYONE \<noteq> None" "map_of (kc_keys c) g \<noteq> None \<Longrightarrow> g \<in> all_groups kl"
    using d(1) d(2) [of GROUP_EVERYONE] ok d(2) [of g] e(1) by (auto simp: all_groups_def any_in_group_iff)
qed

subsection \<open>Lists of entries\<close>

lemma any_in_group_insert:
  assumes "map_of keys n = None"
  shows "any_in_group g (bt_insert n e keys) \<longleftrightarrow> in_group g e \<or> any_in_group g keys"
  using assms by (induction n e keys rule: bt_insert.induct) (auto simp: any_in_group_def split: if_split_asm)

lemma any_in_group_delete: "any_in_group g (AList.delete n keys) \<Longrightarrow> any_in_group g keys"
  by (auto simp: any_in_group_iff AList.delete_eq)

lemma any_in_group_remove:
  assumes "distinct (map fst keys)" "map_of keys n = Some e"
  shows "any_in_group g keys \<longleftrightarrow> in_group g e \<or> any_in_group g (AList.delete n keys)"
proof -
  have "x \<in> set keys \<longleftrightarrow> x = (n, e) \<or> x \<in> set (AList.delete n keys)" for x
    using assms by (cases x; cases "fst x = n") (auto simp: AList.delete_eq dest: map_of_SomeD eq_key_imp_eq_value)
  then show ?thesis by (auto simp: any_in_group_iff)
qed

lemma delete_entries: "x \<in> set (AList.delete n keys) \<Longrightarrow> x \<in> set keys"
  by (simp add: AList.delete_eq)

lemma update_entry:
  assumes "distinct (map fst keys)" "map_of keys n = Some e"
  shows "map fst (AList.update n e1 keys) = map fst keys" "set (AList.update n e1 keys) = insert (n, e1) (set (AList.delete n keys))"
  using assms by (induction keys) (auto simp: AList.delete_eq rev_image_eqI)

subsection \<open>The contract of an edit\<close>

text \<open>An edit does not touch the storage and, when its guard \<open>pre\<close> holds, keeps the invariant and changes the groups as \<open>effect\<close> says.\<close>

locale key_edit =
  fixes f :: "('s, 'u, 'r) kdf_edit" and effect :: "string set \<Rightarrow> string set" and pre :: bool
  assumes edit_frame: "f kl rk w = (w1, x) \<Longrightarrow> km_st w1 = km_st w"
    and edit_law: "pre \<Longrightarrow> f kl rk w = (w1, Inr (kl1, rk1, r)) \<Longrightarrow> kdf_inv kl \<Longrightarrow> kdf_inv kl1 \<and> all_groups kl1 = effect (all_groups kl)"

text \<open>Steps that leave the storage alone.\<close>

definition quiet :: "('s, 'a) km \<Rightarrow> bool" where
  "quiet m = (\<forall>w. km_st (fst (m w)) = km_st w)"

lemma quiet_bind: "quiet m \<Longrightarrow> (\<And>a. quiet (f a)) \<Longrightarrow> quiet (km_bind m f)"
  unfolding quiet_def km_bind_def by (auto split: prod.split sum.split) (metis fst_conv)+

lemma quiet_units:
  "quiet (km_ok a)" "quiet (km_err e)" "quiet (usage u)" "quiet (km_res x)" "quiet (km_option u y)" "quiet (rand_hashid env)"
  "quiet (utc_now env)" "quiet (ask prompt)"
  by (auto simp: quiet_def km_ok_def km_err_def usage_def km_res_def km_option_def rand_hashid_def utc_now_def ask_def split: option.split)

lemma quiet_cases:
  "quiet m \<Longrightarrow> quiet n \<Longrightarrow> quiet (if b then m else n)" "quiet m \<Longrightarrow> (\<And>a. quiet (g a)) \<Longrightarrow> quiet (case_option m g x)"
  "(\<And>a b. quiet (h a b)) \<Longrightarrow> quiet (case_prod h p)" "quiet m \<Longrightarrow> (\<And>a b. quiet (k a b)) \<Longrightarrow> quiet (case_list m k xs)"
  by (auto split: option.split prod.split list.split)

lemmas quiets = quiet_bind quiet_units quiet_cases

lemma quiet_make: "quiet (make_key env p c t u)"
  unfolding make_key_def by (intro quiets)

lemma quiet_new: "quiet (add_new_groups env gs c)"
  by (induction gs arbitrary: c) (auto intro!: quiets)

lemma quiet_entry: "(\<And>c. quiet (g c)) \<Longrightarrow> quiet (edit_entry env p g rk keys)"
  by (induction keys) (auto intro!: quiets split: option.split)

lemma quiet_frame: "quiet m \<Longrightarrow> m w = (w1, x) \<Longrightarrow> km_st w1 = km_st w"
  unfolding quiet_def by (metis fst_conv)

lemma quiet_edits:
  "quiet (add_key_edit env p q n kl rk)" "quiet (del_key_edit n kl rk)" "quiet (change_key_edit env p q m b kl rk)"
  "quiet (create_group_edit env p gs kl rk)" "quiet (assoc_group_edit env p q gs kl rk)" "quiet (disassoc_group_edit n gs kl rk)"
  "quiet (destroy_group_edit gs kl rk)"
  unfolding add_key_edit_def del_key_edit_def change_key_edit_def create_group_edit_def assoc_group_edit_def disassoc_group_edit_def
    destroy_group_edit_def old_chain_def Let_def
  by (intro quiets quiet_make quiet_new quiet_entry)+

subsection \<open>The edits\<close>

lemma kdf_invD:
  assumes "kdf_inv kl"
  shows "distinct (map fst (kl_keys kl))" "bt_sorted (kl_keys kl)" "any_in_group GROUP_ROOT (kl_keys kl)"
    "(n, e) \<in> set (kl_keys kl) \<Longrightarrow> entry_ok e" "(n, e) \<in> set (kl_keys kl) \<Longrightarrow> in_group GROUP_EVERYONE e"
  using assms by (auto simp: kdf_inv_def bt_sorted_distinct)

lemma kdf_invI:
  assumes "bt_sorted keys" "\<And>n e. (n, e) \<in> set keys \<Longrightarrow> entry_ok e \<and> in_group GROUP_EVERYONE e" "any_in_group GROUP_ROOT keys"
  shows "kdf_inv (kl\<lparr>kl_keys := keys\<rparr>)"
  using assms by (auto simp: kdf_inv_def)

lemma make_key_Inr: "make_key env p c t u w = (w1, Inr (e, c1)) \<Longrightarrow> \<exists>salt. create_key (en_cr env) salt p c t u = (e, c1)"
  by (auto simp: make_key_def km_simps)

lemma add_edit:
  assumes "add_key_edit env p q n kl rk w = (w1, Inr (kl1, rk1, r))" "kdf_inv kl"
  shows "kdf_inv kl1 \<and> all_groups kl1 = all_groups kl"
proof -
  from assms(1) obtain c e c1 t w2 w3 where c: "try_derive_key (en_cr env) p (kl_keys kl) = Some c"
    and m: "make_key env q c t None w2 = (w3, Inr (e, c1))" and n: "map_of (kl_keys kl) n = None"
    and k: "kl1 = kl\<lparr>kl_keys := bt_insert n e (kl_keys kl)\<rparr>"
    by (auto simp: add_key_edit_def km_simps split: if_split_asm)
  note ch = kdf_inv_chain [OF assms(2) c] and inv = kdf_invD [OF assms(2)]
  from make_key_Inr [OF m] obtain salt where "create_key (en_cr env) salt q c t None = (e, c1)" by blast
  note e = created_entry [OF ch(1) this]
  have "kdf_inv kl1"
    unfolding k by (rule kdf_invI) (use inv e ch(2) any_in_group_insert [OF n] bt_insert_set_sub [of n e "kl_keys kl"] in auto)
  moreover have "all_groups kl1 = all_groups kl" using e(2) ch(3) any_in_group_insert [OF n] by (auto simp: all_groups_def k)
  ultimately show ?thesis ..
qed

lemma del_edit:
  assumes "del_key_edit n kl rk w = (w1, Inr (kl1, rk1, r))" "kdf_inv kl"
  shows "kdf_inv kl1 \<and> all_groups kl1 = all_groups kl"
proof -
  let ?keys = "AList.delete n (kl_keys kl)"
  from assms(1) obtain e where e: "map_of (kl_keys kl) n = Some e" and k: "kl1 = kl\<lparr>kl_keys := ?keys\<rparr>"
    and g: "filter (\<lambda>g. \<not> any_in_group g ?keys) (map fst (ke_groups e)) = []"
    by (auto simp: del_key_edit_def km_simps Let_def split: if_split_asm)
  note inv = kdf_invD [OF assms(2)]
  have "any_in_group g ?keys" if "in_group g e" for g using that g by (auto simp: in_group_keys filter_empty_conv)
  then have any: "any_in_group g ?keys \<longleftrightarrow> any_in_group g (kl_keys kl)" for g using any_in_group_remove [OF inv(1) e] by blast
  have "kdf_inv kl1" unfolding k by (rule kdf_invI) (use inv any in \<open>auto dest: delete_entries\<close>)
  then show ?thesis using any by (simp add: all_groups_def k)
qed

lemma copy_groups_Inr:
  assumes "copy_groups c gs acc = Inr c1" "chain_ok c" "chain_ok acc"
  shows "chain_ok c1" "map_of (kc_keys c1) g \<noteq> None \<longleftrightarrow> g \<in> set gs \<or> map_of (kc_keys acc) g \<noteq> None"
  using assms by (induction c gs acc rule: copy_groups.induct) (auto simp: chain_key_def chain_okD split: option.split_asm)

lemma change_edit:
  assumes "change_key_edit env p q m b kl rk w = (w1, Inr (kl1, rk1, r))" "kdf_inv kl"
  shows "kdf_inv kl1 \<and> all_groups kl1 = all_groups kl"
proof -
  from assms(1) obtain n old c nc e c1 t w2 w3 w4 w5 where old: "map_of (kl_keys kl) n = Some old"
    and "old_chain env p old (AList.delete n (kl_keys kl)) b w4 = (w5, Inr c)"
    and nc: "copy_groups c (map fst (ke_groups old)) empty_chain = Inr nc"
    and m: "make_key env q nc (ke_created old) (Some t) w2 = (w3, Inr (e, c1))"
    and k: "kl1 = kl\<lparr>kl_keys := bt_insert n e (AList.delete n (kl_keys kl))\<rparr>"
    by (auto simp: change_key_edit_def km_simps Let_def split: if_split_asm)
  then have c: "try_derive_key_single (en_cr env) p old = Some c \<or> try_derive_key (en_cr env) p (AList.delete n (kl_keys kl)) = Some c"
    by (auto simp: old_chain_def km_simps split: option.split_asm if_split_asm)
  note inv = kdf_invD [OF assms(2)] and ol = map_of_SomeD [OF old]
  have ch: "chain_ok c"
  proof (cases "try_derive_key_single (en_cr env) p old = Some c")
    case True
    then show ?thesis using derived_chain(1) inv(4) [OF ol] by blast
  next
    case False
    with c obtain n1 e1 where "(n1, e1) \<in> set (kl_keys kl)" "try_derive_key_single (en_cr env) p e1 = Some c"
      by (meson delete_entries try_derive_key_Some)
    then show ?thesis using derived_chain(1) inv(4) by blast
  qed
  have "chain_ok empty_chain" by (simp add: chain_ok_def empty_chain_def bt_sorted_def)
  note ncs = copy_groups_Inr [OF nc ch this]
  from make_key_Inr [OF m] obtain salt where "create_key (en_cr env) salt q nc (ke_created old) (Some t) = (e, c1)" by blast
  note e = created_entry [OF ncs(1) this]
  have g: "in_group g e \<longleftrightarrow> in_group g old" for g using e(2) [of g] ncs(2) [of g] by (simp add: in_group_keys empty_chain_def)
  have d: "map_of (AList.delete n (kl_keys kl)) n = None" by simp
  have any: "any_in_group g (kl_keys kl1) \<longleftrightarrow> any_in_group g (kl_keys kl)" for g
    using any_in_group_insert [OF d] any_in_group_remove [OF inv(1) old] g by (simp add: k)
  have "x = (n, e) \<or> x \<in> set (kl_keys kl)" if "x \<in> set (bt_insert n e (AList.delete n (kl_keys kl)))" for x
    using subsetD [OF bt_insert_set_sub that] by (auto dest: delete_entries)
  moreover have "in_group GROUP_EVERYONE e" using g inv(5) [OF ol] by simp
  ultimately have "entry_ok e' \<and> in_group GROUP_EVERYONE e'" if "(m, e') \<in> set (bt_insert n e (AList.delete n (kl_keys kl)))" for m e'
    using that inv(4,5) e(1) by blast
  moreover have "any_in_group GROUP_ROOT (bt_insert n e (AList.delete n (kl_keys kl)))" using any inv(3) by (simp add: k)
  ultimately have "kdf_inv kl1" unfolding k using inv(2) by (intro kdf_invI) simp_all
  then show ?thesis using any by (simp add: all_groups_def)
qed

lemma edit_entry_Inr:
  assumes "edit_entry env p g rk keys w = (w1, Inr (keys1, rk1))"
  obtains pre n e post c c1 w2 w3 where "keys = pre @ (n, e) # post" "keys1 = pre @ (n, reassoc_keys (en_cr env) e c1) # post"
    "try_derive_key_single (en_cr env) p e = Some c" "g c w2 = (w3, Inr c1)"
  using assms
proof (induction keys arbitrary: keys1 rk1 w w1 thesis)
  case (Cons a keys)
  obtain n e where a: "a = (n, e)" by force
  show ?case
  proof (cases "try_derive_key_single (en_cr env) p e")
    case None
    with Cons.prems(2) a obtain keys2 rk2 where "edit_entry env p g rk keys w = (w1, Inr (keys2, rk2))" "keys1 = (n, e) # keys2"
      by (auto simp: km_simps)
    with Cons.IH [OF _ this(1)] Cons.prems(1) [of "(n, e) # pre" for pre] a show ?thesis by (metis append_Cons)
  next
    case (Some c)
    with Cons.prems(2) a obtain c1 w3 where "g c w = (w3, Inr c1)" "keys1 = (n, reassoc_keys (en_cr env) e c1) # keys"
      by (auto simp: km_simps)
    with Cons.prems(1) [of "[]" n e keys] Some a show ?thesis by auto
  qed
qed (simp add: km_simps)

text \<open>Changing one entry so that it gains the groups \<open>G\<close>.\<close>

lemma entry_edit:
  assumes "edit_entry env p g rk (kl_keys kl) w = (w1, Inr (keys1, rk1))" "kdf_inv kl"
    and "\<And>c w2 w3 c1. chain_ok c \<Longrightarrow> g c w2 = (w3, Inr c1) \<Longrightarrow>
      chain_ok c1 \<and> (\<forall>h. map_of (kc_keys c1) h \<noteq> None \<longleftrightarrow> h \<in> G \<or> map_of (kc_keys c) h \<noteq> None)"
  shows "kdf_inv (kl\<lparr>kl_keys := keys1\<rparr>) \<and> all_groups (kl\<lparr>kl_keys := keys1\<rparr>) = all_groups kl \<union> G"
proof -
  from assms(1) obtain pre n e post c c1 w2 w3 where k: "kl_keys kl = pre @ (n, e) # post"
    and k1: "keys1 = pre @ (n, reassoc_keys (en_cr env) e c1) # post"
    and c: "try_derive_key_single (en_cr env) p e = Some c" "g c w2 = (w3, Inr c1)" by (rule edit_entry_Inr)
  note inv = kdf_invD [OF assms(2)]
  have e: "entry_ok e" "in_group GROUP_EVERYONE e" using inv(4,5) k by auto
  note d = derived_chain [OF e(1) c(1)] and g = assms(3) [OF derived_chain(1) [OF e(1) c(1)] c(2)]
  let ?e = "reassoc_keys (en_cr env) e c1"
  have r: "entry_ok ?e" "in_group h ?e \<longleftrightarrow> h \<in> G \<or> in_group h e" for h
    using g d(2) by (simp_all add: reassoc_entry)
  have any: "any_in_group h keys1 \<longleftrightarrow> any_in_group h (kl_keys kl) \<or> h \<in> G" for h
    using r(2) by (auto simp: any_in_group_def k k1)
  have "kdf_inv (kl\<lparr>kl_keys := keys1\<rparr>)"
  proof (rule kdf_invI)
    show "bt_sorted keys1" using inv(2) by (simp add: bt_sorted_def k k1)
    show "any_in_group GROUP_ROOT keys1" using inv(3) any by blast
    show "entry_ok e' \<and> in_group GROUP_EVERYONE e'" if "(m, e') \<in> set keys1" for m e'
      using that inv(4,5) [of m e'] r e by (auto simp: k k1)
  qed
  then show ?thesis using any by (auto simp: all_groups_def)
qed

lemma add_new_groups_Inr:
  assumes "add_new_groups env gs c w = (w1, Inr c1)" "env_ok env" "chain_ok c"
  shows "chain_ok c1 \<and> (\<forall>h. map_of (kc_keys c1) h \<noteq> None \<longleftrightarrow> h \<in> set gs \<or> map_of (kc_keys c) h \<noteq> None)"
  using assms
proof (induction gs arbitrary: c w)
  case (Cons g gs)
  let ?c = "c\<lparr>kc_keys := bt_insert g (en_rand env (km_drawn w)) (kc_keys c)\<rparr>"
  have "chain_ok ?c" using Cons.prems(2,3) by (simp add: env_ok_def)
  with Cons.IH [of ?c] Cons.prems(1,2) show ?case by (auto simp: km_simps)
qed (simp add: km_simps)

lemma add_src_groups_Inr:
  assumes "add_src_groups src gs c = Inr c1" "chain_ok src" "chain_ok c"
  shows "chain_ok c1 \<and> (\<forall>h. map_of (kc_keys c1) h \<noteq> None \<longleftrightarrow> h \<in> set gs \<or> map_of (kc_keys c) h \<noteq> None)"
    "\<forall>h\<in>set gs. map_of (kc_keys src) h \<noteq> None"
  using assms by (induction src gs c rule: add_src_groups.induct) (auto simp: chain_key_def chain_okD split: option.split_asm if_split_asm)

lemma create_edit:
  assumes "create_group_edit env p gs kl rk w = (w1, Inr (kl1, rk1, r))" "kdf_inv kl" "env_ok env"
  shows "kdf_inv kl1 \<and> all_groups kl1 = all_groups kl \<union> set gs"
proof -
  from assms(1) obtain keys1 w2 where "edit_entry env p (add_new_groups env gs) rk (kl_keys kl) w = (w2, Inr (keys1, rk1))"
    "kl1 = kl\<lparr>kl_keys := keys1\<rparr>"
    by (auto simp: create_group_edit_def km_simps)
  with entry_edit [OF _ assms(2), of env p "add_new_groups env gs" rk w w2 keys1 rk1 "set gs"] add_new_groups_Inr [OF _ assms(3)]
  show ?thesis by blast
qed

lemma assoc_edit:
  assumes "assoc_group_edit env p q gs kl rk w = (w1, Inr (kl1, rk1, r))" "kdf_inv kl"
  shows "kdf_inv kl1 \<and> all_groups kl1 = all_groups kl"
proof -
  let ?g = "\<lambda>src c. km_res (add_src_groups src gs c)"
  from assms(1) obtain src keys1 w2 rk2 where s: "try_derive_key (en_cr env) p (kl_keys kl) = Some src"
    and e: "edit_entry env q (?g src) rk2 (kl_keys kl) w = (w2, Inr (keys1, rk1))" "kl1 = kl\<lparr>kl_keys := keys1\<rparr>"
    by (auto simp: assoc_group_edit_def km_simps)
  note src = kdf_inv_chain [OF assms(2) s]
  from e(1) obtain n e1 c c1 where a: "(n, e1) \<in> set (kl_keys kl)" "try_derive_key_single (en_cr env) q e1 = Some c"
    "add_src_groups src gs c = Inr c1"
    by (rule edit_entry_Inr) (auto simp: km_simps)
  have "chain_ok c" using derived_chain(1) [OF _ a(2)] kdf_invD(4) [OF assms(2) a(1)] .
  then have "set gs \<subseteq> all_groups kl" using add_src_groups_Inr(2) [OF a(3) src(1)] src(3) by blast
  moreover have "kdf_inv kl1 \<and> all_groups kl1 = all_groups kl \<union> set gs"
    unfolding e(2) using entry_edit [OF e(1) assms(2), of "set gs"] add_src_groups_Inr(1) [OF _ src(1)] by (auto simp: km_simps)
  ultimately show ?thesis by auto
qed

lemma remove_groups_Inr:
  assumes "remove_groups gs e = Inr e1" "entry_ok e"
  shows "entry_ok e1" "in_group g e1 \<longleftrightarrow> g \<notin> set gs \<and> in_group g e"
  using assms by (induction gs e rule: remove_groups.induct) (auto split: if_split_asm)

lemma disassoc_edit:
  assumes "disassoc_group_edit n gs kl rk w = (w1, Inr (kl1, rk1, r))" "kdf_inv kl" "GROUP_EVERYONE \<notin> set gs"
  shows "kdf_inv kl1 \<and> all_groups kl1 = all_groups kl"
proof -
  from assms(1) obtain e e1 where e: "map_of (kl_keys kl) n = Some e" "remove_groups gs e = Inr e1"
    and k: "kl1 = kl\<lparr>kl_keys := AList.update n e1 (kl_keys kl)\<rparr>"
    and f: "filter (\<lambda>g. \<not> any_in_group g (AList.update n e1 (kl_keys kl))) gs = []"
    by (auto simp: disassoc_group_edit_def km_simps Let_def)
  note inv = kdf_invD [OF assms(2)] and up = update_entry [OF kdf_invD(1) [OF assms(2)] e(1), of e1]
  note en = map_of_SomeD [OF e(1)]
  note r = remove_groups_Inr [OF e(2) inv(4) [OF en]]
  have a1: "any_in_group g (kl_keys kl1) \<longleftrightarrow> in_group g e1 \<or> any_in_group g (AList.delete n (kl_keys kl))" for g
    by (simp add: k any_in_group_iff up(2))
  have any: "any_in_group g (kl_keys kl1) \<longleftrightarrow> any_in_group g (kl_keys kl)" for g
    using a1 [of g] any_in_group_remove [OF inv(1) e(1), of g] r(2) [of g] f by (auto simp: k filter_empty_conv)
  have "kdf_inv kl1"
    unfolding k
  proof (rule kdf_invI)
    show "bt_sorted (AList.update n e1 (kl_keys kl))" using inv(2) up(1) by (simp add: bt_sorted_def)
    show "any_in_group GROUP_ROOT (AList.update n e1 (kl_keys kl))" using any inv(3) by (simp add: k)
    show "entry_ok e' \<and> in_group GROUP_EVERYONE e'" if "(m, e') \<in> set (AList.update n e1 (kl_keys kl))" for m e'
      using that inv(4,5) [of m e'] inv(5) [OF en] r assms(3) unfolding up(2) by (auto dest: delete_entries)
  qed
  then show ?thesis using any by (simp add: all_groups_def)
qed

lemma destroy_groups_Inr:
  assumes "destroy_groups gs keys = Inr keys1" "\<forall>(_, e)\<in>set keys. entry_ok e"
  shows "map fst keys1 = map fst keys" "any_in_group g keys1 \<longleftrightarrow> g \<notin> set gs \<and> any_in_group g keys"
    "(m, e1) \<in> set keys1 \<Longrightarrow> entry_ok e1 \<and> (\<exists>e. (m, e) \<in> set keys \<and> (\<forall>g. in_group g e1 \<longleftrightarrow> g \<notin> set gs \<and> in_group g e))"
proof -
  have "map fst keys1 = map fst keys \<and> (\<forall>g. any_in_group g keys1 \<longleftrightarrow> g \<notin> set gs \<and> any_in_group g keys) \<and>
    (\<forall>(m, e1)\<in>set keys1. entry_ok e1 \<and> (\<exists>e. (m, e) \<in> set keys \<and> (\<forall>g. in_group g e1 \<longleftrightarrow> g \<notin> set gs \<and> in_group g e)))"
    using assms
  proof (induction gs keys rule: destroy_groups.induct)
    case (2 h gs keys)
    let ?keys = "map (\<lambda>(n, e). (n, e\<lparr>ke_groups := AList.delete h (ke_groups e)\<rparr>)) keys"
    have any: "any_in_group g ?keys \<longleftrightarrow> g \<noteq> h \<and> any_in_group g keys" for g
      by (induction keys) (auto simp: any_in_group_def)
    have f: "map fst ?keys = map fst keys" by auto
    have e: "\<forall>(_, e)\<in>set ?keys. entry_ok e" using "2.prems"(2) by auto
    have m: "(n, e) \<in> set ?keys \<Longrightarrow> \<exists>e0. (n, e0) \<in> set keys \<and> e = e0\<lparr>ke_groups := AList.delete h (ke_groups e0)\<rparr>" for n e by auto
    from "2.prems"(1) have c: "any_in_group h keys" "destroy_groups gs ?keys = Inr keys1" by (auto split: if_split_asm)
    from "2.IH" [OF _ c(2) e] c(1) any f m show ?case by fastforce
  qed auto
  then show "map fst keys1 = map fst keys" "any_in_group g keys1 \<longleftrightarrow> g \<notin> set gs \<and> any_in_group g keys"
    "(m, e1) \<in> set keys1 \<Longrightarrow> entry_ok e1 \<and> (\<exists>e. (m, e) \<in> set keys \<and> (\<forall>g. in_group g e1 \<longleftrightarrow> g \<notin> set gs \<and> in_group g e))" by auto
qed

lemma destroy_edit:
  assumes "destroy_group_edit gs kl rk w = (w1, Inr (kl1, rk1, r))" "kdf_inv kl" "GROUP_EVERYONE \<notin> set gs" "GROUP_ROOT \<notin> set gs"
  shows "kdf_inv kl1 \<and> all_groups kl1 = all_groups kl - set gs"
proof -
  from assms(1) obtain keys1 where d: "destroy_groups gs (kl_keys kl) = Inr keys1" and k: "kl1 = kl\<lparr>kl_keys := keys1\<rparr>"
    by (auto simp: destroy_group_edit_def km_simps)
  note inv = kdf_invD [OF assms(2)]
  have "\<forall>(_, e)\<in>set (kl_keys kl). entry_ok e" using inv(4) by auto
  note d = destroy_groups_Inr [OF d this]
  have "kdf_inv kl1"
    unfolding k
  proof (rule kdf_invI)
    show "bt_sorted keys1" using inv(2) d(1) by (simp add: bt_sorted_def)
    show "any_in_group GROUP_ROOT keys1" using d(2) inv(3) assms(4) by blast
    show "entry_ok e \<and> in_group GROUP_EVERYONE e" if "(m, e) \<in> set keys1" for m e using d(3) [OF that] inv(5) assms(3) by blast
  qed
  then show ?thesis using d(2) by (auto simp: all_groups_def k)
qed

subsection \<open>Interpretations\<close>

lemmas frames = quiet_edits [THEN quiet_frame]

interpretation add: key_edit "add_key_edit env p q n" "\<lambda>G. G" True for env p q n
  by unfold_locales (auto dest: frames add_edit)

interpretation del: key_edit "del_key_edit n" "\<lambda>G. G" True for n
  by unfold_locales (auto dest: frames del_edit)

interpretation change: key_edit "change_key_edit env p q m b" "\<lambda>G. G" True for env p q m b
  by unfold_locales (auto dest: frames change_edit)

interpretation create: key_edit "create_group_edit env p gs" "\<lambda>G. G \<union> set gs" "env_ok env" for env p gs
  by unfold_locales (auto dest: frames create_edit)

interpretation assoc: key_edit "assoc_group_edit env p q gs" "\<lambda>G. G" True for env p q gs
  by unfold_locales (auto dest: frames assoc_edit)

interpretation disassoc: key_edit "disassoc_group_edit n gs" "\<lambda>G. G" "GROUP_EVERYONE \<notin> set gs" for n gs
  by unfold_locales (auto dest: frames disassoc_edit)

interpretation destroy: key_edit "destroy_group_edit gs" "\<lambda>G. G - set gs" "GROUP_EVERYONE \<notin> set gs \<and> GROUP_ROOT \<notin> set gs" for gs
  by unfold_locales (auto dest: frames destroy_edit)

subsection \<open>A new passphrase\<close>

lemma try_derive_insert:
  assumes "try_derive_key cr p keys = None" "try_derive_key_single cr p e = Some c" "map_of keys n = None"
  shows "try_derive_key cr p (bt_insert n e keys) = Some c"
  using assms by (induction n e keys rule: bt_insert.induct) (auto split: option.split_asm if_split_asm)

end
