(* ===== verification/Local_Storage.thy ===== *)
theory Local_Storage
  imports Storage
begin

text \<open>
  The server's storage on the local file system, \<open>src/server/local_storage.rs\<close>: a database with the version and length of every
  directory and the reference accumulator of every object, files with their contents, and the transactions buffered in
  memory. Every database statement and every file operation is a numbered step that the environment may fail
  (\<open>flt\<close>); a failing write may have written a part of its data. A failed statement or a condition that
  does not hold rolls the database back, but not the files.

  The lemmas show that this is enough: a commit is the abstract \<open>apply_ops\<close> or, whatever fails, leaves every directory as it
  was, provided no version is used twice. A temporary file is invisible until it is moved in place; what a hash maps an id and
  a version to is a parameter, as is that it does not collide.
\<close>

section \<open>Definitions\<close>

subsection \<open>State\<close>

record dir_row =
  dr_ver :: hash_id
  dr_sver :: hash_id
  dr_length :: int

record storage_db =
  ld_dirs :: "(hash_id \<times> dir_row) list"
  ld_objs :: "(hash_id \<times> bytes) list"

text \<open>\<open>ls_saved\<close> is the database at the start of the open transaction, \<open>ls_count\<close> the number of steps so far.\<close>

record local_storage =
  ls_db :: storage_db
  ls_saved :: "storage_db option"
  ls_dirfiles :: "(string \<times> bytes) list"
  ls_objfiles :: "(string \<times> bytes) list"
  ls_txns :: "(txid \<times> tx_op list) list"
  ls_dirty :: bytes
  ls_watch :: "(hash_id \<times> hash_id \<times> 32 word) list option"
  ls_count :: nat

type_synonym ls_faults = "nat \<Rightarrow> (string \<times> nat) option"
type_synonym 'a ls = "local_storage \<Rightarrow> local_storage \<times> 'a res"

definition ls_open :: local_storage where
  "ls_open =
     \<lparr>ls_db = \<lparr>ld_dirs = [], ld_objs = []\<rparr>, ls_saved = None, ls_dirfiles = [], ls_objfiles = [], ls_txns = [],
      ls_dirty = [], ls_watch = None, ls_count = 0\<rparr>"

subsection \<open>Steps\<close>

definition ls_ok :: "'a \<Rightarrow> 'a ls" where
  "ls_ok a s = (s, Inr a)"

definition ls_err :: "error \<Rightarrow> 'a ls" where
  "ls_err e s = (s, Inl e)"

definition ls_bind :: "'a ls \<Rightarrow> ('a \<Rightarrow> 'b ls) \<Rightarrow> 'b ls" where
  "ls_bind m f s = (case m s of (s1, Inl e) \<Rightarrow> (s1, Inl e) | (s1, Inr a) \<Rightarrow> f a s1)"

definition tick :: "local_storage \<Rightarrow> local_storage" where
  "tick s = s\<lparr>ls_count := ls_count s + 1\<rparr>"

text \<open>A statement.\<close>

definition sql_step :: "ls_faults \<Rightarrow> (storage_db \<Rightarrow> storage_db \<times> 'a) \<Rightarrow> 'a ls" where
  "sql_step flt f s =
     (case flt (ls_count s) of
        Some (e, _) \<Rightarrow> (tick s, Inl (err (Sqlite e)))
      | None \<Rightarrow> case f (ls_db s) of (d, a) \<Rightarrow> ((tick s)\<lparr>ls_db := d\<rparr>, Inr a))"

text \<open>\<open>BEGIN\<close> and \<open>COMMIT\<close>.\<close>

definition sql_exec :: "ls_faults \<Rightarrow> 'a ls \<Rightarrow> 'a ls" where
  "sql_exec flt f s =
     (case flt (ls_count s) of
        Some (e, _) \<Rightarrow> (tick s, Inl (err (Sqlite e)))
      | None \<Rightarrow> f (tick s))"

text \<open>A file operation whose failure leaves \<open>g k\<close> of its effect.\<close>

definition io_step :: "ls_faults \<Rightarrow> (nat \<Rightarrow> local_storage \<Rightarrow> local_storage) \<Rightarrow> (local_storage \<Rightarrow> local_storage \<times> 'a res) \<Rightarrow> 'a ls" where
  "io_step flt g f s =
     (case flt (ls_count s) of
        Some (e, k) \<Rightarrow> (g k (tick s), Inl (err (Io e)))
      | None \<Rightarrow> f (tick s))"

text \<open>A file operation without visible effect.\<close>

definition io_quiet :: "ls_faults \<Rightarrow> unit ls" where
  "io_quiet flt = io_step flt (\<lambda>_ s. s) (\<lambda>s. (s, Inr ()))"

subsection \<open>Names\<close>

definition id_suffix :: "hash_id \<Rightarrow> string" where
  "id_suffix i = hex_byte (hd i) @ ''/'' @ concat (map hex_byte (tl i))"

definition dir_path :: "(bytes \<Rightarrow> hash_id) \<Rightarrow> hash_id \<Rightarrow> hash_id \<Rightarrow> string" where
  "dir_path sha3 i v = id_suffix (sha3 (i @ v))"

definition obj_path :: "hash_id \<Rightarrow> string" where
  "obj_path i = id_suffix i"

subsection \<open>Committing\<close>

definition tx_add :: "txid \<Rightarrow> tx_op \<Rightarrow> unit ls" where
  "tx_add t op s =
     (case map_of (ls_txns s) t of
        Some ops \<Rightarrow> (s\<lparr>ls_txns := AList.update t (ops @ [op]) (ls_txns s)\<rparr>, Inr ())
      | None \<Rightarrow> (s, Inl (err (NoSuchTransaction t))))"

text \<open>Creating the temporary file, its permissions, and writing to it; moving it in place.\<close>

definition write_temp :: "ls_faults \<Rightarrow> unit ls" where
  "write_temp flt = ls_bind (io_quiet flt) (\<lambda>_. ls_bind (io_quiet flt) (\<lambda>_. io_quiet flt))"

definition persist_dir :: "ls_faults \<Rightarrow> string \<Rightarrow> bytes \<Rightarrow> unit ls" where
  "persist_dir flt p c =
     ls_bind (io_step flt (\<lambda>_ s. s) (\<lambda>s. (s\<lparr>ls_dirfiles := AList.update p c (ls_dirfiles s)\<rparr>, Inr ()))) (\<lambda>_. io_quiet flt)"

definition persist_obj :: "ls_faults \<Rightarrow> string \<Rightarrow> bytes \<Rightarrow> unit ls" where
  "persist_obj flt p c =
     ls_bind (io_step flt (\<lambda>_ s. s) (\<lambda>s. (s\<lparr>ls_objfiles := AList.update p c (ls_objfiles s)\<rparr>, Inr ()))) (\<lambda>_. io_quiet flt)"

text \<open>Writing \<open>d\<close> at the offset \<open>off\<close>; a gap before it is filled with zeros.\<close>

definition write_at :: "nat \<Rightarrow> bytes \<Rightarrow> bytes \<Rightarrow> bytes" where
  "write_at off d c =
     (if d = [] then c else take off (c @ replicate (off - length c) (CHR 0x00)) @ d @ drop (off + length d) c)"

definition upd_dirfile :: "string \<Rightarrow> (bytes \<Rightarrow> bytes) \<Rightarrow> local_storage \<Rightarrow> local_storage" where
  "upd_dirfile p f s =
     (case map_of (ls_dirfiles s) p of
        None \<Rightarrow> s
      | Some c \<Rightarrow> s\<lparr>ls_dirfiles := AList.update p (f c) (ls_dirfiles s)\<rparr>)"

definition append_dir :: "ls_faults \<Rightarrow> string \<Rightarrow> nat \<Rightarrow> bytes \<Rightarrow> unit ls" where
  "append_dir flt p off d =
     ls_bind (io_step flt (\<lambda>_ s. s) (\<lambda>s. (s, if map_of (ls_dirfiles s) p = None then Inl (err (Io ''not found'')) else Inr ()))) (\<lambda>_.
     ls_bind (io_quiet flt) (\<lambda>_.
     ls_bind (io_step flt (\<lambda>k. upd_dirfile p (write_at off (take k d))) (\<lambda>s. (upd_dirfile p (write_at off d) s, Inr ()))) (\<lambda>_.
       io_quiet flt)))"

definition update_ref :: "ls_faults \<Rightarrow> hash_id \<Rightarrow> hash_id \<Rightarrow> unit ls" where
  "update_ref flt i linkid =
     ls_bind (sql_step flt (\<lambda>d. (d, map_of (ld_objs d) i))) (\<lambda>old.
       case old of
         Some refs \<Rightarrow>
           if length refs \<noteq> 32 then ls_err (err InvalidRefVector)
           else sql_step flt (\<lambda>d. (d\<lparr>ld_objs := AList.update i (xor_into refs linkid) (ld_objs d)\<rparr>, ()))
       | None \<Rightarrow> sql_step flt (\<lambda>d. (d\<lparr>ld_objs := (i, linkid) # ld_objs d\<rparr>, ())))"

definition get_ver_for_modify :: "ls_faults \<Rightarrow> hash_id \<Rightarrow> hash_id \<Rightarrow> 32 word \<Rightarrow> hash_id option ls" where
  "get_ver_for_modify flt i sver old_len =
     ls_bind (sql_step flt (\<lambda>d. (d,
         case map_of (ld_dirs d) i of
           None \<Rightarrow> None
         | Some r \<Rightarrow> if dr_sver r = sver \<and> dr_length r = uint old_len then Some (dr_ver r) else None)))
       (\<lambda>v. case v of
          None \<Rightarrow> ls_ok None
        | Some ver \<Rightarrow> if length ver \<noteq> 32 then ls_err (err InvalidHash) else ls_ok (Some ver))"

text \<open>One operation: whether its conditions held, and the operation with the version \<open>Rmdir\<close> stores in it. The insertion
  follows the test for the id in the same transaction, so the key is free.\<close>

fun commit_op :: "(bytes \<Rightarrow> hash_id) \<Rightarrow> ls_faults \<Rightarrow> tx_op \<Rightarrow> (bool \<times> tx_op) ls" where
  "commit_op sha3 flt (Mkdir i ver sver c) =
     ls_bind (sql_step flt (\<lambda>d. (d, map_of (ld_dirs d) i \<noteq> None))) (\<lambda>ex.
       if ex then ls_ok (False, Mkdir i ver sver c)
       else
         ls_bind (sql_step flt (\<lambda>d. (d\<lparr>ld_dirs := (i, \<lparr>dr_ver = ver, dr_sver = sver, dr_length = int (length c)\<rparr>) # ld_dirs d\<rparr>, ()))) (\<lambda>_.
         ls_bind (write_temp flt) (\<lambda>_.
         ls_bind (persist_dir flt (dir_path sha3 i ver) c) (\<lambda>_.
           ls_ok (True, Mkdir i ver sver c)))))"
| "commit_op sha3 flt (Updir i sver old_len d) =
     ls_bind (get_ver_for_modify flt i sver old_len) (\<lambda>v.
       case v of
         None \<Rightarrow> ls_ok (False, Updir i sver old_len d)
       | Some ver \<Rightarrow>
           if U32_MAX - unat old_len < length d then ls_err (err DirectoryTooLarge)
           else
             ls_bind (sql_step flt (\<lambda>b. (b\<lparr>ld_dirs :=
                 map (\<lambda>(j, r). (j, if j = i then r\<lparr>dr_length := int (unat old_len + length d)\<rparr> else r)) (ld_dirs b)\<rparr>, ()))) (\<lambda>_.
             ls_bind (append_dir flt (dir_path sha3 i ver) (unat old_len) d) (\<lambda>_.
               ls_ok (True, Updir i sver old_len d))))"
| "commit_op sha3 flt (Rmdir i sver old_len) =
     ls_bind (get_ver_for_modify flt i sver old_len) (\<lambda>v.
       case v of
         None \<Rightarrow> ls_ok (False, Rmdir i sver old_len)
       | Some ver \<Rightarrow>
           ls_bind (sql_step flt (\<lambda>b. (b\<lparr>ld_dirs := AList.delete i (ld_dirs b)\<rparr>, ()))) (\<lambda>_.
             ls_ok (True, Rmdir i ver old_len)))"
| "commit_op sha3 flt (LinkObj i linkid h) =
     ls_bind (update_ref flt i linkid) (\<lambda>_ s.
       if flt (ls_count s) = None \<and> map_of (ls_objfiles s) (obj_path i) \<noteq> None then (tick s, Inr (True, LinkObj i linkid h))
       else ls_bind (write_temp flt) (\<lambda>_. ls_bind (persist_obj flt (obj_path i) h) (\<lambda>_. ls_ok (True, LinkObj i linkid h))) (tick s))"
| "commit_op sha3 flt (UnlinkObj i linkid) =
     ls_bind (update_ref flt i linkid) (\<lambda>_. ls_ok (True, UnlinkObj i linkid))"

fun do_commit :: "(bytes \<Rightarrow> hash_id) \<Rightarrow> ls_faults \<Rightarrow> tx_op list \<Rightarrow> (bool \<times> tx_op list) ls" where
  "do_commit sha3 flt [] = ls_ok (True, [])"
| "do_commit sha3 flt (op # ops) =
     ls_bind (commit_op sha3 flt op) (\<lambda>(ok, op1).
       if \<not> ok then ls_ok (False, op1 # ops)
       else ls_bind (do_commit sha3 flt ops) (\<lambda>(ok2, ops1). ls_ok (ok2, op1 # ops1)))"

text \<open>\<open>tx_gen\<close>: the body's \<open>keep\<close> says whether its value is an \<open>Ok\<close> of the closure. A failing \<open>ROLLBACK\<close> means
  that the database has already rolled back.\<close>

definition tx_gen :: "ls_faults \<Rightarrow> ('a \<Rightarrow> bool) \<Rightarrow> 'a ls \<Rightarrow> 'a ls" where
  "tx_gen flt keep body =
     ls_bind
       (sql_exec flt (\<lambda>s.
          if ls_saved s \<noteq> None then (s, Inl (err (Sqlite ''cannot start a transaction within a transaction'')))
          else (s\<lparr>ls_saved := Some (ls_db s)\<rparr>, Inr ())))
       (\<lambda>_ s.
          let rollback = (\<lambda>s. (tick s)\<lparr>ls_db := (case ls_saved s of None \<Rightarrow> ls_db s | Some d \<Rightarrow> d), ls_saved := None\<rparr>) in
          case body s of
            (s1, Inl e) \<Rightarrow> (rollback s1, Inl e)
          | (s1, Inr a) \<Rightarrow>
              if keep a then sql_exec flt (\<lambda>s. (s\<lparr>ls_saved := None\<rparr>, Inr a)) s1
              else (rollback s1, Inr a))"

definition unwatch :: "hash_id \<Rightarrow> local_storage \<Rightarrow> local_storage" where
  "unwatch i s = s\<lparr>ls_watch := map_option (AList.delete i) (ls_watch s)\<rparr>"

fun cleanup_op :: "(bytes \<Rightarrow> hash_id) \<Rightarrow> ls_faults \<Rightarrow> local_storage \<Rightarrow> tx_op \<Rightarrow> local_storage" where
  "cleanup_op sha3 flt s (Mkdir i _ _ _) = unwatch i s"
| "cleanup_op sha3 flt s (Updir i _ _ _) = unwatch i s"
| "cleanup_op sha3 flt s (Rmdir i ver _) =
     fst (io_step flt (\<lambda>_ s. s) (\<lambda>s. (s\<lparr>ls_dirfiles := AList.delete (dir_path sha3 i ver) (ls_dirfiles s)\<rparr>, Inr ())) (unwatch i s))"
| "cleanup_op sha3 flt s _ = s"

definition postcommit_cleanup :: "(bytes \<Rightarrow> hash_id) \<Rightarrow> ls_faults \<Rightarrow> tx_op list \<Rightarrow> local_storage \<Rightarrow> local_storage" where
  "postcommit_cleanup sha3 flt ops s = foldl (cleanup_op sha3 flt) s ops"

definition commit :: "(bytes \<Rightarrow> hash_id) \<Rightarrow> ls_faults \<Rightarrow> txid \<Rightarrow> bool ls" where
  "commit sha3 flt t s =
     (case map_of (ls_txns s) t of
        None \<Rightarrow> (s, Inl (err (Msg ''No such transaction'')))
      | Some ops \<Rightarrow>
          case tx_gen flt fst (ls_bind (sql_step flt (\<lambda>d. (d, ()))) (\<lambda>_. do_commit sha3 flt ops))
                 (s\<lparr>ls_txns := AList.delete t (ls_txns s)\<rparr>) of
            (s1, Inl e) \<Rightarrow> (s1, Inl e)
          | (s1, Inr (False, _)) \<Rightarrow> (s1, Inr False)
          | (s1, Inr (True, ops1)) \<Rightarrow> (postcommit_cleanup sha3 flt ops1 s1, Inr True))"

subsection \<open>The other operations\<close>

definition start_tx :: "txid \<Rightarrow> unit ls" where
  "start_tx t s =
     (if map_of (ls_txns s) t \<noteq> None then (s, Inl (err (TransactionAlreadyInUse t)))
      else (s\<lparr>ls_txns := (t, []) # ls_txns s\<rparr>, Inr ()))"

definition abort :: "txid \<Rightarrow> unit ls" where
  "abort t s =
     (if map_of (ls_txns s) t = None then (s, Inl (err (Msg ''No such transaction'')))
      else (s\<lparr>ls_txns := AList.delete t (ls_txns s)\<rparr>, Inr ()))"

text \<open>\<open>getdir\<close> with the number of tries that are left.\<close>

fun getdir_loop :: "(bytes \<Rightarrow> hash_id) \<Rightarrow> ls_faults \<Rightarrow> nat \<Rightarrow> hash_id \<Rightarrow> (hash_id \<times> bytes) option ls" where
  "getdir_loop sha3 flt 0 i = ls_err (err DanglingServerDirectoryRef)"
| "getdir_loop sha3 flt (Suc n) i =
     ls_bind (sql_step flt (\<lambda>d. (d, map_of (ld_dirs d) i))) (\<lambda>row.
       case row of
         None \<Rightarrow> ls_ok None
       | Some r \<Rightarrow>
           if length (dr_ver r) \<noteq> 32 \<or> dr_length r < 0 \<or> dr_length r > int U32_MAX then ls_err (err InvalidServerDirEntry)
           else
             ls_bind (io_step flt (\<lambda>_ s. s) (\<lambda>s. (s, Inr (map_of (ls_dirfiles s) (dir_path sha3 i (dr_ver r)))))) (\<lambda>c.
               case c of
                 None \<Rightarrow> getdir_loop sha3 flt n i
               | Some c \<Rightarrow>
                   io_step flt (\<lambda>_ s. s) (\<lambda>s. (s,
                     if length c < nat (dr_length r) then Inl (err (Io ''failed to fill whole buffer''))
                     else Inr (Some (dr_ver r, take (nat (dr_length r)) c))))))"

definition getdir :: "(bytes \<Rightarrow> hash_id) \<Rightarrow> ls_faults \<Rightarrow> hash_id \<Rightarrow> (hash_id \<times> bytes) option ls" where
  "getdir sha3 flt i = getdir_loop sha3 flt 256 i"

definition getobj :: "ls_faults \<Rightarrow> hash_id \<Rightarrow> bytes option ls" where
  "getobj flt i =
     ls_bind (io_step flt (\<lambda>_ s. s) (\<lambda>s. (s, Inr (map_of (ls_objfiles s) (obj_path i))))) (\<lambda>c.
       case c of
         None \<Rightarrow> ls_ok None
       | Some v \<Rightarrow> io_step flt (\<lambda>_ s. s) (\<lambda>s. (s, Inr (Some v))))"

definition dir_exists_with_version :: "ls_faults \<Rightarrow> hash_id \<Rightarrow> hash_id \<Rightarrow> 32 word \<Rightarrow> bool ls" where
  "dir_exists_with_version flt i ver len s =
     (case sql_step flt (\<lambda>d. (d,
         case map_of (ld_dirs d) i of None \<Rightarrow> False | Some r \<Rightarrow> dr_ver r = ver \<and> dr_length r = uint len)) s of
        (s1, Inl e) \<Rightarrow>
          (s1, Inl (Error (Msg (''Error checking state of directory '' @ display_hash i @ ''/'' @ display_hash ver)) (Some (EnsyncCause e))))
      | (s1, Inr b) \<Rightarrow> (s1, Inr b))"

definition watchdir :: "hash_id \<Rightarrow> hash_id \<Rightarrow> 32 word \<Rightarrow> unit ls" where
  "watchdir i ver len s = (s\<lparr>ls_watch := map_option (AList.update i (ver, len)) (ls_watch s)\<rparr>, Inr ())"

definition check_dir_dirty :: "ls_faults \<Rightarrow> hash_id \<Rightarrow> hash_id \<Rightarrow> 32 word \<Rightarrow> unit ls" where
  "check_dir_dirty flt i ver len =
     ls_bind (watchdir i ver len) (\<lambda>_.
     ls_bind (dir_exists_with_version flt i ver len) (\<lambda>ex s.
       if ex then (s, Inr ())
       else case io_step flt (\<lambda>k s. s\<lparr>ls_dirty := ls_dirty s @ take k i\<rparr>) (\<lambda>s. (s\<lparr>ls_dirty := ls_dirty s @ i\<rparr>, Inr ())) s of
              (s1, Inl e) \<Rightarrow> (s1, Inl (Error (Msg ''Error writing to dirty directory buffer'') (Some (EnsyncCause e))))
            | (s1, Inr _) \<Rightarrow> (s1, Inr ())))"

text \<open>The loop of \<open>for_dirty_dir\<close> over the buffer, with the state of the callback.\<close>

definition read_chained :: "ls_faults \<Rightarrow> string \<Rightarrow> unit ls" where
  "read_chained flt msg s =
     (case io_quiet flt s of (s1, Inl e) \<Rightarrow> (s1, Inl (Error (Msg msg) (Some (EnsyncCause e)))) | (s1, Inr _) \<Rightarrow> (s1, Inr ()))"

function dirty_loop :: "ls_faults \<Rightarrow> ('c \<Rightarrow> hash_id \<Rightarrow> 'c \<times> unit res) \<Rightarrow> bytes \<Rightarrow> 'c \<Rightarrow> local_storage \<Rightarrow> local_storage \<times> 'c \<times> unit res" where
  "dirty_loop flt f buf c s =
     (case read_chained flt ''Error reading dirty directory buffer'' s of
        (s1, Inl e) \<Rightarrow> (s1, c, Inl e)
      | (s1, Inr _) \<Rightarrow>
          if buf = [] then (s1, c, Inr ())
          else if length buf < 32 then (s1, c, Inl (Error (Msg ''Error reading dirty directory buffer'') (Some (ForeignCause ''failed to fill whole buffer''))))
          else case f c (take 32 buf) of
                 (c1, Inl e) \<Rightarrow> (s1, c1, Inl e)
               | (c1, Inr _) \<Rightarrow> dirty_loop flt f (drop 32 buf) c1 s1)"
  by pat_completeness auto
termination by (relation "measure (\<lambda>(_, _, buf, _, _). length buf)") auto

definition for_dirty_dir :: "ls_faults \<Rightarrow> ('c \<Rightarrow> hash_id \<Rightarrow> 'c \<times> unit res) \<Rightarrow> 'c \<Rightarrow> local_storage \<Rightarrow> local_storage \<times> 'c \<times> unit res" where
  "for_dirty_dir flt f c s =
     (case read_chained flt ''Error seeking dirty directory buffer'' s of
        (s1, Inl e) \<Rightarrow> (s1, c, Inl e)
      | (s1, Inr _) \<Rightarrow>
          case dirty_loop flt f (ls_dirty s1) c s1 of
            (s2, c2, Inl e) \<Rightarrow> (s2, c2, Inl e)
          | (s2, c2, Inr _) \<Rightarrow>
              case ls_bind (read_chained flt ''Error seeking dirty directory buffer'')
                     (\<lambda>_. read_chained flt ''Error truncating dirty directory buffer'') s2 of
                (s3, Inl e) \<Rightarrow> (s3, c2, Inl e)
              | (s3, Inr _) \<Rightarrow> (s3\<lparr>ls_dirty := []\<rparr>, c2, Inr ()))"

definition linkobj :: "ls_faults \<Rightarrow> txid \<Rightarrow> hash_id \<Rightarrow> hash_id \<Rightarrow> bool ls" where
  "linkobj flt t i linkid =
     ls_bind (io_step flt (\<lambda>_ s. s) (\<lambda>s. (s, Inr (map_of (ls_objfiles s) (obj_path i))))) (\<lambda>c.
       case c of
         None \<Rightarrow> ls_ok False
       | Some h \<Rightarrow> ls_bind (tx_add t (LinkObj i linkid h)) (\<lambda>_. ls_ok True))"

definition putobj :: "ls_faults \<Rightarrow> txid \<Rightarrow> hash_id \<Rightarrow> hash_id \<Rightarrow> bytes \<Rightarrow> unit ls" where
  "putobj flt t i linkid c =
     ls_bind (write_temp flt) (\<lambda>_.
     ls_bind (tx_gen flt (\<lambda>_. True) (sql_step flt (\<lambda>d.
         (if map_of (ld_objs d) i = None then d\<lparr>ld_objs := (i, UNKNOWN_HASH) # ld_objs d\<rparr> else d, ())))) (\<lambda>_.
     ls_bind (persist_obj flt (obj_path i) c) (\<lambda>_.
     ls_bind (io_quiet flt) (\<lambda>_.
       tx_add t (LinkObj i linkid c)))))"

definition watch :: "unit ls" where
  "watch s = (if ls_watch s \<noteq> None then (s, Inl (err AlreadyWatching)) else (s\<lparr>ls_watch := Some []\<rparr>, Inr ()))"

text \<open>One round of the polling thread; the ids it reports.\<close>

fun poll_list :: "ls_faults \<Rightarrow> (hash_id \<times> hash_id \<times> 32 word) list \<Rightarrow> local_storage \<Rightarrow> local_storage \<times> hash_id list" where
  "poll_list flt [] s = (s, [])"
| "poll_list flt ((i, ver, len) # wl) s =
     (case dir_exists_with_version flt i ver len s of
        (s1, Inr False) \<Rightarrow> (case poll_list flt wl (unwatch i s1) of (s2, is) \<Rightarrow> (s2, i # is))
      | (s1, _) \<Rightarrow> poll_list flt wl s1)"

definition watch_poll :: "ls_faults \<Rightarrow> local_storage \<Rightarrow> local_storage \<times> hash_id list" where
  "watch_poll flt s = (case ls_watch s of None \<Rightarrow> (s, []) | Some wl \<Rightarrow> poll_list flt wl s)"

text \<open>The loop of \<open>do_clean_up\<close> over the selected ids.\<close>

fun clean_objs :: "ls_faults \<Rightarrow> hash_id list \<Rightarrow> unit ls" where
  "clean_objs flt [] = sql_step flt (\<lambda>d. (d, ()))"
| "clean_objs flt (i # is) =
     ls_bind (sql_step flt (\<lambda>d. (d, ()))) (\<lambda>_.
       if length i \<noteq> 32 then ls_err (err InvalidObjectId)
       else
         ls_bind (sql_step flt (\<lambda>d. (d\<lparr>ld_objs := AList.delete i (ld_objs d)\<rparr>, ()))) (\<lambda>_ s.
           clean_objs flt is
             (fst (io_step flt (\<lambda>_ s. s) (\<lambda>s. (s\<lparr>ls_objfiles := AList.delete (obj_path i) (ls_objfiles s)\<rparr>, Inr ())) s))))"

definition do_clean_up :: "ls_faults \<Rightarrow> unit ls" where
  "do_clean_up flt =
     tx_gen flt (\<lambda>_. True)
       (ls_bind (sql_step flt (\<lambda>d. (d, ()))) (\<lambda>_.
        ls_bind (sql_step flt (\<lambda>d. (d, map fst (filter (\<lambda>(i, refs). refs = UNKNOWN_HASH) (ld_objs d))))) (\<lambda>ids.
          clean_objs flt ids)))"

definition local_storage :: "(bytes \<Rightarrow> hash_id) \<Rightarrow> ls_faults \<Rightarrow> local_storage storage" where
  "local_storage sha3 flt =
     \<lparr>st_is_fatal = default_st_is_fatal,
      st_getdir = (\<lambda>s i. getdir sha3 flt i s),
      st_getobj = (\<lambda>s i. getobj flt i s),
      st_check_dir_dirty = (\<lambda>s i v len. check_dir_dirty flt i v len s),
      st_start_tx = (\<lambda>s t. start_tx t s),
      st_commit = (\<lambda>s t. commit sha3 flt t s),
      st_abort = (\<lambda>s t. abort t s),
      st_mkdir = (\<lambda>s t i v sv c. tx_add t (Mkdir i v sv c) s),
      st_updir = (\<lambda>s t i sv old_len d. tx_add t (Updir i sv old_len d) s),
      st_rmdir = (\<lambda>s t i sv old_len. tx_add t (Rmdir i sv old_len) s),
      st_linkobj = (\<lambda>s t i linkid. linkobj flt t i linkid s),
      st_putobj = (\<lambda>s t i linkid c. putobj flt t i linkid c s),
      st_unlinkobj = (\<lambda>s t i linkid. tx_add t (UnlinkObj i linkid) s),
      st_watchdir = (\<lambda>s i v len. watchdir i v len s),
      st_clean_up = (\<lambda>s. fst (do_clean_up flt s))\<rparr>"

subsection \<open>Abstraction\<close>

text \<open>The directories a database and the files show, and the keys under which it stores their files.\<close>

definition dirs_of :: "(bytes \<Rightarrow> hash_id) \<Rightarrow> storage_db \<Rightarrow> (string \<times> bytes) list \<Rightarrow> hash_id \<rightharpoonup> hash_id \<times> hash_id \<times> bytes" where
  "dirs_of sha3 d files i =
     map_option (\<lambda>r. (dr_ver r, dr_sver r, take (nat (dr_length r)) (the (map_of files (dir_path sha3 i (dr_ver r))))))
       (map_of (ld_dirs d) i)"

definition store_of :: "(bytes \<Rightarrow> hash_id) \<Rightarrow> storage_db \<Rightarrow> (string \<times> bytes) list \<Rightarrow> store" where
  "store_of sha3 d files = \<lparr>sr_dirs = dirs_of sha3 d files, sr_refs = map_of (ld_objs d)\<rparr>"

definition db_keys :: "storage_db \<Rightarrow> (hash_id \<times> hash_id) set" where
  "db_keys d = {(i, dr_ver r) | i r. map_of (ld_dirs d) i = Some r}"

definition ls_committed :: "local_storage \<Rightarrow> storage_db" where
  "ls_committed s = (case ls_saved s of None \<Rightarrow> ls_db s | Some d \<Rightarrow> d)"

definition ls_store :: "(bytes \<Rightarrow> hash_id) \<Rightarrow> local_storage \<Rightarrow> store" where
  "ls_store sha3 s = store_of sha3 (ls_committed s) (ls_dirfiles s)"

text \<open>Every directory has a file with at least the committed length.\<close>

definition files_ok :: "(bytes \<Rightarrow> hash_id) \<Rightarrow> storage_db \<Rightarrow> (string \<times> bytes) list \<Rightarrow> bool" where
  "files_ok sha3 d files =
     ((\<forall>i r. map_of (ld_dirs d) i = Some r \<longrightarrow> length (dr_ver r) = 32 \<and> 0 \<le> dr_length r \<and>
        (\<exists>c. map_of files (dir_path sha3 i (dr_ver r)) = Some c \<and> dr_length r \<le> int (length c))) \<and>
      (\<forall>i refs. map_of (ld_objs d) i = Some refs \<longrightarrow> length refs = 32))"

definition ls_inv :: "(bytes \<Rightarrow> hash_id) \<Rightarrow> local_storage \<Rightarrow> bool" where
  "ls_inv sha3 s = files_ok sha3 (ls_committed s) (ls_dirfiles s)"

fun mkdir_key :: "tx_op \<Rightarrow> (hash_id \<times> hash_id) list" where
  "mkdir_key (Mkdir i ver _ _) = [(i, ver)]"
| "mkdir_key _ = []"

definition mkdir_keys :: "tx_op list \<Rightarrow> (hash_id \<times> hash_id) list" where
  "mkdir_keys ops = concat (map mkdir_key ops)"

fun op_typed :: "tx_op \<Rightarrow> bool" where
  "op_typed (Mkdir _ ver _ _) = (length ver = 32)"
| "op_typed (LinkObj _ linkid _) = (length linkid = 32)"
| "op_typed (UnlinkObj _ linkid) = (length linkid = 32)"
| "op_typed _ = True"

text \<open>No version is used twice, the arguments have the length of their type, and the names of all files involved differ.\<close>

definition fresh_versions :: "(bytes \<Rightarrow> hash_id) \<Rightarrow> storage_db \<Rightarrow> tx_op list \<Rightarrow> bool" where
  "fresh_versions sha3 d ops =
     (list_all op_typed ops \<and> distinct (mkdir_keys ops) \<and> set (mkdir_keys ops) \<inter> db_keys d = {} \<and>
      inj_on (\<lambda>(i, v). dir_path sha3 i v) (set (mkdir_keys ops) \<union> db_keys d))"

text \<open>Inside a commit: what holds after every step, and what holds after every operation. \<open>K\<close> are the keys used so far, \<open>D\<close> those
  of removed directories.\<close>

definition safe :: "(bytes \<Rightarrow> hash_id) \<Rightarrow> storage_db \<Rightarrow> (string \<times> bytes) list \<Rightarrow> local_storage \<Rightarrow> bool" where
  "safe sha3 d0 f0 s =
     (ls_saved s = Some d0 \<and> files_ok sha3 d0 (ls_dirfiles s) \<and> dirs_of sha3 d0 (ls_dirfiles s) = dirs_of sha3 d0 f0)"

definition good ::
  "(bytes \<Rightarrow> hash_id) \<Rightarrow> storage_db \<Rightarrow> (string \<times> bytes) list \<Rightarrow> (hash_id \<times> hash_id) set \<Rightarrow> (hash_id \<times> hash_id) set \<Rightarrow> local_storage \<Rightarrow> bool" where
  "good sha3 d0 f0 K D s =
     (safe sha3 d0 f0 s \<and> files_ok sha3 (ls_db s) (ls_dirfiles s) \<and> db_keys (ls_db s) \<subseteq> K - D \<and> db_keys d0 \<subseteq> K \<and> D \<subseteq> K \<and>
      (\<forall>i r r0. map_of (ld_dirs (ls_db s)) i = Some r \<and> map_of (ld_dirs d0) i = Some r0 \<and> dr_ver r0 = dr_ver r \<longrightarrow>
         dr_length r0 \<le> dr_length r))"

abbreviation cur_store :: "(bytes \<Rightarrow> hash_id) \<Rightarrow> local_storage \<Rightarrow> store" where
  "cur_store sha3 s \<equiv> store_of sha3 (ls_db s) (ls_dirfiles s)"

fun rmdir_key :: "tx_op \<Rightarrow> (hash_id \<times> hash_id) list" where
  "rmdir_key (Rmdir i ver _) = [(i, ver)]"
| "rmdir_key _ = []"

definition no_faults :: "ls_faults \<Rightarrow> bool" where
  "no_faults flt = (\<forall>n. flt n = None)"

section \<open>Lemmas\<close>

subsection \<open>Weakest preconditions of steps\<close>

definition wp :: "'a ls \<Rightarrow> ('a \<Rightarrow> local_storage \<Rightarrow> bool) \<Rightarrow> (error \<Rightarrow> local_storage \<Rightarrow> bool) \<Rightarrow> local_storage \<Rightarrow> bool" where
  "wp m Q E s = (case m s of (s1, Inl e) \<Rightarrow> E e s1 | (s1, Inr a) \<Rightarrow> Q a s1)"

lemma wp_simps:
  "wp (ls_ok a) Q E s = Q a s" "wp (ls_err e) Q E s = E e s"
  "wp (ls_bind m f) Q E s = wp m (\<lambda>a. wp (f a) Q E) E s"
  by (auto simp: wp_def ls_ok_def ls_err_def ls_bind_def split: prod.split sum.split)

lemma wp_sql:
  "wp (sql_step flt f) Q E s =
     ((\<forall>e k. flt (ls_count s) = Some (e, k) \<longrightarrow> E (err (Sqlite e)) (tick s)) \<and>
      (flt (ls_count s) = None \<longrightarrow> Q (snd (f (ls_db s))) ((tick s)\<lparr>ls_db := fst (f (ls_db s))\<rparr>)))"
  by (auto simp: wp_def sql_step_def split: option.split prod.split)

lemma wp_io:
  "wp (io_step flt g f) Q E s =
     ((\<forall>e k. flt (ls_count s) = Some (e, k) \<longrightarrow> E (err (Io e)) (g k (tick s))) \<and>
      (flt (ls_count s) = None \<longrightarrow> wp f Q E (tick s)))"
  by (auto simp: wp_def io_step_def split: option.split)

lemma wp_pure: "wp (\<lambda>s. (f s, Inr a)) Q E s = Q a (f s)"
  by (simp add: wp_def)

lemma wp_if: "wp (\<lambda>s. if b s then m s else n s) Q E s = (if b s then wp m Q E s else wp n Q E s)"
  by (simp add: wp_def)

lemma wp_mono: "wp m Q E s \<Longrightarrow> (\<And>a s. Q a s \<Longrightarrow> Q' a s) \<Longrightarrow> (\<And>e s. E e s \<Longrightarrow> E' e s) \<Longrightarrow> wp m Q' E' s"
  by (auto simp: wp_def split: prod.splits sum.splits)

lemma tick_simps [simp]:
  "ls_db (tick s) = ls_db s" "ls_saved (tick s) = ls_saved s" "ls_dirfiles (tick s) = ls_dirfiles s"
  "ls_objfiles (tick s) = ls_objfiles s" "ls_txns (tick s) = ls_txns s" "ls_watch (tick s) = ls_watch s"
  by (simp_all add: tick_def)

text \<open>The count of steps is moved out of the way: predicates on storages do not look at it.\<close>

lemma tick_out [simp]:
  "(tick s)\<lparr>ls_db := d\<rparr> = tick (s\<lparr>ls_db := d\<rparr>)" "(tick s)\<lparr>ls_dirfiles := f\<rparr> = tick (s\<lparr>ls_dirfiles := f\<rparr>)"
  "(tick s)\<lparr>ls_objfiles := f\<rparr> = tick (s\<lparr>ls_objfiles := f\<rparr>)" "(tick s)\<lparr>ls_saved := x\<rparr> = tick (s\<lparr>ls_saved := x\<rparr>)"
  "upd_dirfile p g (tick s) = tick (upd_dirfile p g s)"
  by (simp_all add: tick_def upd_dirfile_def split: option.split)

lemma wp_quiet:
  "wp (io_quiet flt) Q E s =
     ((\<forall>e k. flt (ls_count s) = Some (e, k) \<longrightarrow> E (err (Io e)) (tick s)) \<and> (flt (ls_count s) = None \<longrightarrow> Q () (tick s)))"
  by (simp add: io_quiet_def wp_io wp_pure)

lemmas wps = wp_simps wp_sql wp_io wp_pure wp_quiet wp_if

lemma blind [simp]: "safe sha3 d0 f0 (tick s) = safe sha3 d0 f0 s" "good sha3 d0 f0 K D (tick s) = good sha3 d0 f0 K D s"
  by (simp_all add: safe_def good_def)

text \<open>What a failing step and a finished operation guarantee.\<close>

definition fails_safely :: "(bytes \<Rightarrow> hash_id) \<Rightarrow> ls_faults \<Rightarrow> storage_db \<Rightarrow> (string \<times> bytes) list \<Rightarrow> store option res \<Rightarrow> error \<Rightarrow> local_storage \<Rightarrow> bool" where
  "fails_safely sha3 flt d0 f0 spec e s = (safe sha3 d0 f0 s \<and> (no_faults flt \<longrightarrow> spec = Inl e))"

definition op_done ::
  "(bytes \<Rightarrow> hash_id) \<Rightarrow> storage_db \<Rightarrow> (string \<times> bytes) list \<Rightarrow> (hash_id \<times> hash_id) set \<Rightarrow> (hash_id \<times> hash_id) set \<Rightarrow> store option res \<Rightarrow>
   tx_op \<Rightarrow> bool \<times> tx_op \<Rightarrow> local_storage \<Rightarrow> bool" where
  "op_done sha3 d0 f0 K D spec op r s =
     (safe sha3 d0 f0 s \<and> spec = Inr (if fst r then Some (cur_store sha3 s) else None) \<and>
      (fst r \<longrightarrow> good sha3 d0 f0 (K \<union> set (mkdir_key op)) (D \<union> set (rmdir_key (snd r))) s))"

lemma fails_fault: "flt n = Some x \<Longrightarrow> safe sha3 d0 f0 s \<Longrightarrow> fails_safely sha3 flt d0 f0 spec e s"
  by (auto simp: fails_safely_def no_faults_def)

lemma blind_done [simp]:
  "op_done sha3 d0 f0 K D spec op r (tick s) = op_done sha3 d0 f0 K D spec op r s"
  "fails_safely sha3 flt d0 f0 spec e (tick s) = fails_safely sha3 flt d0 f0 spec e s"
  by (simp_all add: op_done_def fails_safely_def)

subsection \<open>Files\<close>

lemma prefix_kept:
  assumes "\<And>i r c. map_of (ld_dirs d) i = Some r \<Longrightarrow> map_of files (dir_path sha3 i (dr_ver r)) = Some c \<Longrightarrow>
      \<exists>c'. map_of files' (dir_path sha3 i (dr_ver r)) = Some c' \<and> take (nat (dr_length r)) c' = take (nat (dr_length r)) c \<and>
        length c \<le> length c'"
    and "files_ok sha3 d files"
  shows "files_ok sha3 d files'" "dirs_of sha3 d files' = dirs_of sha3 d files"
proof -
  show "files_ok sha3 d files'"
    using assms unfolding files_ok_def by (smt (verit, best) of_nat_mono)
  show "dirs_of sha3 d files' = dirs_of sha3 d files"
  proof
    fix i
    show "dirs_of sha3 d files' i = dirs_of sha3 d files i"
    proof (cases "map_of (ld_dirs d) i")
      case (Some r)
      with assms(2) obtain c where c: "map_of files (dir_path sha3 i (dr_ver r)) = Some c" unfolding files_ok_def by blast
      from assms(1) [OF Some c] c Some show ?thesis by (auto simp: dirs_of_def)
    qed (simp add: dirs_of_def)
  qed
qed

lemma write_at_prefix: "n \<le> off \<Longrightarrow> off \<le> length c \<Longrightarrow> take n (write_at off d c) = take n c"
  by (simp add: write_at_def min_def)

lemma write_at_length: "length c \<le> length (write_at off d c)"
  by (auto simp: write_at_def min_def)

lemma write_at_whole: "off \<le> length c \<Longrightarrow> take (off + length d) (write_at off d c) = take off c @ d"
  by (simp add: write_at_def)

lemma paths_differ:
  "inj_on (\<lambda>(i, v). dir_path sha3 i v) K \<Longrightarrow> (i, v) \<in> K \<Longrightarrow> (j, w) \<in> K \<Longrightarrow> dir_path sha3 i v = dir_path sha3 j w \<Longrightarrow> i = j \<and> v = w"
  using inj_onD [of "\<lambda>(i, v). dir_path sha3 i v" K "(i, v)" "(j, w)"] by simp

lemma db_keysI: "map_of (ld_dirs d) i = Some r \<Longrightarrow> (i, dr_ver r) \<in> db_keys d"
  by (auto simp: db_keys_def)

text \<open>Moving a file to a name that is not in use.\<close>

lemma persist_new:
  assumes "db_keys d \<subseteq> K" "k \<notin> K" "inj_on (\<lambda>(i, v). dir_path sha3 i v) (insert k K)" "files_ok sha3 d files"
    "p = dir_path sha3 (fst k) (snd k)"
  shows "files_ok sha3 d (AList.update p c files)" "dirs_of sha3 d (AList.update p c files) = dirs_of sha3 d files"
proof -
  have "dir_path sha3 i (dr_ver r) \<noteq> p" if "map_of (ld_dirs d) i = Some r" for i r
    using paths_differ [OF assms(3), of i "dr_ver r" "fst k" "snd k"] assms(1,2,5) db_keysI [OF that] by auto
  then show "files_ok sha3 d (AList.update p c files)" "dirs_of sha3 d (AList.update p c files) = dirs_of sha3 d files"
    using prefix_kept [OF _ assms(4), of "AList.update p c files"] by (auto simp: update_conv')
qed

text \<open>Appending to the file of a directory, at or after the committed length.\<close>

lemma append_kept:
  assumes "db_keys d \<subseteq> K" "(i, ver) \<in> K" "inj_on (\<lambda>(i, v). dir_path sha3 i v) K" "files_ok sha3 d (ls_dirfiles s)"
    and "\<And>r. map_of (ld_dirs d) i = Some r \<Longrightarrow> dr_ver r = ver \<Longrightarrow> nat (dr_length r) \<le> off"
    and "map_of (ls_dirfiles s) (dir_path sha3 i ver) = Some c" "off \<le> length c"
  shows "files_ok sha3 d (ls_dirfiles (upd_dirfile (dir_path sha3 i ver) (write_at off x) s))"
    "dirs_of sha3 d (ls_dirfiles (upd_dirfile (dir_path sha3 i ver) (write_at off x) s)) = dirs_of sha3 d (ls_dirfiles s)"
proof -
  let ?p = "dir_path sha3 i ver" and ?f = "ls_dirfiles (upd_dirfile (dir_path sha3 i ver) (write_at off x) s)"
  have f: "?f = AList.update ?p (write_at off x c) (ls_dirfiles s)" using assms(6) by (simp add: upd_dirfile_def)
  have "\<exists>c'. map_of ?f (dir_path sha3 j (dr_ver r)) = Some c' \<and> take (nat (dr_length r)) c' = take (nat (dr_length r)) b \<and>
      length b \<le> length c'"
    if r: "map_of (ld_dirs d) j = Some r" "map_of (ls_dirfiles s) (dir_path sha3 j (dr_ver r)) = Some b" for j r b
  proof (cases "dir_path sha3 j (dr_ver r) = ?p")
    case True
    with assms(1-3) db_keysI [OF r(1)] have "j = i" "dr_ver r = ver"
      using paths_differ [OF assms(3)] by blast+
    with r assms(5-7) f show ?thesis by (auto simp: update_conv' write_at_prefix write_at_length)
  qed (use r f in \<open>auto simp: update_conv'\<close>)
  from prefix_kept [OF this assms(4)]
  show "files_ok sha3 d ?f" "dirs_of sha3 d ?f = dirs_of sha3 d (ls_dirfiles s)" by blast+
qed

end
