(* ===== verification/Storage_Commit.thy ===== *)
theory Storage_Commit
  imports Local_Storage
begin

text \<open>
  A commit of the local storage is atomic: each operation is followed through its steps, with a fault possible at
  every one, and related to the abstract operation.
\<close>

section \<open>Lemmas\<close>

subsection \<open>The operations\<close>

lemma goodD:
  assumes "good sha3 d0 f0 K D s"
  shows "safe sha3 d0 f0 s" "files_ok sha3 (ls_db s) (ls_dirfiles s)" "db_keys (ls_db s) \<subseteq> K - D" "db_keys d0 \<subseteq> K" "D \<subseteq> K"
    "map_of (ld_dirs (ls_db s)) i = Some r \<Longrightarrow> map_of (ld_dirs d0) i = Some r0 \<Longrightarrow> dr_ver r0 = dr_ver r \<Longrightarrow> dr_length r0 \<le> dr_length r"
  using assms by (auto simp: good_def)

lemma db_keys_iff: "(i, v) \<in> db_keys d \<longleftrightarrow> (\<exists>r. map_of (ld_dirs d) i = Some r \<and> v = dr_ver r)"
  by (auto simp: db_keys_def)

lemma length_take_iff: "0 \<le> l \<Longrightarrow> l \<le> int (length c) \<Longrightarrow> length (take (nat l) c) = n \<longleftrightarrow> l = int n"
  by auto

lemma uint_le: "uint (w :: 32 word) \<le> int n \<Longrightarrow> unat w \<le> n"
  by (metis nat_int nat_mono unat_eq_nat_uint)

lemma wp_test: "wp (\<lambda>s. (s, if b s then Inl e else Inr a)) Q E s = (if b s then E e s else Q a s)"
  by (simp add: wp_def)

lemma wp_tick: "wp (\<lambda>s. m (tick s)) Q E s = wp m Q E (tick s)"
  by (simp add: wp_def)

lemma fails_safely_fault: "flt n = Some x \<Longrightarrow> fails_safely sha3 flt d0 f0 spec e s = safe sha3 d0 f0 s"
  by (auto simp: fails_safely_def no_faults_def)

lemma mkdir_done:
  assumes g: "good sha3 d0 f0 K D s" and v: "length ver = 32" "(i, ver) \<notin> K" "inj_on (\<lambda>(i, v). dir_path sha3 i v) (insert (i, ver) K)"
    and op_def: "op = Mkdir i ver sver c"
  shows "wp (commit_op sha3 flt op) (op_done sha3 d0 f0 K D (apply_op op (cur_store sha3 s)) op)
    (fails_safely sha3 flt d0 f0 (apply_op op (cur_store sha3 s))) s"
proof (cases "map_of (ld_dirs (ls_db s)) i")
  case (Some r)
  with goodD(1) [OF g] show ?thesis
    unfolding op_def commit_op.simps wps
    by (simp add: wps fails_safely_fault dirs_of_def store_of_def op_done_def)
next
  case None
  let ?row = "\<lparr>dr_ver = ver, dr_sver = sver, dr_length = int (length c)\<rparr>" and ?p = "dir_path sha3 i ver"
  let ?d = "(ls_db s)\<lparr>ld_dirs := (i, ?row) # ld_dirs (ls_db s)\<rparr>" and ?f = "AList.update ?p c (ls_dirfiles s)"
  have p: "?p = dir_path sha3 (fst (i, ver)) (snd (i, ver))" by simp
  note new = persist_new [OF _ v(2,3) _ p, where c = c and files = "ls_dirfiles s"]
  have sf: "safe sha3 d0 f0 (s\<lparr>ls_db := ?d\<rparr>)" "safe sha3 d0 f0 (s\<lparr>ls_db := ?d, ls_dirfiles := ?f\<rparr>)"
    using goodD(1) [OF g] new [OF goodD(4) [OF g]] by (simp_all add: safe_def)
  have "db_keys (ls_db s) \<subseteq> K" using goodD(3) [OF g] by blast
  note cur = new [OF this goodD(2) [OF g]]
  have fo: "files_ok sha3 ?d ?f" using cur(1) v(1) by (auto simp: files_ok_def update_conv' split: if_split_asm)
  have do: "dirs_of sha3 ?d ?f = (dirs_of sha3 (ls_db s) (ls_dirfiles s))(i \<mapsto> (ver, sver, c))"
    unfolding cur(2) [symmetric] by (auto simp: dirs_of_def fun_eq_iff update_conv')
  have k: "db_keys ?d = insert (i, ver) (db_keys (ls_db s))" 
  proof (rule set_eqI)
    fix x
    show "x \<in> db_keys ?d \<longleftrightarrow> x \<in> insert (i, ver) (db_keys (ls_db s))"
      using None by (cases x; cases "fst x = i") (simp_all add: db_keys_iff)
  qed
  have "map_of (ld_dirs d0) i = Some r0 \<Longrightarrow> dr_ver r0 \<noteq> ver" for r0 using v(2) goodD(4) [OF g] db_keysI by blast
  then have "good sha3 d0 f0 (insert (i, ver) K) D (s\<lparr>ls_db := ?d, ls_dirfiles := ?f\<rparr>)"
    using sf(2) fo goodD(3-6) [OF g] v(2) unfolding good_def by (auto simp: k)
  moreover have "apply_op op (cur_store sha3 s) = Inr (Some (store_of sha3 ?d ?f))"
    using None do by (simp add: op_def store_of_def dirs_of_def [of _ _ _ i])
  ultimately have fin: "op_done sha3 d0 f0 K D (apply_op op (cur_store sha3 s)) op (True, op) (s\<lparr>ls_db := ?d, ls_dirfiles := ?f\<rparr>)"
    using sf(2) by (simp add: op_done_def op_def)
  show ?thesis
    unfolding op_def commit_op.simps write_temp_def persist_dir_def wps
    using fin sf goodD(1) [OF g] by (simp add: None wps fails_safely_fault op_def)
qed

text \<open>Finding the version is the condition of the abstract operation.\<close>

lemma modifiable_row:
  assumes "files_ok sha3 d files"
  shows "modifiable (store_of sha3 d files) i sv old_len =
    (case map_of (ld_dirs d) i of
       None \<Rightarrow> None
     | Some r \<Rightarrow> if dr_sver r = sv \<and> dr_length r = uint old_len
         then Some (dr_ver r, take (unat old_len) (the (map_of files (dir_path sha3 i (dr_ver r))))) else None)"
proof (cases "map_of (ld_dirs d) i")
  case (Some r)
  with assms obtain c where c: "map_of files (dir_path sha3 i (dr_ver r)) = Some c" "0 \<le> dr_length r" "dr_length r \<le> int (length c)"
    unfolding files_ok_def by blast
  then have "length (take (nat (dr_length r)) c) = unat old_len \<longleftrightarrow> dr_length r = uint old_len"
    using length_take_iff [of "dr_length r" c "unat old_len"] by simp
  moreover have "dr_length r = uint old_len \<Longrightarrow> nat (dr_length r) = unat old_len" by simp
  ultimately show ?thesis using Some c by (simp add: modifiable_def store_of_def dirs_of_def)
qed (simp add: modifiable_def store_of_def dirs_of_def)

lemma wp_get_ver:
  assumes "files_ok sha3 (ls_db s) (ls_dirfiles s)"
  shows "wp (get_ver_for_modify flt i sv old_len) Q E s =
    ((\<forall>e k. flt (ls_count s) = Some (e, k) \<longrightarrow> E (err (Sqlite e)) (tick s)) \<and>
     (flt (ls_count s) = None \<longrightarrow> Q (map_option fst (modifiable (cur_store sha3 s) i sv old_len)) (tick s)))"
proof (cases "map_of (ld_dirs (ls_db s)) i")
  case (Some r)
  with assms have "length (dr_ver r) = 32" by (auto simp: files_ok_def)
  with Some show ?thesis by (auto simp: get_ver_for_modify_def wps modifiable_row [OF assms])
qed (auto simp: get_ver_for_modify_def wps modifiable_row [OF assms])

lemma modifiableD:
  assumes "modifiable (store_of sha3 d files) i sv old_len = Some (v, c)" "files_ok sha3 d files"
  obtains r f where "map_of (ld_dirs d) i = Some r" "dr_ver r = v" "dr_sver r = sv" "dr_length r = uint old_len"
    "map_of files (dir_path sha3 i v) = Some f" "c = take (unat old_len) f" "unat old_len \<le> length f"
proof -
  from assms obtain r where r: "map_of (ld_dirs d) i = Some r" "dr_ver r = v" "dr_sver r = sv" "dr_length r = uint old_len"
    "c = take (unat old_len) (the (map_of files (dir_path sha3 i v)))"
    by (auto simp: modifiable_row split: option.split_asm if_split_asm)
  from assms(2) r obtain f where f: "map_of files (dir_path sha3 i v) = Some f" "dr_length r \<le> int (length f)"
    unfolding files_ok_def by blast
  from that [OF r(1-4) f(1)] r(4,5) f uint_le [of old_len "length f"] show ?thesis by simp
qed

lemma map_of_upd_row:
  "map_of (map (\<lambda>(j, r). (j, if j = i then g r else r)) xs) j = (if j = i then map_option g (map_of xs j) else map_of xs j)"
  by (induction xs) auto

lemma updir_done:
  assumes g: "good sha3 d0 f0 K D s" and inj: "inj_on (\<lambda>(i, v). dir_path sha3 i v) K" and op_def: "op = Updir i sv old_len x"
  shows "wp (commit_op sha3 flt op) (op_done sha3 d0 f0 K D (apply_op op (cur_store sha3 s)) op)
    (fails_safely sha3 flt d0 f0 (apply_op op (cur_store sha3 s))) s"
proof (cases "modifiable (cur_store sha3 s) i sv old_len")
  case None
  with goodD(1) [OF g] show ?thesis
    unfolding op_def commit_op.simps wps wp_get_ver [OF goodD(2) [OF g]]
    by (simp add: wps fails_safely_fault op_done_def)
next
  case (Some vc)
  obtain v c where vc: "vc = (v, c)" by force
  from modifiableD [OF Some [unfolded vc] goodD(2) [OF g]] obtain r f where
    r: "map_of (ld_dirs (ls_db s)) i = Some r" "dr_ver r = v" "dr_sver r = sv" "dr_length r = uint old_len"
    and f: "map_of (ls_dirfiles s) (dir_path sha3 i v) = Some f" "c = take (unat old_len) f" "unat old_len \<le> length f" .
  let ?p = "dir_path sha3 i v" and ?off = "unat old_len"
  let ?d = "(ls_db s)\<lparr>ld_dirs := map (\<lambda>(j, r). (j, if j = i then r\<lparr>dr_length := int (?off + length x)\<rparr> else r)) (ld_dirs (ls_db s))\<rparr>"
  have key: "(i, v) \<in> K" using goodD(3) [OF g] db_keysI [OF r(1)] r(2) by auto
  have len0: "nat (dr_length r0) \<le> ?off" if "map_of (ld_dirs d0) i = Some r0" "dr_ver r0 = v" for r0
    using goodD(6) [OF g r(1) that(1)] that(2) r(2,4) by (metis nat_mono unat_eq_nat_uint)
  let ?f = "\<lambda>y. AList.update ?p (write_at ?off y f) (ls_dirfiles s)"
  have upd: "upd_dirfile ?p (write_at ?off y) (s\<lparr>ls_db := ?d\<rparr>) = s\<lparr>ls_db := ?d, ls_dirfiles := ?f y\<rparr>" for y
    by (simp add: upd_dirfile_def f(1))
  have app: "files_ok sha3 d (?f y) \<and> dirs_of sha3 d (?f y) = dirs_of sha3 d (ls_dirfiles s)"
    if "files_ok sha3 d (ls_dirfiles s)" "db_keys d \<subseteq> K"
      "\<And>r. map_of (ld_dirs d) i = Some r \<Longrightarrow> dr_ver r = v \<Longrightarrow> nat (dr_length r) \<le> ?off" for d y
    using append_kept [OF that(2) key inj that(1,3) f(1,3), of y] by (simp add: upd_dirfile_def f(1))
  have s0: "safe sha3 d0 f0 (s\<lparr>ls_db := ?d\<rparr>)" using goodD(1) [OF g] by (simp add: safe_def)
  have sf: "safe sha3 d0 f0 (s\<lparr>ls_db := ?d, ls_dirfiles := ?f y\<rparr>)" for y
  proof -
    note s1 = goodD(1) [OF g, unfolded safe_def]
    from s1 have "files_ok sha3 d0 (ls_dirfiles s)" by blast
    from app [OF this goodD(4) [OF g] len0, of y] s1 show ?thesis unfolding safe_def by simp
  qed
  have "db_keys (ls_db s) \<subseteq> K" using goodD(3) [OF g] by blast
  moreover have "nat (dr_length r) \<le> ?off" using r(4) by simp
  ultimately have cur: "files_ok sha3 (ls_db s) (?f x)" "dirs_of sha3 (ls_db s) (?f x) = dirs_of sha3 (ls_db s) (ls_dirfiles s)"
    using app [OF goodD(2) [OF g]] r(1) by auto
  have md: "map_of (ld_dirs ?d) j = (if j = i then Some (r\<lparr>dr_length := int (?off + length x)\<rparr>) else map_of (ld_dirs (ls_db s)) j)" for j
    using r(1) by (simp add: map_of_upd_row)
  have "?off + length x \<le> length (write_at ?off x f)" using f(3) by (simp add: write_at_def)
  then have "int (?off + length x) \<le> int (length (write_at ?off x f))" by (rule of_nat_mono)
  then have lw: "uint old_len + int (length x) \<le> int (length (write_at ?off x f))" by simp
  have fo: "files_ok sha3 ?d (?f x)"
    using cur(1) r(1,2) lw unfolding files_ok_def md by (auto simp: update_conv' simp del: map_of_map)
  have do: "dirs_of sha3 ?d (?f x) = (dirs_of sha3 (ls_db s) (ls_dirfiles s))(i \<mapsto> (v, sv, c @ x))"
  proof
    fix j
    show "dirs_of sha3 ?d (?f x) j = ((dirs_of sha3 (ls_db s) (ls_dirfiles s))(i \<mapsto> (v, sv, c @ x))) j"
      unfolding cur(2) [symmetric] dirs_of_def [of sha3 ?d] md
      using r f write_at_whole [OF f(3), of x] by (simp add: dirs_of_def update_conv' nat_add_distrib del: map_of_map)
  qed
  have "db_keys ?d = db_keys (ls_db s)"
  proof (rule set_eqI)
    fix y
    show "y \<in> db_keys ?d \<longleftrightarrow> y \<in> db_keys (ls_db s)"
      using r(1) by (cases y; cases "fst y = i") (simp_all add: db_keys_iff map_of_upd_row del: map_of_map)
  qed
  moreover have "dr_length r0 \<le> uint old_len + int (length x)" if "map_of (ld_dirs d0) i = Some r0" "dr_ver r0 = dr_ver r" for r0
    using goodD(6) [OF g r(1) that] r(4) by simp
  ultimately have "good sha3 d0 f0 K D (s\<lparr>ls_db := ?d, ls_dirfiles := ?f x\<rparr>)"
    using sf [of x] fo goodD(3-6) [OF g] r unfolding good_def by (auto simp: map_of_upd_row simp del: map_of_map split: if_split_asm)
  moreover have "apply_op op (cur_store sha3 s) = Inr (Some (store_of sha3 ?d (?f x)))" if "\<not> U32_MAX - ?off < length x"
    using Some vc do that by (simp add: op_def store_of_def)
  ultimately have fin: "op_done sha3 d0 f0 K D (apply_op op (cur_store sha3 s)) op (True, op) (s\<lparr>ls_db := ?d, ls_dirfiles := ?f x\<rparr>)"
    if "\<not> U32_MAX - ?off < length x"
    using sf that by (simp add: op_done_def op_def)
  show ?thesis
  proof (cases "U32_MAX - ?off < length x")
    case True
    then have "apply_op op (cur_store sha3 s) = Inl (err DirectoryTooLarge)" using Some vc by (simp add: op_def)
    then show ?thesis
      unfolding op_def commit_op.simps wps wp_get_ver [OF goodD(2) [OF g]]
      using True Some vc goodD(1) [OF g] by (simp add: wps fails_safely_fault) (simp add: fails_safely_def)
  next
    case False
    show ?thesis
      unfolding op_def commit_op.simps append_dir_def wps wp_get_ver [OF goodD(2) [OF g]]
      using False Some vc goodD(1) [OF g] s0 sf fin [OF False] f(1)
      by (simp add: wps wp_test fails_safely_fault upd op_def)
  qed
qed

lemma rmdir_done:
  assumes g: "good sha3 d0 f0 K D s" and op_def: "op = Rmdir i sv old_len"
  shows "wp (commit_op sha3 flt op) (op_done sha3 d0 f0 K D (apply_op op (cur_store sha3 s)) op)
    (fails_safely sha3 flt d0 f0 (apply_op op (cur_store sha3 s))) s"
proof (cases "modifiable (cur_store sha3 s) i sv old_len")
  case None
  with goodD(1) [OF g] show ?thesis
    unfolding op_def commit_op.simps wps wp_get_ver [OF goodD(2) [OF g]]
    by (simp add: wps fails_safely_fault op_done_def)
next
  case (Some vc)
  obtain v c where vc: "vc = (v, c)" by force
  from modifiableD [OF Some [unfolded vc] goodD(2) [OF g]] obtain r where
    r: "map_of (ld_dirs (ls_db s)) i = Some r" "dr_ver r = v" by metis
  let ?d = "(ls_db s)\<lparr>ld_dirs := AList.delete i (ld_dirs (ls_db s))\<rparr>"
  have md: "map_of (ld_dirs ?d) j = (if j = i then None else map_of (ld_dirs (ls_db s)) j)" for j by (simp add: delete_conv')
  have sf: "safe sha3 d0 f0 (s\<lparr>ls_db := ?d\<rparr>)" using goodD(1) [OF g] by (simp add: safe_def)
  have "db_keys ?d \<subseteq> db_keys (ls_db s) - {(i, v)}"
  proof (rule subsetI)
    fix y
    assume "y \<in> db_keys ?d"
    then show "y \<in> db_keys (ls_db s) - {(i, v)}"
      by (cases y; cases "fst y = i") (auto simp: db_keys_iff delete_conv' simp del: map_of_delete)
  qed
  moreover have "(i, v) \<in> K" using goodD(3) [OF g] db_keysI [OF r(1)] r(2) by auto
  moreover have "files_ok sha3 ?d (ls_dirfiles s)" using goodD(2) [OF g] unfolding files_ok_def md by (auto split: if_split_asm)
  ultimately have "good sha3 d0 f0 K (insert (i, v) D) (s\<lparr>ls_db := ?d\<rparr>)"
    using sf goodD(3-6) [OF g] unfolding good_def by (auto simp: delete_conv' split: if_split_asm)
  moreover have "apply_op op (cur_store sha3 s) = Inr (Some (store_of sha3 ?d (ls_dirfiles s)))"
    using Some by (auto simp: op_def store_of_def dirs_of_def fun_eq_iff delete_conv')
  ultimately have "op_done sha3 d0 f0 K D (apply_op op (cur_store sha3 s)) op (True, Rmdir i v old_len) (s\<lparr>ls_db := ?d\<rparr>)"
    using sf by (simp add: op_done_def op_def)
  then show ?thesis
    unfolding op_def commit_op.simps wps wp_get_ver [OF goodD(2) [OF g]]
    using Some vc goodD(1) [OF g] sf by (simp add: wps fails_safely_fault op_def)
qed

text \<open>References.\<close>

lemma objfiles_blind [simp]:
  "safe sha3 d0 f0 (s\<lparr>ls_objfiles := f\<rparr>) = safe sha3 d0 f0 s" "good sha3 d0 f0 K D (s\<lparr>ls_objfiles := f\<rparr>) = good sha3 d0 f0 K D s"
  "op_done sha3 d0 f0 K D spec op r (s\<lparr>ls_objfiles := f\<rparr>) = op_done sha3 d0 f0 K D spec op r s"
  by (simp_all add: safe_def good_def op_done_def)

definition ref_db :: "hash_id \<Rightarrow> hash_id \<Rightarrow> storage_db \<Rightarrow> storage_db" where
  "ref_db i l d =
     (case map_of (ld_objs d) i of
        Some refs \<Rightarrow> d\<lparr>ld_objs := AList.update i (xor_into refs l) (ld_objs d)\<rparr>
      | None \<Rightarrow> d\<lparr>ld_objs := (i, l) # ld_objs d\<rparr>)"

lemma ref_db_good:
  assumes g: "good sha3 d0 f0 K D s" and l: "length l = 32"
  shows "good sha3 d0 f0 K D (s\<lparr>ls_db := ref_db i l (ls_db s)\<rparr>)"
    "store_of sha3 (ref_db i l (ls_db s)) (ls_dirfiles s) = add_ref i l (cur_store sha3 s)"
proof -
  have d: "ld_dirs (ref_db i l d) = ld_dirs d" "map_of (ld_objs (ref_db i l d)) =
    (map_of (ld_objs d))(i \<mapsto> case map_of (ld_objs d) i of None \<Rightarrow> l | Some refs \<Rightarrow> xor_into refs l)" for d
    by (auto simp: ref_db_def update_conv' fun_eq_iff split: option.split)
  show "store_of sha3 (ref_db i l (ls_db s)) (ls_dirfiles s) = add_ref i l (cur_store sha3 s)"
    by (auto simp: store_of_def dirs_of_def add_ref_def d fun_eq_iff)
  have "files_ok sha3 (ref_db i l (ls_db s)) (ls_dirfiles s)"
    using goodD(2) [OF g] l by (auto simp: files_ok_def d split: option.split if_split_asm)
  moreover have "safe sha3 d0 f0 (s\<lparr>ls_db := ref_db i l (ls_db s)\<rparr>)" using goodD(1) [OF g] by (simp add: safe_def)
  moreover have "db_keys (ref_db i l (ls_db s)) = db_keys (ls_db s)" by (simp add: db_keys_def d)
  ultimately show "good sha3 d0 f0 K D (s\<lparr>ls_db := ref_db i l (ls_db s)\<rparr>)"
    using goodD(3-6) [OF g] unfolding good_def by (simp add: d) blast
qed

lemma wp_update_ref:
  assumes "good sha3 d0 f0 K D s"
    and "Q () (tick (tick (s\<lparr>ls_db := ref_db i l (ls_db s)\<rparr>)))"
  shows "wp (update_ref flt i l) Q (fails_safely sha3 flt d0 f0 spec) s"
proof (cases "map_of (ld_objs (ls_db s)) i")
  case (Some refs)
  with goodD(2) [OF assms(1)] have "length refs = 32" by (auto simp: files_ok_def)
  with Some assms(2) goodD(1) [OF assms(1)] show ?thesis
    unfolding update_ref_def wps by (simp add: wps fails_safely_fault ref_db_def)
next
  case None
  with assms(2) goodD(1) [OF assms(1)] show ?thesis
    unfolding update_ref_def wps by (simp add: wps fails_safely_fault ref_db_def)
qed

lemma ref_op_done:
  assumes g: "good sha3 d0 f0 K D s" and l: "length l = 32" and op: "op = UnlinkObj i l \<or> op = LinkObj i l h"
  shows "op_done sha3 d0 f0 K D (apply_op op (cur_store sha3 s)) op (True, op) (s\<lparr>ls_db := ref_db i l (ls_db s)\<rparr>)"
  using op ref_db_good [OF g l, of i] goodD(1) [OF ref_db_good(1) [OF g l, of i]] by (auto simp: op_done_def)

lemma unlink_done:
  assumes g: "good sha3 d0 f0 K D s" "length l = 32" and op_def: "op = UnlinkObj i l"
  shows "wp (commit_op sha3 flt op) (op_done sha3 d0 f0 K D (apply_op op (cur_store sha3 s)) op)
    (fails_safely sha3 flt d0 f0 (apply_op op (cur_store sha3 s))) s"
  unfolding op_def commit_op.simps wp_simps
  by (rule wp_update_ref [OF g(1)]) (use ref_op_done [OF g, of "UnlinkObj i l" i] in \<open>simp add: wps\<close>)

lemma link_done:
  assumes g: "good sha3 d0 f0 K D s" "length l = 32" and op_def: "op = LinkObj i l h"
  shows "wp (commit_op sha3 flt op) (op_done sha3 d0 f0 K D (apply_op op (cur_store sha3 s)) op)
    (fails_safely sha3 flt d0 f0 (apply_op op (cur_store sha3 s))) s"
  unfolding op_def commit_op.simps wp_simps
proof (rule wp_update_ref [OF g(1)])
  note fin = ref_op_done [OF g, of "LinkObj i l h" i h] and sf = goodD(1) [OF ref_db_good(1) [OF g, of i]]
  show "wp (\<lambda>s. if flt (ls_count s) = None \<and> map_of (ls_objfiles s) (obj_path i) \<noteq> None then (tick s, Inr (True, LinkObj i l h))
       else ls_bind (write_temp flt) (\<lambda>_. ls_bind (persist_obj flt (obj_path i) h) (\<lambda>_. ls_ok (True, LinkObj i l h))) (tick s))
     (op_done sha3 d0 f0 K D (apply_op (LinkObj i l h) (cur_store sha3 s)) (LinkObj i l h))
     (fails_safely sha3 flt d0 f0 (apply_op (LinkObj i l h) (cur_store sha3 s)))
     (tick (tick (s\<lparr>ls_db := ref_db i l (ls_db s)\<rparr>)))"
    unfolding wp_if wp_pure wp_tick write_temp_def persist_obj_def wps
    using fin sf by (simp add: wps fails_safely_fault)
qed

text \<open>All operations.\<close>

lemma commit_op_done:
  assumes "good sha3 d0 f0 K D s" "op_typed op" "set (mkdir_key op) \<inter> K = {}" "inj_on (\<lambda>(i, v). dir_path sha3 i v) (set (mkdir_key op) \<union> K)"
  shows "wp (commit_op sha3 flt op) (op_done sha3 d0 f0 K D (apply_op op (cur_store sha3 s)) op)
    (fails_safely sha3 flt d0 f0 (apply_op op (cur_store sha3 s))) s"
proof (cases op)
  case (Mkdir i v sv c)
  with mkdir_done [OF assms(1) _ _ _ Mkdir] assms(2-4) show ?thesis by simp
next
  case (Updir i sv n x)
  with updir_done [OF assms(1) _ Updir] assms(4) show ?thesis by simp
next
  case (LinkObj i l h)
  with link_done [OF assms(1) _ LinkObj] assms(2) show ?thesis by simp
next
  case (UnlinkObj i l)
  with unlink_done [OF assms(1) _ UnlinkObj] assms(2) show ?thesis by simp
qed (rule rmdir_done [OF assms(1)])

definition rmdir_keys :: "tx_op list \<Rightarrow> (hash_id \<times> hash_id) list" where
  "rmdir_keys ops = concat (map rmdir_key ops)"

definition ops_done ::
  "(bytes \<Rightarrow> hash_id) \<Rightarrow> storage_db \<Rightarrow> (string \<times> bytes) list \<Rightarrow> (hash_id \<times> hash_id) set \<Rightarrow> (hash_id \<times> hash_id) set \<Rightarrow> store option res \<Rightarrow>
   tx_op list \<Rightarrow> bool \<times> tx_op list \<Rightarrow> local_storage \<Rightarrow> bool" where
  "ops_done sha3 d0 f0 K D spec ops r s =
     (safe sha3 d0 f0 s \<and> spec = Inr (if fst r then Some (cur_store sha3 s) else None) \<and>
      (fst r \<longrightarrow> good sha3 d0 f0 (set (mkdir_keys ops) \<union> K) (D \<union> set (rmdir_keys (snd r))) s))"

lemma keys_Cons [simp]:
  "mkdir_keys [] = []" "mkdir_keys (op # ops) = mkdir_key op @ mkdir_keys ops"
  "rmdir_keys [] = []" "rmdir_keys (op # ops) = rmdir_key op @ rmdir_keys ops"
  by (simp_all add: mkdir_keys_def rmdir_keys_def)

lemma do_commit_done:
  assumes "good sha3 d0 f0 K D s" "list_all op_typed ops" "distinct (mkdir_keys ops)" "set (mkdir_keys ops) \<inter> K = {}"
    "inj_on (\<lambda>(i, v). dir_path sha3 i v) (set (mkdir_keys ops) \<union> K)"
  shows "wp (do_commit sha3 flt ops) (ops_done sha3 d0 f0 K D (apply_ops ops (cur_store sha3 s)) ops)
    (fails_safely sha3 flt d0 f0 (apply_ops ops (cur_store sha3 s))) s"
  using assms
proof (induction ops arbitrary: s K D)
  case Nil
  then show ?case by (simp add: wps ops_done_def goodD(1))
next
  case (Cons op ops)
  have inj: "inj_on (\<lambda>(i, v). dir_path sha3 i v) (set (mkdir_key op) \<union> K)"
    using Cons.prems(5) by (auto intro: inj_on_subset)
  have "wp (commit_op sha3 flt op) (op_done sha3 d0 f0 K D (apply_op op (cur_store sha3 s)) op)
      (fails_safely sha3 flt d0 f0 (apply_op op (cur_store sha3 s))) s"
    by (rule commit_op_done [OF Cons.prems(1) _ _ inj]) (use Cons.prems(2,4) in auto)
  then show ?case
    unfolding do_commit.simps wp_simps
  proof (rule wp_mono)
    fix e s1
    assume "fails_safely sha3 flt d0 f0 (apply_op op (cur_store sha3 s)) e s1"
    then show "fails_safely sha3 flt d0 f0 (apply_ops (op # ops) (cur_store sha3 s)) e s1" by (auto simp: fails_safely_def)
  next
    fix r s1
    assume od: "op_done sha3 d0 f0 K D (apply_op op (cur_store sha3 s)) op r s1"
    let ?more = "\<lambda>(ok, op1). if \<not> ok then ls_ok (False, op1 # ops)
        else ls_bind (do_commit sha3 flt ops) (\<lambda>(ok2, ops1). ls_ok (ok2, op1 # ops1))"
    let ?spec = "apply_ops (op # ops) (cur_store sha3 s)"
    show "wp (?more r) (ops_done sha3 d0 f0 K D ?spec (op # ops)) (fails_safely sha3 flt d0 f0 ?spec) s1"
    proof (cases "fst r")
      case False
      with od show ?thesis by (cases r) (simp add: wps op_done_def ops_done_def)
    next
      case True
      then obtain op1 where r: "r = (True, op1)" by (cases r) auto
      from od r have g: "good sha3 d0 f0 (set (mkdir_key op) \<union> K) (D \<union> set (rmdir_key op1)) s1"
        and sp: "?spec = apply_ops ops (cur_store sha3 s1)" by (simp_all add: op_done_def Un_commute)
      have "wp (do_commit sha3 flt ops)
          (ops_done sha3 d0 f0 (set (mkdir_key op) \<union> K) (D \<union> set (rmdir_key op1)) (apply_ops ops (cur_store sha3 s1)) ops)
          (fails_safely sha3 flt d0 f0 (apply_ops ops (cur_store sha3 s1))) s1"
        by (rule Cons.IH [OF g]) (use Cons.prems in \<open>auto simp: ac_simps\<close>)
      then show ?thesis
        unfolding sp r by (simp add: wps) (erule wp_mono, auto simp: wps ops_done_def ac_simps)
    qed
  qed
qed

subsection \<open>Transactions and the clean-up after them\<close>

lemma wp_tx_gen:
  assumes "ls_saved s = None" and "\<And>x. flt (ls_count s) = Some x \<Longrightarrow> E (err (Sqlite (fst x))) (tick s)"
    and "wp body
      (\<lambda>a s1. if keep a
         then (\<forall>x. flt (ls_count s1) = Some x \<longrightarrow> E (err (Sqlite (fst x))) (tick s1)) \<and> Q a (tick (s1\<lparr>ls_saved := None\<rparr>))
         else Q a (tick (s1\<lparr>ls_db := ls_committed s1, ls_saved := None\<rparr>)))
      (\<lambda>e s1. E e (tick (s1\<lparr>ls_db := ls_committed s1, ls_saved := None\<rparr>))) (tick (s\<lparr>ls_saved := Some (ls_db s)\<rparr>))"
  shows "wp (tx_gen flt keep body) Q E s"
proof (cases "flt (ls_count s)")
  case None
  let ?s = "tick (s\<lparr>ls_saved := Some (ls_db s)\<rparr>)"
  obtain s1 r where b: "body ?s = (s1, r)" by force
  with assms(1,3) None show ?thesis
    by (cases r) (auto simp: wp_def tx_gen_def ls_bind_def sql_exec_def Let_def ls_committed_def split: option.split)
qed (use assms(2) in \<open>auto simp: wp_def tx_gen_def ls_bind_def sql_exec_def\<close>)

lemma delete_kept:
  assumes "db_keys d \<subseteq> K - {k}" "k \<in> K" "inj_on (\<lambda>(i, v). dir_path sha3 i v) K" "files_ok sha3 d files" "p = dir_path sha3 (fst k) (snd k)"
  shows "files_ok sha3 d (AList.delete p files)" "dirs_of sha3 d (AList.delete p files) = dirs_of sha3 d files"
proof -
  have "dir_path sha3 i (dr_ver r) \<noteq> p" if "map_of (ld_dirs d) i = Some r" for i r
    using paths_differ [OF assms(3), of i "dr_ver r" "fst k" "snd k"] assms(1,2,5) db_keysI [OF that] by (cases k) auto
  then show "files_ok sha3 d (AList.delete p files)" "dirs_of sha3 d (AList.delete p files) = dirs_of sha3 d files"
    using prefix_kept [OF _ assms(4), of "AList.delete p files"] by (auto simp: delete_conv')
qed

lemma unwatch_simps [simp]:
  "ls_db (unwatch i s) = ls_db s" "ls_saved (unwatch i s) = ls_saved s" "ls_dirfiles (unwatch i s) = ls_dirfiles s"
  "ls_objfiles (unwatch i s) = ls_objfiles s" "ls_txns (unwatch i s) = ls_txns s" "ls_count (unwatch i s) = ls_count s"
  by (simp_all add: unwatch_def)

lemma cleanup_op_kept:
  assumes "files_ok sha3 (ls_db s) (ls_dirfiles s)" "db_keys (ls_db s) \<subseteq> K - set (rmdir_key op)" "set (rmdir_key op) \<subseteq> K"
    "inj_on (\<lambda>(i, v). dir_path sha3 i v) K"
  shows "ls_db (cleanup_op sha3 flt s op) = ls_db s" "ls_saved (cleanup_op sha3 flt s op) = ls_saved s"
    "files_ok sha3 (ls_db s) (ls_dirfiles (cleanup_op sha3 flt s op))"
    "dirs_of sha3 (ls_db s) (ls_dirfiles (cleanup_op sha3 flt s op)) = dirs_of sha3 (ls_db s) (ls_dirfiles s)"
  using assms(1-3) delete_kept [OF _ _ assms(4,1)]
  by (cases op; auto simp: io_step_def split: option.split)+

lemma postcommit_kept:
  assumes "files_ok sha3 (ls_db s) (ls_dirfiles s)" "db_keys (ls_db s) \<subseteq> K - set (rmdir_keys ops)" "set (rmdir_keys ops) \<subseteq> K"
    "inj_on (\<lambda>(i, v). dir_path sha3 i v) K"
  shows "ls_db (postcommit_cleanup sha3 flt ops s) = ls_db s \<and> ls_saved (postcommit_cleanup sha3 flt ops s) = ls_saved s \<and>
    files_ok sha3 (ls_db s) (ls_dirfiles (postcommit_cleanup sha3 flt ops s)) \<and>
    dirs_of sha3 (ls_db s) (ls_dirfiles (postcommit_cleanup sha3 flt ops s)) = dirs_of sha3 (ls_db s) (ls_dirfiles s)"
  using assms(1-3) unfolding postcommit_cleanup_def
proof (induction ops arbitrary: s)
  case (Cons op ops)
  have d: "db_keys (ls_db s) \<subseteq> K - set (rmdir_key op)" "db_keys (ls_db s) \<subseteq> K - set (rmdir_keys ops)" "set (rmdir_key op) \<subseteq> K"
    "set (rmdir_keys ops) \<subseteq> K"
    using Cons.prems(2,3) by auto
  show ?case
    using Cons.IH [of "cleanup_op sha3 flt s op"] cleanup_op_kept [OF Cons.prems(1) d(1,3) assms(4), of flt] d(2,4) by simp
qed simp

subsection \<open>Commit\<close>

text \<open>What a commit may do, given what the abstract operations do.\<close>

definition commit_spec :: "(bytes \<Rightarrow> hash_id) \<Rightarrow> ls_faults \<Rightarrow> store \<Rightarrow> store option res \<Rightarrow> bool res \<Rightarrow> local_storage \<Rightarrow> bool" where
  "commit_spec sha3 flt st spec r s =
     (ls_inv sha3 s \<and>
      (if r = Inr True then spec = Inr (Some (ls_store sha3 s)) else ls_store sha3 s = st) \<and>
      (is_ok r \<longrightarrow> ls_saved s = None) \<and>
      (no_faults flt \<longrightarrow> ls_saved s = None \<and> r = map_sum (\<lambda>e. e) (\<lambda>a. a \<noteq> None) spec))"

lemma good_start:
  assumes "ls_inv sha3 s" "ls_saved s = None"
  shows "good sha3 (ls_db s) (ls_dirfiles s) (db_keys (ls_db s)) {} (s\<lparr>ls_saved := Some (ls_db s)\<rparr>)"
  using assms by (auto simp: good_def safe_def ls_inv_def ls_committed_def)

lemma safe_rollback:
  assumes "safe sha3 d0 f0 s"
  shows "ls_inv sha3 (s\<lparr>ls_db := ls_committed s, ls_saved := None\<rparr>)" "ls_inv sha3 s"
    "ls_store sha3 (s\<lparr>ls_db := ls_committed s, ls_saved := None\<rparr>) = store_of sha3 d0 f0" "ls_store sha3 s = store_of sha3 d0 f0"
  using assms by (auto simp: safe_def ls_inv_def ls_committed_def ls_store_def store_of_def)

lemma commit_blind [simp]:
  "ls_inv sha3 (tick s) = ls_inv sha3 s" "ls_store sha3 (tick s) = ls_store sha3 s"
  by (simp_all add: ls_inv_def ls_store_def ls_committed_def split: option.split)

definition committed ::
  "(bytes \<Rightarrow> hash_id) \<Rightarrow> ls_faults \<Rightarrow> (hash_id \<times> hash_id) set \<Rightarrow> store \<Rightarrow> store option res \<Rightarrow> bool \<times> tx_op list \<Rightarrow> local_storage \<Rightarrow> bool" where
  "committed sha3 flt K st spec r s =
     (if fst r then ls_saved s = None \<and> files_ok sha3 (ls_db s) (ls_dirfiles s) \<and>
        db_keys (ls_db s) \<subseteq> K - set (rmdir_keys (snd r)) \<and> set (rmdir_keys (snd r)) \<subseteq> K \<and> spec = Inr (Some (cur_store sha3 s))
      else commit_spec sha3 flt st spec (Inr False) s)"

lemma tx_commit:
  assumes "ls_inv sha3 s" "ls_saved s = None" "fresh_versions sha3 (ls_db s) ops"
  shows "wp (tx_gen flt fst (ls_bind (sql_step flt (\<lambda>d. (d, ()))) (\<lambda>_. do_commit sha3 flt ops)))
    (committed sha3 flt (set (mkdir_keys ops) \<union> db_keys (ls_db s)) (ls_store sha3 s) (apply_ops ops (ls_store sha3 s)))
    (\<lambda>e. commit_spec sha3 flt (ls_store sha3 s) (apply_ops ops (ls_store sha3 s)) (Inl e)) s"
proof (rule wp_tx_gen)
  let ?d = "ls_db s" and ?f = "ls_dirfiles s" and ?K = "set (mkdir_keys ops) \<union> db_keys (ls_db s)" and ?st = "ls_store sha3 s"
  let ?s = "tick (s\<lparr>ls_saved := Some (ls_db s)\<rparr>)" and ?spec = "apply_ops ops (ls_store sha3 s)"
  have st: "?st = store_of sha3 ?d ?f" using assms(2) by (simp add: ls_store_def ls_committed_def)
  have g: "good sha3 ?d ?f (db_keys ?d) {} ?s" using good_start [OF assms(1,2)] by simp
  have "wp (do_commit sha3 flt ops) (ops_done sha3 ?d ?f (db_keys ?d) {} ?spec ops) (fails_safely sha3 flt ?d ?f ?spec) (tick ?s)"
    using do_commit_done [of sha3 ?d ?f "db_keys ?d" "{}" "tick ?s" ops flt] g assms(3) st by (simp add: fresh_versions_def)
  moreover have "safe sha3 ?d ?f ?s" using goodD(1) [OF g] .
  ultimately have "wp (ls_bind (sql_step flt (\<lambda>d. (d, ()))) (\<lambda>_. do_commit sha3 flt ops))
      (ops_done sha3 ?d ?f (db_keys ?d) {} ?spec ops) (fails_safely sha3 flt ?d ?f ?spec) ?s"
    by (simp add: wps fails_safely_fault)
  then show "wp (ls_bind (sql_step flt (\<lambda>d. (d, ()))) (\<lambda>_. do_commit sha3 flt ops))
      (\<lambda>a s1. if fst a
         then (\<forall>x. flt (ls_count s1) = Some x \<longrightarrow> commit_spec sha3 flt ?st ?spec (Inl (err (Sqlite (fst x)))) (tick s1)) \<and>
           committed sha3 flt ?K ?st ?spec a (tick (s1\<lparr>ls_saved := None\<rparr>))
         else committed sha3 flt ?K ?st ?spec a (tick (s1\<lparr>ls_db := ls_committed s1, ls_saved := None\<rparr>)))
      (\<lambda>e s1. commit_spec sha3 flt ?st ?spec (Inl e) (tick (s1\<lparr>ls_db := ls_committed s1, ls_saved := None\<rparr>))) ?s"
  proof (rule wp_mono)
    fix r s1
    assume od: "ops_done sha3 ?d ?f (db_keys ?d) {} ?spec ops r s1"
    then have sf: "safe sha3 ?d ?f s1" by (simp add: ops_done_def)
    show "if fst r
       then (\<forall>x. flt (ls_count s1) = Some x \<longrightarrow> commit_spec sha3 flt ?st ?spec (Inl (err (Sqlite (fst x)))) (tick s1)) \<and>
         committed sha3 flt ?K ?st ?spec r (tick (s1\<lparr>ls_saved := None\<rparr>))
       else committed sha3 flt ?K ?st ?spec r (tick (s1\<lparr>ls_db := ls_committed s1, ls_saved := None\<rparr>))"
    proof (cases "fst r")
      case True
      with od have "good sha3 ?d ?f ?K (set (rmdir_keys (snd r))) s1" by (simp add: ops_done_def)
      with True od show ?thesis
        using goodD(2,3,5) safe_rollback [OF sf]
        by (auto simp: committed_def commit_spec_def ops_done_def st no_faults_def)
    next
      case False
      with od safe_rollback [OF sf] show ?thesis by (auto simp: committed_def commit_spec_def ops_done_def st)
    qed
  qed (auto simp: fails_safely_def commit_spec_def st dest: safe_rollback(1,3))
qed (use assms in \<open>auto simp: commit_spec_def no_faults_def\<close>)

lemma commit_meets_spec:
  assumes "ls_inv sha3 s" "ls_saved s = None" "map_of (ls_txns s) t = Some ops" "fresh_versions sha3 (ls_db s) ops"
    "commit sha3 flt t s = (s1, r)"
  shows "commit_spec sha3 flt (ls_store sha3 s) (apply_ops ops (ls_store sha3 s)) r s1"
proof -
  let ?s = "s\<lparr>ls_txns := AList.delete t (ls_txns s)\<rparr>" and ?spec = "apply_ops ops (ls_store sha3 s)"
  let ?K = "set (mkdir_keys ops) \<union> db_keys (ls_db s)"
  have b: "ls_inv sha3 ?s = ls_inv sha3 s" "ls_store sha3 ?s = ls_store sha3 s"
    by (simp_all add: ls_inv_def ls_store_def ls_committed_def split: option.split)
  obtain s2 r2 where x: "tx_gen flt fst (ls_bind (sql_step flt (\<lambda>d. (d, ()))) (\<lambda>_. do_commit sha3 flt ops)) ?s = (s2, r2)" by force
  note w = tx_commit [of sha3 ?s ops flt, unfolded b wp_def x]
  show ?thesis
  proof (cases r2)
    case (Inl e)
    with w assms x show ?thesis by (simp add: commit_def)
  next
    case (Inr a)
    obtain ok ops1 where a: "a = (ok, ops1)" by force
    show ?thesis
    proof (cases ok)
      case False
      with w assms x Inr a show ?thesis by (simp add: commit_def committed_def)
    next
      case True
      with w assms(1,2,4) Inr a have c: "ls_saved s2 = None" "files_ok sha3 (ls_db s2) (ls_dirfiles s2)"
        "db_keys (ls_db s2) \<subseteq> ?K - set (rmdir_keys ops1)" "set (rmdir_keys ops1) \<subseteq> ?K" "?spec = Inr (Some (cur_store sha3 s2))"
        by (simp_all add: committed_def)
      have "inj_on (\<lambda>(i, v). dir_path sha3 i v) ?K" using assms(4) by (simp add: fresh_versions_def)
      from postcommit_kept [OF c(2-4) this, of flt] c(1,5) True assms(3,5) x Inr a show ?thesis
        by (auto simp: commit_def commit_spec_def ls_inv_def ls_store_def ls_committed_def store_of_def)
    qed
  qed
qed

end
