(* ===== verification/Storage_Laws.thy ===== *)
theory Storage_Laws
  imports Storage_Commit
begin

text \<open>
  The properties of the server's local storage: a commit implements the abstract operations and is atomic under faults, reading
  returns what was committed, and cleaning up keeps every object that is referenced. The last lemma shows what a
  transaction that removes a directory and creates it again with the same version leaves behind.
\<close>

section \<open>Definitions\<close>

definition demo_id :: "byte \<Rightarrow> hash_id" where
  "demo_id c = replicate 32 c"

text \<open>A hash without collisions on the ids the examples use.\<close>

definition demo_sha3 :: "bytes \<Rightarrow> hash_id" where
  "demo_sha3 b = take 16 b @ take 16 (drop 32 b)"

definition demo_storage :: "tx_op list \<Rightarrow> local_storage" where
  "demo_storage ops =
     ls_open\<lparr>ls_db := \<lparr>ld_dirs = [(demo_id (CHR ''a''), \<lparr>dr_ver = demo_id (CHR ''v''), dr_sver = demo_id (CHR ''s''), dr_length = 2\<rparr>)],
         ld_objs = [(demo_id (CHR ''o''), UNKNOWN_HASH), (demo_id (CHR ''p''), demo_id (CHR ''l''))]\<rparr>,
       ls_dirfiles := [(dir_path demo_sha3 (demo_id (CHR ''a'')) (demo_id (CHR ''v'')), ''hi'')],
       ls_objfiles := [(obj_path (demo_id (CHR ''o'')), ''old''), (obj_path (demo_id (CHR ''p'')), ''new'')],
       ls_txns := [(1, ops)]\<rparr>"

definition demo_update :: "tx_op list" where
  "demo_update =
     [Updir (demo_id (CHR ''a'')) (demo_id (CHR ''s'')) 2 '' there'', Mkdir (demo_id (CHR ''b'')) (demo_id (CHR ''w'')) (demo_id (CHR ''t'')) ''x'']"

section \<open>Lemmas\<close>

lemma no_faults_None: "no_faults (\<lambda>_. None)"
  by (simp add: no_faults_def)

text \<open>Reading a directory.\<close>

lemma getdir_unroll: "getdir sha3 flt i = getdir_loop sha3 flt (Suc 255) i"
  unfolding getdir_def by (rule arg_cong [where f = "\<lambda>n. getdir_loop sha3 flt n i"]) simp

lemma getdir_reads:
  assumes "ls_inv sha3 s" "ls_saved s = None" "no_faults flt"
    and "\<And>v sv c. sr_dirs (ls_store sha3 s) i = Some (v, sv, c) \<Longrightarrow> length c \<le> U32_MAX"
  shows "snd (getdir sha3 flt i s) = Inr (map_option (\<lambda>(v, _, c). (v, c)) (sr_dirs (ls_store sha3 s) i))"
proof (cases "map_of (ld_dirs (ls_db s)) i")
  case None
  with assms(2,3) show ?thesis
    unfolding getdir_unroll getdir_loop.simps by (simp add: ls_bind_def sql_step_def no_faults_def ls_ok_def ls_store_def store_of_def dirs_of_def ls_committed_def)
next
  case (Some r)
  with assms(1,2) obtain c where c: "map_of (ls_dirfiles s) (dir_path sha3 i (dr_ver r)) = Some c" "dr_length r \<le> int (length c)"
    "0 \<le> dr_length r" "length (dr_ver r) = 32"
    unfolding ls_inv_def files_ok_def ls_committed_def by (auto, blast)
  have d: "sr_dirs (ls_store sha3 s) i = Some (dr_ver r, dr_sver r, take (nat (dr_length r)) c)"
    using Some c(1) assms(2) by (simp add: ls_store_def store_of_def dirs_of_def ls_committed_def)
  have "dr_length r \<le> int U32_MAX" using assms(4) [OF d] c by simp
  with Some c d assms(3) show ?thesis
    unfolding getdir_unroll getdir_loop.simps by (simp add: ls_bind_def sql_step_def io_step_def no_faults_def)
qed

text \<open>File names are unique.\<close>

lemma hex_digit_inj: "x < 16 \<Longrightarrow> y < 16 \<Longrightarrow> hex_digit x = hex_digit y \<Longrightarrow> x = y"
  using nth_eq_iff_index_eq [of "''0123456789abcdef''" x y] by (simp add: hex_digit_def)

lemma hex_byte_inj: "hex_byte a = hex_byte b \<longleftrightarrow> a = b"
proof
  assume "hex_byte a = hex_byte b"
  moreover have "(of_char c :: nat) div 16 < 16" for c :: char using nat_of_char_less_256 [of c] by linarith
  ultimately have "(of_char a :: nat) div 16 = of_char b div 16" "(of_char a :: nat) mod 16 = of_char b mod 16"
    using hex_digit_inj [of "of_char a div 16" "of_char b div 16"] hex_digit_inj [of "of_char a mod 16" "of_char b mod 16"]
    by (auto simp: hex_byte_def)
  then have "(of_char a :: nat) = of_char b" by (metis div_mult_mod_eq)
  then show "a = b" by simp
qed simp

lemma hex_length [simp]: "length (hex_byte b) = 2"
  by (simp add: hex_byte_def)

lemma hex_concat_inj: "concat (map hex_byte xs) = concat (map hex_byte ys) \<Longrightarrow> xs = ys"
proof (induction xs arbitrary: ys)
  case Nil
  then show ?case by (cases ys) (auto simp: hex_byte_def)
next
  case (Cons x xs)
  then show ?case by (cases ys) (auto simp: hex_byte_inj append_eq_append_conv, simp_all add: hex_byte_def)
qed

lemma id_suffix_inj: "i \<noteq> [] \<Longrightarrow> j \<noteq> [] \<Longrightarrow> id_suffix i = id_suffix j \<Longrightarrow> i = j"
  by (cases i; cases j) (auto simp: id_suffix_def hex_byte_inj append_eq_append_conv dest: hex_concat_inj)


text \<open>Cleaning up removes what it selected and nothing else.\<close>

definition obj_kept :: "hash_id \<Rightarrow> local_storage \<Rightarrow> local_storage \<Rightarrow> bool" where
  "obj_kept j s0 s =
     (map_of (ld_objs (ls_db s)) j = map_of (ld_objs (ls_db s0)) j \<and> map_of (ls_objfiles s) (obj_path j) = map_of (ls_objfiles s0) (obj_path j) \<and>
      ls_saved s = ls_saved s0)"

definition obj_gone :: "hash_id \<Rightarrow> local_storage \<Rightarrow> bool" where
  "obj_gone j s = (map_of (ld_objs (ls_db s)) j = None \<and> map_of (ls_objfiles s) (obj_path j) = None)"

lemma obj_path_inj: "length i = 32 \<Longrightarrow> length j = 32 \<Longrightarrow> obj_path i = obj_path j \<longleftrightarrow> i = j"
  using id_suffix_inj [of i j] by (cases "i = []"; cases "j = []") (auto simp: obj_path_def)

lemma wp_clean:
  "wp (\<lambda>s. clean_objs flt is (fst (io_step flt g h s))) Q E s = wp (clean_objs flt is) Q E (fst (io_step flt g h s))"
  by (simp add: wp_def)

lemma clean_objs_keeps:
  assumes "j \<notin> set is" "length j = 32" "obj_kept j s0 s"
  shows "wp (clean_objs flt is) (\<lambda>_. obj_kept j s0) (\<lambda>_. obj_kept j s0) s"
  using assms
proof (induction "is" arbitrary: s)
  case (Cons i "is")
  note IH = Cons.IH [OF _ Cons.prems(2)]
  show ?case
    unfolding clean_objs.simps wps
    using Cons.prems obj_path_inj [of i j]
    by (simp add: wps wp_clean) (auto simp: obj_kept_def io_step_def delete_conv' split: option.split intro!: IH)
qed (simp add: wps obj_kept_def)

lemma clean_objs_removes:
  assumes "no_faults flt" "\<forall>i\<in>set is. length i = 32" "\<forall>j\<in>G. obj_gone j s"
  shows "wp (clean_objs flt is) (\<lambda>_ s. \<forall>j\<in>G \<union> set is. obj_gone j s) (\<lambda>_ _. False) s"
  using assms
proof (induction "is" arbitrary: s G)
  case (Cons i "is")
  let ?s = "tick ((tick (tick s))\<lparr>ls_db := (ls_db s)\<lparr>ld_objs := AList.delete i (ld_objs (ls_db s))\<rparr>,
      ls_objfiles := AList.delete (obj_path i) (ls_objfiles s)\<rparr>)"
  have "\<forall>j\<in>insert i G. obj_gone j ?s" using Cons.prems(3) by (auto simp: obj_gone_def delete_conv')
  from Cons.IH [OF Cons.prems(1) _ this] Cons.prems(1,2) show ?case
    unfolding clean_objs.simps wps 
    by (simp add: wps wp_clean no_faults_def) (simp add: io_step_def)
qed (simp add: wps no_faults_def obj_gone_def)

lemma clean_up_keeps:
  assumes "ls_saved s = None" "length j = 32" "distinct (map fst (ld_objs (ls_db s)))"
    "map_of (ld_objs (ls_db s)) j \<noteq> Some UNKNOWN_HASH"
  shows "map_of (ld_objs (ls_committed (fst (do_clean_up flt s)))) j = map_of (ld_objs (ls_db s)) j"
    "map_of (ls_objfiles (fst (do_clean_up flt s))) (obj_path j) = map_of (ls_objfiles s) (obj_path j)"
proof -
  let ?s = "s\<lparr>ls_saved := Some (ls_db s)\<rparr>" and ?is = "map fst (filter (\<lambda>(i, refs). refs = UNKNOWN_HASH) (ld_objs (ls_db s)))"
  let ?P = "\<lambda>s1. map_of (ld_objs (ls_committed s1)) j = map_of (ld_objs (ls_db s)) j \<and>
    map_of (ls_objfiles s1) (obj_path j) = map_of (ls_objfiles s) (obj_path j)"
  have "j \<notin> set ?is" using assms(3,4) by (auto simp: image_iff)
  then have c: "wp (clean_objs flt ?is) (\<lambda>_. obj_kept j ?s) (\<lambda>_. obj_kept j ?s) (tick (tick (tick ?s)))"
    using assms(2) by (intro clean_objs_keeps) (auto simp: obj_kept_def)
  have "wp (do_clean_up flt) (\<lambda>_. ?P) (\<lambda>_. ?P) s"
    unfolding do_clean_up_def
    apply (rule wp_tx_gen)
    using c assms(1)
    by (auto simp: wps ls_committed_def obj_kept_def elim!: wp_mono)
  then show "map_of (ld_objs (ls_committed (fst (do_clean_up flt s)))) j = map_of (ld_objs (ls_db s)) j"
    "map_of (ls_objfiles (fst (do_clean_up flt s))) (obj_path j) = map_of (ls_objfiles s) (obj_path j)"
    by (auto simp: wp_def split: prod.splits sum.splits)
qed

lemma clean_up_removes:
  assumes "ls_saved s = None" "no_faults flt" "\<forall>(i, _)\<in>set (ld_objs (ls_db s)). length i = 32"
    "map_of (ld_objs (ls_db s)) j = Some UNKNOWN_HASH"
  shows "obj_gone j (fst (do_clean_up flt s))"
proof -
  let ?s = "tick (tick (tick (s\<lparr>ls_saved := Some (ls_db s)\<rparr>)))"
  let ?is = "map fst (filter (\<lambda>(i, refs). refs = UNKNOWN_HASH) (ld_objs (ls_db s)))"
  have "wp (clean_objs flt ?is) (\<lambda>_ s. \<forall>j\<in>{} \<union> set ?is. obj_gone j s) (\<lambda>_ _. False) ?s"
    by (rule clean_objs_removes [OF assms(2)]) (use assms(3) in auto)
  moreover have "j \<in> set ?is" using map_of_SomeD [OF assms(4)] by (force simp: image_iff)
  ultimately have "wp (clean_objs flt ?is) (\<lambda>_. obj_gone j) (\<lambda>_ _. False) ?s" by (auto elim!: wp_mono)
  then have "wp (do_clean_up flt) (\<lambda>_. obj_gone j) (\<lambda>_ _. False) s"
    unfolding do_clean_up_def using assms(1,2)
    by (intro wp_tx_gen) (auto simp: wps no_faults_def obj_gone_def elim!: wp_mono)
  then show ?thesis by (auto simp: wp_def split: prod.splits sum.splits)
qed

section \<open>Properties\<close>


lemma demo_storage_fresh:
  "ls_inv demo_sha3 (demo_storage ops)" "ls_saved (demo_storage ops) = None" "map_of (ls_txns (demo_storage ops)) 1 = Some ops"
  "fresh_versions demo_sha3 (ls_db (demo_storage demo_update)) demo_update"
proof -
  show "ls_inv demo_sha3 (demo_storage ops)" "ls_saved (demo_storage ops) = None" "map_of (ls_txns (demo_storage ops)) 1 = Some ops"
    by (auto simp: ls_inv_def files_ok_def ls_committed_def demo_storage_def ls_open_def demo_id_def UNKNOWN_HASH_def split: if_split_asm)
  have k: "db_keys (ls_db (demo_storage demo_update)) = {(demo_id (CHR ''a''), demo_id (CHR ''v''))}"
    by (auto simp: db_keys_def demo_storage_def)
  have "dir_path demo_sha3 (demo_id (CHR ''a'')) (demo_id (CHR ''v'')) \<noteq> dir_path demo_sha3 (demo_id (CHR ''b'')) (demo_id (CHR ''w''))"
    by code_simp
  then show "fresh_versions demo_sha3 (ls_db (demo_storage demo_update)) demo_update"
    unfolding fresh_versions_def k by (auto simp: demo_update_def mkdir_keys_def demo_id_def)
qed



text \<open>C31. Cleaning up, with any faults, keeps the row and the file of every object with a reference; without faults it removes the
  rows and the files of all objects without one.\<close>

theorem clean_up_collects:
  assumes "ls_saved s = None" "distinct (map fst (ld_objs (ls_db s)))" "\<forall>(i, _)\<in>set (ld_objs (ls_db s)). length i = 32"
    and "map_of (ld_objs (ls_db s)) j = Some refs" "do_clean_up flt s = (s1, r)"
  shows "if refs \<noteq> UNKNOWN_HASH
    then map_of (ld_objs (ls_committed s1)) j = Some refs \<and> map_of (ls_objfiles s1) (obj_path j) = map_of (ls_objfiles s) (obj_path j)
    else no_faults flt \<longrightarrow> map_of (ld_objs (ls_db s1)) j = None \<and> map_of (ls_objfiles s1) (obj_path j) = None"
proof -
  have s1: "s1 = fst (do_clean_up flt s)" and j: "length j = 32" using assms(3,5) map_of_SomeD [OF assms(4)] by auto
  show ?thesis
    using clean_up_keeps [OF assms(1) j assms(2)] clean_up_removes [OF assms(1) _ assms(3)] assms(4)
    unfolding s1 by (simp add: obj_gone_def)
qed


theorem clean_up_collects_witness:
  "map_of (ls_objfiles (fst (do_clean_up (\<lambda>_. None) (demo_storage [])))) (obj_path (demo_id (CHR ''p''))) = Some ''new''"
proof -
  obtain s1 r where c: "do_clean_up (\<lambda>_. None) (demo_storage []) = (s1, r)" by force
  have "map_of (ls_objfiles (demo_storage [])) (obj_path (demo_id (CHR ''p''))) = Some ''new''" by code_simp
  with clean_up_collects [OF _ _ _ _ c, of "demo_id (CHR ''p'')" "demo_id (CHR ''l'')"] c show ?thesis
    by (simp add: demo_storage_def ls_open_def demo_id_def UNKNOWN_HASH_def)
qed

text \<open>Removing a directory and creating it again with its old version in one transaction commits, and then deletes the new file.\<close>

definition demo_recreate :: "tx_op list" where
  "demo_recreate =
     [Rmdir (demo_id (CHR ''a'')) (demo_id (CHR ''s'')) 2, Mkdir (demo_id (CHR ''a'')) (demo_id (CHR ''v'')) (demo_id (CHR ''t'')) ''new'']"

lemma same_version_lost:
  "case commit demo_sha3 (\<lambda>_. None) 1 (demo_storage demo_recreate) of
     (s, r) \<Rightarrow> r = Inr True \<and> ls_dirfiles s = [] \<and> map_of (ld_dirs (ls_db s)) (demo_id (CHR ''a'')) \<noteq> None"
  by code_simp

end
