(* ===== verification/Key_Store.thy ===== *)
theory Key_Store
  imports Key_Groups Storage_Laws
begin

text \<open>
  Key management over a storage. The contract of the storage is the locale \<open>tx_storage\<close>: a view of the directories, what
  is buffered in the transaction, and a commit that applies it or leaves the view alone. In it, an edit of the
  key list is shown to replace the stored list by the edited one, only when the root key matches, and to change nothing otherwise.
  The local storage, with any faults, is an interpretation.
\<close>

section \<open>Definitions\<close>

definition store_keys :: "store \<Rightarrow> (hash_id \<times> hash_id) set" where
  "store_keys a = {(i, v). \<exists>sv c. sr_dirs a i = Some (v, sv, c)}"

text \<open>A version that was never used, and whose file name differs from all others.\<close>

definition ls_fresh :: "(bytes \<Rightarrow> hash_id) \<Rightarrow> store \<Rightarrow> hash_id \<Rightarrow> hash_id \<Rightarrow> bool" where
  "ls_fresh sha3 a i v =
     (length v = 32 \<and> (i, v) \<notin> store_keys a \<and> inj_on (\<lambda>(i, v). dir_path sha3 i v) (insert (i, v) (store_keys a)))"

definition ls_ready :: "(bytes \<Rightarrow> hash_id) \<Rightarrow> local_storage \<Rightarrow> bool" where
  "ls_ready sha3 s = (ls_inv sha3 s \<and> ls_saved s = None)"

definition ls_pending :: "local_storage \<Rightarrow> tx_op list option" where
  "ls_pending s = map_of (ls_txns s) 0"

text \<open>The key list a store holds.\<close>

definition stored_kdf :: "('s, 'u) km_env \<Rightarrow> store \<Rightarrow> 'u kdf_list option" where
  "stored_kdf env a =
     (case sr_dirs a DIRID_KEYS of
        None \<Rightarrow> None
      | Some (_, _, b) \<Rightarrow> (case en_from_slice env b of Inl _ \<Rightarrow> None | Inr kl \<Rightarrow> Some kl))"

definition codec_ok :: "('s, 'u) km_env \<Rightarrow> bool" where
  "codec_ok env = (\<forall>kl b. en_to_vec env kl = Inr b \<longrightarrow> en_from_slice env b = Inr kl)"

text \<open>A successful edit \<open>f\<close> of the list in \<open>a\<close>, with the key that authorised it.\<close>

definition edited :: "('s, 'u) km_env \<Rightarrow> ('s, 'u, 'r) kdf_edit \<Rightarrow> store \<Rightarrow> store \<Rightarrow> 'r \<Rightarrow> bool" where
  "edited env f a a1 r =
     (\<exists>v sv b kl rk wa wb kl1 rk1 key b1 new.
        sr_dirs a DIRID_KEYS = Some (v, sv, b) \<and> en_from_slice env b = Inr kl \<and> sv = secret_dir_ver (en_cr env) v key \<and>
        f kl rk wa = (wb, Inr (kl1, rk1, r)) \<and> en_to_vec env kl1 = Inr b1 \<and>
        a1 = a\<lparr>sr_dirs := (sr_dirs a)(DIRID_KEYS \<mapsto> (new, secret_dir_ver (en_cr env) new key, b1))\<rparr>)"

text \<open>The operations that edit the list, and what they do to the set of all groups.\<close>

datatype key_op =
    AddKey bytes bytes string
  | DelKey string
  | ChangeKey bytes bytes "string option" bool
  | CreateGroup bytes "string list"
  | AssocGroup bytes bytes "string list"
  | DisassocGroup string "string list"
  | DestroyGroup "string list"

fun run_op :: "('s, 'u) km_env \<Rightarrow> (nat \<Rightarrow> bytes res) \<Rightarrow> key_op \<Rightarrow> ('s, unit) km" where
  "run_op env prompt (AddKey p q n) = add_key env p q n prompt"
| "run_op env prompt (DelKey n) = del_key env n prompt"
| "run_op env prompt (ChangeKey p q m b) = change_key env p q m b prompt"
| "run_op env prompt (CreateGroup p gs) = create_group env p gs prompt"
| "run_op env prompt (AssocGroup p q gs) = assoc_group env p q gs prompt"
| "run_op env prompt (DisassocGroup n gs) = disassoc_group env n gs prompt"
| "run_op env prompt (DestroyGroup gs) = destroy_group env gs prompt"

fun op_groups :: "key_op \<Rightarrow> string set \<Rightarrow> string set" where
  "op_groups (CreateGroup _ gs) G = G \<union> set gs"
| "op_groups (DestroyGroup gs) G = G - set gs"
| "op_groups _ G = G"

definition demo_chain :: key_chain where
  "demo_chain = generate_new (replicate 32 (CHR ''r'')) (replicate 32 (CHR ''e''))"

definition demo_kdf :: "unit kdf_list" where
  "demo_kdf =
     \<lparr>kl_keys = [(''first'', fst (create_key demo_crypto (replicate 32 (CHR ''s'')) ''hunter2'' demo_chain 0 None))], kl_unknown = ()\<rparr>"

definition demo_env :: "(local_storage, unit) km_env" where
  "demo_env =
     \<lparr>en_storage = local_storage demo_sha3 (\<lambda>_. None), en_cr = demo_crypto, en_rand = (\<lambda>_. demo_id (CHR ''w'')), en_now = int,
      en_to_vec = (\<lambda>kl. if kl = demo_kdf then Inr ''k'' else Inl (err (FourleafSer ''unknown''))),
      en_from_slice = (\<lambda>b. if b = ''k'' then Inr demo_kdf else Inl (err (FourleafDeser ''unknown'')))\<rparr>"

definition demo_world :: "local_storage km_state" where
  "demo_world =
     \<lparr>km_st = ls_open\<lparr>ls_db := \<lparr>ld_dirs = [(DIRID_KEYS, \<lparr>dr_ver = demo_id (CHR ''v''), dr_sver = demo_id (CHR ''s''), dr_length = 1\<rparr>)], ld_objs = []\<rparr>,
        ls_dirfiles := [(dir_path demo_sha3 DIRID_KEYS (demo_id (CHR ''v'')), ''k'')]\<rparr>,
      km_drawn = 0, km_clock = 0, km_asked = 0\<rparr>"

section \<open>Lemmas\<close>

lemma on_st_Inr: "on_st f w = (w1, Inr a) \<longleftrightarrow> (\<exists>s. f (km_st w) = (s, Inr a) \<and> w1 = w\<lparr>km_st := s\<rparr>)"
  by (auto simp: on_st_def split: prod.split)

lemma quiet_find: "quiet (find_root env prompt kl rk)"
  unfolding find_root_def by (intro quiets)

locale tx_storage =
  fixes st :: "'s storage" and store :: "'s \<Rightarrow> store" and pending :: "'s \<Rightarrow> tx_op list option" and ok :: "'s \<Rightarrow> bool"
    and fresh :: "store \<Rightarrow> hash_id \<Rightarrow> hash_id \<Rightarrow> bool"
  assumes getdir_law: "ok s \<Longrightarrow> st_getdir st s i = (s1, d) \<Longrightarrow>
      ok s1 \<and> store s1 = store s \<and> pending s1 = pending s \<and> (\<forall>x. d = Inr x \<longrightarrow> x = map_option (\<lambda>(v, _, c). (v, c)) (sr_dirs (store s) i))"
    and start_law: "ok s \<Longrightarrow> st_start_tx st s 0 = (s1, r) \<Longrightarrow> ok s1 \<and> store s1 = store s \<and> (r = Inr () \<longrightarrow> pending s1 = Some [])"
    and mkdir_law: "ok s \<Longrightarrow> st_mkdir st s 0 i v sv c = (s1, r) \<Longrightarrow> ok s1 \<and> store s1 = store s \<and>
      (\<forall>ops. pending s = Some ops \<longrightarrow> pending s1 = Some (ops @ [Mkdir i v sv c]))"
    and rmdir_law: "ok s \<Longrightarrow> st_rmdir st s 0 i sv n = (s1, r) \<Longrightarrow> ok s1 \<and> store s1 = store s \<and>
      (\<forall>ops. pending s = Some ops \<longrightarrow> pending s1 = Some (ops @ [Rmdir i sv n]))"
    and abort_law: "ok s \<Longrightarrow> st_abort st s 0 = (s1, r) \<Longrightarrow> store s1 = store s"
    and commit_law: "ok s \<Longrightarrow> pending s = Some ops \<Longrightarrow> mkdir_keys ops = [(i, v)] \<Longrightarrow> list_all (\<lambda>op. mkdir_key op \<noteq> [] \<or> op_typed op) ops \<Longrightarrow>
      fresh (store s) i v \<Longrightarrow> st_commit st s 0 = (s1, b) \<Longrightarrow>
      (is_ok b \<longrightarrow> ok s1) \<and> (if b = Inr True then apply_ops ops (store s) = Inr (Some (store s1)) else store s1 = store s)"
begin

definition keeps :: "('s, 'a) km \<Rightarrow> bool" where
  "keeps m = (\<forall>w. ok (km_st w) \<longrightarrow> ok (km_st (fst (m w))) \<and> store (km_st (fst (m w))) = store (km_st w))"

lemma keeps_bind: "keeps m \<Longrightarrow> (\<And>a. keeps (f a)) \<Longrightarrow> keeps (km_bind m f)"
  unfolding keeps_def km_bind_def by (auto split: prod.split sum.split)

lemma keeps_quiet: "quiet m \<Longrightarrow> keeps m"
  by (simp add: quiet_def keeps_def)

lemma keeps_cases:
  "keeps m \<Longrightarrow> keeps n \<Longrightarrow> keeps (if b then m else n)" "keeps m \<Longrightarrow> (\<And>a. keeps (g a)) \<Longrightarrow> keeps (case_option m g x)"
  "(\<And>a b. keeps (h a b)) \<Longrightarrow> keeps (case_prod h p)"
  by (auto split: option.split prod.split)

lemma keeps_on_st: "(\<And>s s1 r. ok s \<Longrightarrow> f s = (s1, r) \<Longrightarrow> ok s1 \<and> store s1 = store s) \<Longrightarrow> keeps (on_st f)"
  by (auto simp: keeps_def on_st_def split: prod.split)

lemma keeps_calls:
  "keeps (on_st (\<lambda>s. st_getdir st s i))" "keeps (on_st (\<lambda>s. st_rmdir st s 0 i sv n))" "keeps (on_st (\<lambda>s. st_mkdir st s 0 i v sv c))"
  by (rule keeps_on_st; blast dest: getdir_law rmdir_law mkdir_law)+

lemmas keeps_rules = keeps_bind keeps_calls keeps_cases quiet_units [THEN keeps_quiet]

lemma keeps_edit_body:
  assumes "en_storage env = st" "\<And>kl rk. quiet (f kl rk)"
  shows "keeps (edit_body env prompt f rk 0)"
  unfolding edit_body_def get_kdflist_def put_kdflist_def assms(1)
  by (intro keeps_rules keeps_quiet [OF assms(2)] keeps_quiet [OF quiet_find])

lemma edit_body_Inr:
  assumes "en_storage env = st" "\<And>kl rk. quiet (f kl rk)" "ok (km_st w)" "pending (km_st w) = Some []"
    "edit_body env prompt f rk 0 w = (w1, Inr (rk2, r))"
  obtains v sv b kl wa wb kl1 rk1 key b1 k where "sr_dirs (store (km_st w)) DIRID_KEYS = Some (v, sv, b)" "en_from_slice env b = Inr kl"
    "f kl rk wa = (wb, Inr (kl1, rk1, r))" "en_to_vec env kl1 = Inr b1"
    "pending (km_st w1) = Some [Rmdir DIRID_KEYS (secret_dir_ver (en_cr env) v key) (of_nat (length b)),
       Mkdir DIRID_KEYS (en_rand env k) (secret_dir_ver (en_cr env) (en_rand env k) key) b1]"
proof -
  from assms(5) obtain wa kl v len wb kl1 rk1 wc key new_data wd wd1 we we1 x y where
    g: "get_kdflist env w = (wa, Inr (Some (kl, v, len)))" and f: "f kl rk wa = (wb, Inr (kl1, rk1, r))"
    and rt: "find_root env prompt kl1 rk1 wb = (wc, Inr (Some key))" and d: "en_to_vec env kl1 = Inr new_data"
    and rm: "st_rmdir st (km_st wc) 0 DIRID_KEYS (secret_dir_ver (en_cr env) v key) len = (wd, x)"
    and mk: "st_mkdir st wd 0 DIRID_KEYS (en_rand env (km_drawn wc)) (secret_dir_ver (en_cr env) (en_rand env (km_drawn wc)) key) new_data = (we, y)"
    and w1: "km_st w1 = we"
    by (auto simp: edit_body_def put_kdflist_def km_simps on_st_Inr assms(1) split: option.split_asm)
  from g obtain s b where gd: "st_getdir st (km_st w) DIRID_KEYS = (s, Inr (Some (v, b)))" "en_from_slice env b = Inr kl"
    "len = of_nat (length b)" "km_st wa = s"
    by (auto simp: get_kdflist_def km_simps on_st_Inr assms(1) split: option.split_asm)
  note g1 = getdir_law [OF assms(3) gd(1)]
  then obtain sv where sv: "sr_dirs (store (km_st w)) DIRID_KEYS = Some (v, sv, b)"
    by (cases "sr_dirs (store (km_st w)) DIRID_KEYS") auto
  have wc: "km_st wc = s" using quiet_frame [OF assms(2) f] quiet_frame [OF quiet_find rt] gd(4) by simp
  have o: "ok (km_st wc)" "pending (km_st wc) = Some []" using g1 assms(4) by (simp_all add: wc)
  note m1 = rmdir_law [OF o(1) rm] and m2 = mkdir_law [OF _ mk]
  from that [OF sv gd(2) f d] m1 m2 o(2) gd(3) w1 show ?thesis by simp
qed

text \<open>One try whose closure succeeds.\<close>

lemma commit_edit:
  assumes "en_storage env = st" "\<And>kl rk. quiet (f kl rk)" "ok (km_st w)" "\<forall>n. fresh (store (km_st w)) DIRID_KEYS (en_rand env n)"
    "pending (km_st w) = Some []" "edit_body env prompt f rk 0 w = (w2, Inr (rk2, r))" "st_commit st (km_st w2) 0 = (s3, c)"
  shows "(is_ok c \<longrightarrow> ok s3) \<and> (if c = Inr True then edited env f (store (km_st w)) (store s3) r else store s3 = store (km_st w))"
proof -
  let ?a = "store (km_st w)"
  have "keeps (edit_body env prompt f rk 0)" using keeps_edit_body assms(1,2) by blast
  with assms(3,6) have k: "ok (km_st w2)" "store (km_st w2) = ?a" unfolding keeps_def by (metis fst_conv)+
  obtain v sv b kl wa wb kl1 rk1 key b1 n where
    e: "sr_dirs ?a DIRID_KEYS = Some (v, sv, b)" "en_from_slice env b = Inr kl" "f kl rk wa = (wb, Inr (kl1, rk1, r))"
      "en_to_vec env kl1 = Inr b1"
    and pe: "pending (km_st w2) = Some [Rmdir DIRID_KEYS (secret_dir_ver (en_cr env) v key) (of_nat (length b)),
      Mkdir DIRID_KEYS (en_rand env n) (secret_dir_ver (en_cr env) (en_rand env n) key) b1]"
    by (rule edit_body_Inr [OF assms(1-3,5,6)])
  have fr: "fresh (store (km_st w2)) DIRID_KEYS (en_rand env n)" using assms(4) k(2) by simp
  note cl = commit_law [OF k(1) pe _ _ fr assms(7)]
  show ?thesis
  proof (cases "c = Inr True")
    case True
    with cl k(2) have "ok s3" and ap: "apply_ops [Rmdir DIRID_KEYS (secret_dir_ver (en_cr env) v key) (of_nat (length b)),
        Mkdir DIRID_KEYS (en_rand env n) (secret_dir_ver (en_cr env) (en_rand env n) key) b1] ?a = Inr (Some (store s3))"
      by simp_all
    from ap e(1) have "sv = secret_dir_ver (en_cr env) v key"
      "store s3 = ?a\<lparr>sr_dirs := (sr_dirs ?a)(DIRID_KEYS \<mapsto> (en_rand env n, secret_dir_ver (en_cr env) (en_rand env n) key, b1))\<rparr>"
      by (auto simp: modifiable_def split: option.split_asm if_split_asm)
    then have "edited env f ?a (store s3) r" unfolding edited_def using e by blast
    with True \<open>ok s3\<close> show ?thesis by simp
  qed (use cl k(2) in simp)
qed

lemma edit_loop:
  assumes "en_storage env = st" "\<And>kl rk. quiet (f kl rk)" "ok (km_st w)" "\<forall>n. fresh (store (km_st w)) DIRID_KEYS (en_rand env n)"
    "do_tx_loop env n rk (edit_body env prompt f) w = (w1, x)"
  shows "case x of Inl _ \<Rightarrow> store (km_st w1) = store (km_st w) | Inr r \<Rightarrow> ok (km_st w1) \<and> edited env f (store (km_st w)) (store (km_st w1)) r"
  using assms(3-5)
proof (induction n arbitrary: rk w)
  case (Suc n)
  obtain s r0 where s: "st_start_tx st (km_st w) 0 = (s, r0)" by force
  note st = start_law [OF Suc.prems(1) s]
  let ?w = "w\<lparr>km_st := s\<rparr>" and ?a = "store (km_st w)"
  obtain w2 y where b: "edit_body env prompt f rk 0 ?w = (w2, y)" by force
  have "keeps (edit_body env prompt f rk 0)" using keeps_edit_body assms(1,2) by blast
  with st b have k: "ok (km_st w2)" "store (km_st w2) = ?a" unfolding keeps_def by (metis fst_conv km_state.select_convs(1) km_state.surjective km_state.update_convs(1))+
  obtain s3 r3 where a: "st_abort st (km_st w2) 0 = (s3, r3)" by force
  note ab = abort_law [OF k(1) a]
  obtain s4 c where cm: "st_commit st (km_st w2) 0 = (s4, c)" by force
  note run = Suc.prems(3) [unfolded do_tx_loop.simps km_bind_def on_st_def assms(1)]
  show ?case
  proof (cases "\<exists>rk2 r. r0 = Inr () \<and> y = Inr (rk2, r)")
    case True
    then obtain rk2 r where y: "r0 = Inr ()" "y = Inr (rk2, r)" by blast
    have w: "ok (km_st ?w)" "store (km_st ?w) = ?a" "pending (km_st ?w) = Some []" using st y(1) by simp_all
    have "\<forall>n. fresh (store (km_st ?w)) DIRID_KEYS (en_rand env n)" using Suc.prems(2) w(2) by simp
    note ce = commit_edit [OF assms(1,2) w(1) this w(3) b [unfolded y(2)] cm, unfolded w(2)]
    show ?thesis
    proof (cases "c = Inr False")
      case False
      with ce run s y b cm show ?thesis by (cases c) (auto simp: km_ok_def)
    next
      case c: True
      with run s y b cm have "do_tx_loop env n rk2 (edit_body env prompt f) (w2\<lparr>km_st := s4\<rparr>) = (w1, x)" by simp
      with Suc.IH [of "w2\<lparr>km_st := s4\<rparr>" rk2] ce c Suc.prems(2) show ?thesis by (cases x) simp_all
    qed
  next
    case False
    with run s st b a ab k(2) show ?thesis by (cases r0; cases y) auto
  qed
qed (auto simp: km_simps)

end

subsection \<open>The local storage\<close>

lemma getdir_loop_faulty:
  assumes "ls_inv sha3 s" "ls_saved s = None" "getdir_loop sha3 flt (Suc n) i s = (s1, r)"
  shows "\<exists>k. s1 = s\<lparr>ls_count := k\<rparr>" "r = Inr x \<Longrightarrow> x = map_option (\<lambda>(v, _, c). (v, c)) (sr_dirs (ls_store sha3 s) i)"
proof -
  have row: "\<exists>c. map_of (ls_dirfiles s) (dir_path sha3 i (dr_ver r)) = Some c \<and> nat (dr_length r) \<le> length c"
    if "map_of (ld_dirs (ls_db s)) i = Some r" for r
  proof -
    from assms(1,2) that obtain c where "map_of (ls_dirfiles s) (dir_path sha3 i (dr_ver r)) = Some c" "dr_length r \<le> int (length c)"
      unfolding ls_inv_def files_ok_def ls_committed_def by (auto, blast)
    then show ?thesis by auto
  qed
  have t: "tick s = s\<lparr>ls_count := Suc (ls_count s)\<rparr>" for s by (simp add: tick_def)
  show "\<exists>k. s1 = s\<lparr>ls_count := k\<rparr>"
    using assms(3) row by (auto simp: ls_bind_def sql_step_def io_step_def ls_ok_def ls_err_def t split: option.split_asm if_split_asm) force?
  show "r = Inr x \<Longrightarrow> x = map_option (\<lambda>(v, _, c). (v, c)) (sr_dirs (ls_store sha3 s) i)"
    using assms(2,3) row
    by (auto simp: ls_bind_def sql_step_def io_step_def ls_ok_def ls_err_def ls_store_def store_of_def dirs_of_def ls_committed_def
        split: option.split_asm if_split_asm)
qed

lemma store_keys_db: "ls_saved s = None \<Longrightarrow> store_keys (ls_store sha3 s) = db_keys (ls_db s)"
  by (auto simp: store_keys_def ls_store_def ls_committed_def store_of_def dirs_of_def db_keys_iff)

lemma ls_fresh_versions:
  assumes "ls_saved s = None" "mkdir_keys ops = [(i, v)]" "list_all (\<lambda>op. mkdir_key op \<noteq> [] \<or> op_typed op) ops" "ls_fresh sha3 (ls_store sha3 s) i v"
  shows "fresh_versions sha3 (ls_db s) ops"
proof -
  have "op_typed op" if "op \<in> set ops" for op
  proof (cases op)
    case (Mkdir j u sv c)
    with that have "(j, u) \<in> set (mkdir_keys ops)" by (force simp: mkdir_keys_def)
    with assms(2,4) Mkdir show ?thesis by (simp add: ls_fresh_def)
  qed (use assms(3) that in \<open>auto simp: list_all_iff\<close>)
  then show ?thesis
    using assms(2,4) by (simp add: fresh_versions_def ls_fresh_def list_all_iff store_keys_db [OF assms(1)] del: inj_on_insert)
qed

lemma ls_ready_blind:
  "ls_ready sha3 (s\<lparr>ls_txns := t\<rparr>) = ls_ready sha3 s" "ls_store sha3 (s\<lparr>ls_txns := t\<rparr>) = ls_store sha3 s"
  "ls_ready sha3 (s\<lparr>ls_count := k\<rparr>) = ls_ready sha3 s" "ls_store sha3 (s\<lparr>ls_count := k\<rparr>) = ls_store sha3 s"
  by (simp_all add: ls_ready_def ls_inv_def ls_store_def ls_committed_def split: option.split)

interpretation loc: tx_storage "local_storage sha3 flt" "ls_store sha3" ls_pending "ls_ready sha3" "ls_fresh sha3" for sha3 flt
proof
  fix s i s1 d
  assume "ls_ready sha3 s" "st_getdir (local_storage sha3 flt) s i = (s1, d)"
  then have g: "ls_inv sha3 s" "ls_saved s = None" "getdir_loop sha3 flt (Suc 255) i s = (s1, d)"
    by (simp_all only: ls_ready_def local_storage_def storage.simps getdir_unroll)
  from getdir_loop_faulty [OF g] \<open>ls_ready sha3 s\<close>
  show "ls_ready sha3 s1 \<and> ls_store sha3 s1 = ls_store sha3 s \<and> ls_pending s1 = ls_pending s \<and>
      (\<forall>x. d = Inr x \<longrightarrow> x = map_option (\<lambda>(v, _, c). (v, c)) (sr_dirs (ls_store sha3 s) i))"
    by (auto simp: ls_ready_blind ls_pending_def)
next
  fix s ops i v s1 b
  assume a: "ls_ready sha3 s" "ls_pending s = Some ops" "mkdir_keys ops = [(i, v)]"
    "list_all (\<lambda>op. mkdir_key op \<noteq> [] \<or> op_typed op) ops" "ls_fresh sha3 (ls_store sha3 s) i v"
    "st_commit (local_storage sha3 flt) s 0 = (s1, b)"
  then have r: "ls_inv sha3 s" "ls_saved s = None" "map_of (ls_txns s) 0 = Some ops" "commit sha3 flt 0 s = (s1, b)"
    by (simp_all add: ls_ready_def ls_pending_def local_storage_def)
  from commit_meets_spec [OF r(1-3) ls_fresh_versions [OF r(2) a(3-5)] r(4)]
  show "(is_ok b \<longrightarrow> ls_ready sha3 s1) \<and>
      (if b = Inr True then apply_ops ops (ls_store sha3 s) = Inr (Some (ls_store sha3 s1)) else ls_store sha3 s1 = ls_store sha3 s)"
    by (simp add: commit_spec_def ls_ready_def)
qed (auto simp: local_storage_def start_tx_def tx_add_def abort_def ls_pending_def ls_ready_blind split: option.split_asm if_split_asm)

definition edit_post :: "(bytes \<Rightarrow> hash_id) \<Rightarrow> ('s, 'u) km_env \<Rightarrow> local_storage km_state \<Rightarrow> local_storage km_state \<Rightarrow> 'r res \<Rightarrow> string set \<Rightarrow> bool" where
  "edit_post sha3 env w w1 x G =
     (case x of
        Inl _ \<Rightarrow> ls_store sha3 (km_st w1) = ls_store sha3 (km_st w)
      | Inr _ \<Rightarrow> \<exists>kl1. stored_kdf env (ls_store sha3 (km_st w1)) = Some kl1 \<and> kdf_inv kl1 \<and> all_groups kl1 = G)"

lemma edit_stored:
  assumes "key_edit f effect pre" "\<And>kl rk. quiet (f kl rk)" "en_storage env = local_storage sha3 flt" "codec_ok env" "ls_ready sha3 (km_st w)"
    "\<forall>n. ls_fresh sha3 (ls_store sha3 (km_st w)) DIRID_KEYS (en_rand env n)" "pre"
    "stored_kdf env (ls_store sha3 (km_st w)) = Some kl" "kdf_inv kl" "edit_kdflist env prompt f w = (w1, x)"
  shows "edit_post sha3 env w w1 x (effect (all_groups kl))"
proof (cases x)
  case (Inl e)
  with loc.edit_loop [OF assms(3,2,5,6) assms(10) [unfolded edit_kdflist_def do_tx_def]] show ?thesis by (simp add: edit_post_def)
next
  case (Inr r)
  with loc.edit_loop [OF assms(3,2,5,6) assms(10) [unfolded edit_kdflist_def do_tx_def]]
  have "edited env f (ls_store sha3 (km_st w)) (ls_store sha3 (km_st w1)) r" by simp
  then obtain rk wa wb kl1 rk1 b1 where e: "f kl rk wa = (wb, Inr (kl1, rk1, r))" "en_to_vec env kl1 = Inr b1"
    "stored_kdf env (ls_store sha3 (km_st w1)) = Some kl1"
    using assms(4,8) unfolding edited_def by (force simp: stored_kdf_def codec_ok_def)
  from key_edit.edit_law [OF assms(1,7) e(1) assms(9)] e(3) Inr show ?thesis by (auto simp: edit_post_def)
qed

lemma usage_post: "usage u w = (w1, x) \<Longrightarrow> edit_post sha3 env w w1 x G"
  by (auto simp: km_simps edit_post_def)

section \<open>Properties\<close>

text \<open>C33. On the local storage, with a fault possible at any step, an operation that edits the key list and returns an error
  leaves the storage as it was. One that succeeds leaves a list in which every key is in \<open>everyone\<close> and some key in \<open>root\<close>,
  if that held before, and in which exactly the groups exist that should: created groups are added, destroyed ones are gone, and no other
  operation makes a group disappear or appear.\<close>

theorem key_ops_keep_groups:
  assumes "en_storage env = local_storage sha3 flt" "env_ok env" "codec_ok env" "ls_ready sha3 (km_st w)"
    and "\<forall>n. ls_fresh sha3 (ls_store sha3 (km_st w)) DIRID_KEYS (en_rand env n)"
    and "stored_kdf env (ls_store sha3 (km_st w)) = Some kl" "kdf_inv kl" "run_op env prompt op w = (w1, x)"
  shows "case x of
      Inl _ \<Rightarrow> ls_store sha3 (km_st w1) = ls_store sha3 (km_st w)
    | Inr _ \<Rightarrow> \<exists>kl1. stored_kdf env (ls_store sha3 (km_st w1)) = Some kl1 \<and> kdf_inv kl1 \<and> all_groups kl1 = op_groups op (all_groups kl)"
proof -
  note es = edit_stored [OF _ _ assms(1,3-5) _ assms(6,7)]
  have "edit_post sha3 env w w1 x (op_groups op (all_groups kl))"
  proof (cases op)
    case (AddKey p q n)
    with es [OF add.key_edit_axioms quiet_edits(1)] assms(8) show ?thesis by (auto simp: add_key_def intro: usage_post split: if_split_asm)
  next
    case (DelKey n)
    with es [OF del.key_edit_axioms quiet_edits(2)] assms(8) show ?thesis by (auto simp: del_key_def)
  next
    case (ChangeKey p q m b)
    with es [OF change.key_edit_axioms quiet_edits(3)] assms(8) show ?thesis by (auto simp: change_key_def)
  next
    case (CreateGroup p gs)
    with es [OF create.key_edit_axioms quiet_edits(4)] assms(2,8) show ?thesis
      by (auto simp: create_group_def intro: usage_post split: if_split_asm)
  next
    case (AssocGroup p q gs)
    with es [OF assoc.key_edit_axioms quiet_edits(5)] assms(8) show ?thesis by (auto simp: assoc_group_def)
  next
    case (DisassocGroup n gs)
    with es [OF disassoc.key_edit_axioms quiet_edits(6)] assms(8) show ?thesis
      by (auto simp: disassoc_group_def intro: usage_post split: if_split_asm)
  next
    case (DestroyGroup gs)
    with es [OF destroy.key_edit_axioms quiet_edits(7)] assms(8) show ?thesis
      by (auto simp: destroy_group_def filter_empty_conv intro: usage_post split: list.split_asm) blast
  qed
  then show ?thesis by (simp add: edit_post_def)
qed

lemma is_okE:
  assumes "is_ok (snd (m w))"
  obtains w1 a b c where "m w = (w1, Inr (a, b, c))"
  using assms by (cases "m w"; cases "snd (m w)") auto

lemma demo_chain_ok: "chain_ok demo_chain" "map_of (kc_keys demo_chain) GROUP_EVERYONE \<noteq> None" "map_of (kc_keys demo_chain) GROUP_ROOT \<noteq> None"
  by (simp_all add: demo_chain_def chain_ok_def generate_new_def bt_sorted_def GROUP_ROOT_def GROUP_EVERYONE_def less_char_def)

lemma demo_kdf_inv: "kdf_inv demo_kdf"
proof -
  obtain e c where e: "create_key demo_crypto (replicate 32 (CHR ''s'')) ''hunter2'' demo_chain 0 None = (e, c)" by force
  with created_entry [OF demo_chain_ok(1) e] demo_chain_ok(2,3) show ?thesis
    by (auto simp: kdf_inv_def demo_kdf_def bt_sorted_def any_in_group_def)
qed

lemma demo_world_ok:
  "env_ok demo_env" "codec_ok demo_env" "ls_ready demo_sha3 (km_st demo_world)"
  "\<forall>n. ls_fresh demo_sha3 (ls_store demo_sha3 (km_st demo_world)) DIRID_KEYS (en_rand demo_env n)"
  "stored_kdf demo_env (ls_store demo_sha3 (km_st demo_world)) = Some demo_kdf"
proof -
  show "env_ok demo_env" by (auto simp: env_ok_def demo_env_def sha3_ok_def demo_crypto_def demo_id_def min_def)
  show "codec_ok demo_env" by (auto simp: codec_ok_def demo_env_def)
  show "ls_ready demo_sha3 (km_st demo_world)"
    by (auto simp: ls_ready_def ls_inv_def files_ok_def ls_committed_def demo_world_def ls_open_def demo_id_def)
  show "stored_kdf demo_env (ls_store demo_sha3 (km_st demo_world)) = Some demo_kdf"
    by (simp add: stored_kdf_def demo_env_def demo_world_def ls_store_def store_of_def dirs_of_def ls_committed_def ls_open_def)
  have k: "store_keys (ls_store demo_sha3 (km_st demo_world)) = {(DIRID_KEYS, demo_id (CHR ''v''))}"
    by (auto simp: store_keys_def demo_world_def ls_store_def store_of_def dirs_of_def ls_committed_def ls_open_def split: if_split_asm)
  have "dir_path demo_sha3 DIRID_KEYS (demo_id (CHR ''w'')) \<noteq> dir_path demo_sha3 DIRID_KEYS (demo_id (CHR ''v''))" by code_simp
  then show "\<forall>n. ls_fresh demo_sha3 (ls_store demo_sha3 (km_st demo_world)) DIRID_KEYS (en_rand demo_env n)"
    unfolding ls_fresh_def k by (auto simp: demo_env_def demo_id_def)
qed

theorem key_ops_keep_groups_witness:
  "case snd (run_op demo_env (\<lambda>_. Inr ''hunter2'') (DelKey ''first'') demo_world) of
      Inl _ \<Rightarrow> ls_store demo_sha3 (km_st (fst (run_op demo_env (\<lambda>_. Inr ''hunter2'') (DelKey ''first'') demo_world))) =
          ls_store demo_sha3 (km_st demo_world)
    | Inr _ \<Rightarrow> \<exists>kl1. stored_kdf demo_env (ls_store demo_sha3 (km_st (fst (run_op demo_env (\<lambda>_. Inr ''hunter2'') (DelKey ''first'') demo_world)))) = Some kl1 \<and>
        kdf_inv kl1 \<and> all_groups kl1 = op_groups (DelKey ''first'') (all_groups demo_kdf)"
proof (rule key_ops_keep_groups [OF _ demo_world_ok demo_kdf_inv])
  show "en_storage demo_env = local_storage demo_sha3 (\<lambda>_. None)" by (simp add: demo_env_def)
qed simp

text \<open>C34. After adding a key, the new passphrase derives exactly the internal keys the old one does, although neither is stored.\<close>

theorem new_passphrase_derives:
  assumes "env_ok env" "kdf_inv kl" "add_key_edit env old_passphrase new_passphrase name kl rk w = (w1, Inr (kl1, rk1, r))"
  shows "\<exists>c c1. try_derive_key (en_cr env) old_passphrase (kl_keys kl) = Some c \<and>
    try_derive_key (en_cr env) new_passphrase (kl_keys kl1) = Some c1 \<and> kc_keys c1 = kc_keys c"
proof -
  from assms(3) obtain c e c1 t w2 w3 where c: "try_derive_key (en_cr env) old_passphrase (kl_keys kl) = Some c"
    and new: "try_derive_key (en_cr env) new_passphrase (kl_keys kl) = None"
    and m: "make_key env new_passphrase c t None w2 = (w3, Inr (e, c1))" and n: "map_of (kl_keys kl) name = None"
    and k: "kl1 = kl\<lparr>kl_keys := bt_insert name e (kl_keys kl)\<rparr>"
    by (auto simp: add_key_edit_def km_simps split: if_split_asm)
  note ch = kdf_inv_chain(1) [OF assms(2) c]
  from make_key_Inr [OF m] obtain salt where ck: "create_key (en_cr env) salt new_passphrase c t None = (e, c1)" by blast
  from created_derives [OF _ ch ck] assms(1) have "try_derive_key_single (en_cr env) new_passphrase e = Some c1" "kc_keys c1 = kc_keys c"
    by (auto simp: env_ok_def)
  with try_derive_insert [OF new _ n] c k show ?thesis by simp
qed

theorem new_passphrase_derives_witness:
  "\<exists>(kl1 :: unit kdf_list) c1. try_derive_key demo_crypto ''hunter3'' (kl_keys kl1) = Some c1 \<and> kl_keys kl1 \<noteq> kl_keys demo_kdf"
proof -
  have no: "try_derive_key demo_crypto ''hunter3'' (kl_keys demo_kdf) = None" by code_simp
  obtain e c where "create_key demo_crypto (replicate 32 (CHR ''s'')) ''hunter2'' demo_chain 0 None = (e, c)" by force
  with created_derives [OF _ demo_chain_ok(1) this] demo_world_ok(1)
  have "try_derive_key demo_crypto ''hunter2'' (kl_keys demo_kdf) = Some c" by (simp add: demo_kdf_def env_ok_def demo_env_def)
  with no have "is_ok (snd (add_key_edit demo_env ''hunter2'' ''hunter3'' ''second'' demo_kdf None demo_world))"
    by (simp add: add_key_edit_def km_bind_def km_option_def km_ok_def utc_now_def make_key_def rand_hashid_def demo_env_def create_key_def Let_def)
      (simp add: demo_kdf_def)
  then obtain w1 kl1 rk1 r where "add_key_edit demo_env ''hunter2'' ''hunter3'' ''second'' demo_kdf None demo_world = (w1, Inr (kl1, rk1, r))"
    by (rule is_okE)
  from new_passphrase_derives [OF demo_world_ok(1) demo_kdf_inv this] obtain c1 where
    "try_derive_key demo_crypto ''hunter3'' (kl_keys kl1) = Some c1" by (auto simp: demo_env_def)
  with no show ?thesis by force
qed

end
