(* ===== verification/Server_Dir_Tx.thy ===== *)
theory Server_Dir_Tx
  imports Server_Dir_Log Key_Store
begin

text \<open>
  Changing a directory on a storage. The contract of the storage is the locale \<open>dir_store\<close>: the committed directories, the
  operations buffered in each transaction, and a commit that applies them all or none. In it, a transaction that adds an entry is
  shown to leave, once committed, bytes that represent the changed files, and to leave the directories alone
  whenever it fails. The local storage, with any faults, is an interpretation.
\<close>

section \<open>Definitions\<close>

text \<open>A computation returns, its value satisfies \<open>Q\<close> and a state with an error satisfies \<open>R\<close>.\<close>

definition wpc :: "('s, 'l, 'a) cm \<Rightarrow> ('a \<Rightarrow> 's dir_world \<Rightarrow> 'l \<Rightarrow> bool) \<Rightarrow> ('s dir_world \<Rightarrow> 'l \<Rightarrow> bool) \<Rightarrow> 's dir_world \<Rightarrow> 'l \<Rightarrow> bool" where
  "wpc m Q R w c =
     (case m w c of None \<Rightarrow> False | Some (w1, c1, r) \<Rightarrow> (case r of Inl _ \<Rightarrow> R w1 c1 | Inr a \<Rightarrow> Q a w1 c1))"

type_synonym dirs = "hash_id \<rightharpoonup> hash_id \<times> hash_id \<times> bytes"

text \<open>The effect of operations on the directories.\<close>

definition dirs_after :: "tx_op list \<Rightarrow> dirs \<Rightarrow> dirs \<Rightarrow> bool" where
  "dirs_after ops D D1 = (\<exists>a a1. sr_dirs a = D \<and> apply_ops ops a = Inr (Some a1) \<and> sr_dirs a1 = D1)"

text \<open>New versions do not exist yet and their file names are free.\<close>

definition dirs_keys :: "dirs \<Rightarrow> (hash_id \<times> hash_id) set" where
  "dirs_keys D = {(i, v). \<exists>sv c. D i = Some (v, sv, c)}"

definition ops_fresh :: "(bytes \<Rightarrow> hash_id) \<Rightarrow> dirs \<Rightarrow> tx_op list \<Rightarrow> bool" where
  "ops_fresh sha3 D ops =
     (list_all op_typed ops \<and> distinct (mkdir_keys ops) \<and> set (mkdir_keys ops) \<inter> dirs_keys D = {} \<and>
      inj_on (\<lambda>(i, v). dir_path sha3 i v) (set (mkdir_keys ops) \<union> dirs_keys D))"

text \<open>What a client knows of a stored directory: nothing yet, or its files and version.\<close>

definition coherent ::
  "('s, 'c, 'u) dir_env \<Rightarrow> (bool \<Rightarrow> bytes \<Rightarrow> bytes \<Rightarrow> bytes \<Rightarrow> bytes) \<Rightarrow> server_dir \<Rightarrow> hash_id \<times> hash_id \<times> bytes \<Rightarrow>
   (os_string \<rightharpoonup> 'u entry) \<Rightarrow> 64 word \<Rightarrow> 'u dir_content \<Rightarrow> bool" where
  "coherent env E d s fs ver c =
     (ct_synth c = None \<and> (ct_is_valid c \<longrightarrow> dir_repr env E d c s \<and> map_of (ct_files c) = fs \<and> ct_version c = ver) \<and>
      (\<exists>c0. dir_repr env E d c0 s \<and> map_of (ct_files c0) = fs \<and> ct_version c0 = ver))"

text \<open>Operations that leave one directory alone, and operations on objects only.\<close>

fun quiet_op :: "hash_id \<Rightarrow> tx_op \<Rightarrow> bool" where
  "quiet_op i (Mkdir j _ _ _) = (j \<noteq> i)"
| "quiet_op i (Updir j _ _ _) = (j \<noteq> i)"
| "quiet_op i (Rmdir j _ _) = (j \<noteq> i)"
| "quiet_op i _ = True"

definition object_ops :: "tx_op list \<Rightarrow> bool" where
  "object_ops ops = (list_all op_typed ops \<and> mkdir_keys ops = [] \<and> (\<forall>j. list_all (quiet_op j) ops))"

text \<open>What a step of a transaction on a directory leaves: the content represents the directory once everything buffered is applied.\<close>

definition tracks ::
  "('s, 'c, 'u) dir_env \<Rightarrow> (bool \<Rightarrow> bytes \<Rightarrow> bytes \<Rightarrow> bytes \<Rightarrow> bytes) \<Rightarrow> server_dir \<Rightarrow> dirs \<Rightarrow> tx_op list \<Rightarrow> 'u dir_content \<Rightarrow> bool" where
  "tracks env E d D ops c = (\<exists>s. dir_repr env E d c s \<and> (\<forall>D1. dirs_after ops D D1 \<longrightarrow> D1 (di_id d) = Some s))"

text \<open>The version of a directory that a rewrite creates, and the directories an edit may create.\<close>

definition new_keys :: "('s, 'c, 'u) dir_env \<Rightarrow> server_dir \<Rightarrow> 64 word \<Rightarrow> 64 word \<Rightarrow> tx_op list \<Rightarrow> bool" where
  "new_keys env d ver ver1 ops =
     (list_all op_typed ops \<and>
      (mkdir_keys ops = [] \<and> ver1 = ver \<or>
       (\<exists>cv. mkdir_keys ops = [(di_id d, cv)] \<and> ver1 = ver + 1 \<and> encrypt_dir_ver (dv_ci env) (di_id d) ver1 (dv_key env) = Some cv)))"

definition edit_keys :: "('s, 'c, 'u) dir_env \<Rightarrow> server_dir \<Rightarrow> 64 word \<Rightarrow> (hash_id \<times> hash_id) set" where
  "edit_keys env d ver =
     {(i, cv). i = di_id d \<and> encrypt_dir_ver (dv_ci env) i (ver + 1) (dv_key env) = Some cv \<or>
        (\<exists>n. i = dv_rand env n \<and> encrypt_dir_ver (dv_ci env) i 1 (dv_key env) = Some cv)}"

definition child_ops :: "('s, 'c, 'u) dir_env \<Rightarrow> tx_op list \<Rightarrow> bool" where
  "child_ops env ops =
     (object_ops ops \<or>
      (\<exists>n cv sv data. ops = [Mkdir (dv_rand env n) cv sv data] \<and> encrypt_dir_ver (dv_ci env) (dv_rand env n) 1 (dv_key env) = Some cv \<and> length cv = 32))"

text \<open>Every identifier of a link has 32 bytes.\<close>

definition links_typed :: "(hash_id \<times> hash_id) list \<Rightarrow> bool" where
  "links_typed bs = (\<forall>(i, l)\<in>set bs. length l = 32)"

definition entry_typed :: "'u entry \<Rightarrow> bool" where
  "entry_typed e = (case e of ERegular _ _ _ _ _ bs _ \<Rightarrow> (\<forall>(i, l)\<in>set bs. length l = 32) | _ \<Rightarrow> True)"

definition files_typed :: "(os_string \<rightharpoonup> 'u entry) \<Rightarrow> bool" where
  "files_typed fs = (\<forall>n m sz tm h bsz bs u. fs n = Some (ERegular m sz tm h bsz bs u) \<longrightarrow> (\<forall>(i, l)\<in>set bs. length l = 32))"

text \<open>The entry that is written for a request.\<close>

definition new_matches :: "file_data option \<Rightarrow> 'u entry \<Rightarrow> bool" where
  "new_matches new e =
     (case (new, v0_entry_to_filedata e) of
        (None, None) \<Rightarrow> True
      | (Some (Directory m), Some (Directory m1)) \<Rightarrow> m1 = m
      | (Some (Symlink tg), Some (Symlink tg1)) \<Rightarrow> tg1 = tg
      | (Some (Regular m sz tm _), Some (Regular m1 sz1 tm1 _)) \<Rightarrow> m1 = m \<and> sz1 = sz \<and> tm1 = tm
      | _ \<Rightarrow> False)"

definition subdir_of :: "'u entry option \<Rightarrow> hash_id option" where
  "subdir_of x = (case x of Some (EDirectory _ i _) \<Rightarrow> Some i | _ \<Rightarrow> None)"

text \<open>What an edit leaves when it is committed: stored bytes that represent the old files with the new entry at the name.\<close>

definition edited_to ::
  "('s, 'c, 'u) dir_env \<Rightarrow> (bool \<Rightarrow> bytes \<Rightarrow> bytes \<Rightarrow> bytes \<Rightarrow> bytes) \<Rightarrow> server_dir \<Rightarrow> (os_string \<rightharpoonup> 'u entry) \<Rightarrow> os_string \<Rightarrow>
   file_data option \<Rightarrow> (file_data option \<Rightarrow> unit res) \<Rightarrow> dirs \<Rightarrow> file_data option \<Rightarrow> 'u dir_content \<Rightarrow> bool" where
  "edited_to env E d fs name new test D1 ret c1 =
     ((\<exists>s1. D1 (di_id d) = Some s1 \<and> dir_repr env E d c1 s1) \<and>
      (\<exists>e. ret = v0_entry_to_filedata e \<and> new_matches new e \<and> entry_typed e \<and> is_ok (test (Option.bind (fs name) v0_entry_to_filedata)) \<and>
         map_of (ct_files c1) = file_upd (name, e) fs))"

section \<open>Lemmas\<close>

subsection \<open>Computations\<close>

lemma wpc_mono:
  "wpc m Q R w c \<Longrightarrow> (\<And>a w1 c1. Q a w1 c1 \<Longrightarrow> Q1 a w1 c1) \<Longrightarrow> (\<And>w1 c1. R w1 c1 \<Longrightarrow> R1 w1 c1) \<Longrightarrow> wpc m Q1 R1 w c"
  by (auto simp: wpc_def split: option.splits sum.splits)

lemma wpcE:
  assumes "wpc m Q R w c"
  obtains w1 c1 r where "m w c = Some (w1, c1, r)" "case r of Inl _ \<Rightarrow> R w1 c1 | Inr a \<Rightarrow> Q a w1 c1"
  using assms unfolding wpc_def by (auto split: option.split_asm)

lemma wpc_simps [simp]:
  "wpc (cm_ok a) Q R w c = Q a w c"
  "wpc (cm_err k) Q R w c = R w c"
  "wpc (cm_res r) Q R w c = (case r of Inl _ \<Rightarrow> R w c | Inr a \<Rightarrow> Q a w c)"
  "wpc (cm_some x) Q R w c = (case x of None \<Rightarrow> False | Some a \<Rightarrow> Q a w c)"
  "wpc (cm_chain msg m) Q R w c = wpc m Q R w c"
  by (auto simp: wpc_def cm_ok_def cm_err_def cm_res_def cm_some_def cm_chain_def chain_err_def split: option.splits sum.splits)

lemma wpc_bind [simp]: "wpc (cm_bind m f) Q R w c = wpc m (\<lambda>a. wpc (f a) Q R) R w c"
  by (auto simp: wpc_def cm_bind_def split: option.splits sum.splits)

lemma wpc_get [simp]: "wpc cm_get Q R w c = Q c w c"
  by (simp add: wpc_def cm_get_def)

lemma wpc_mod [simp]: "wpc (cm_mod g) Q R w c = Q () w (g c)"
  by (simp add: wpc_def cm_mod_def)

lemma wpc_rand [simp]: "wpc (cm_rand env) Q R w c = Q (dv_rand env (dw_drawn w)) (w\<lparr>dw_drawn := dw_drawn w + 1\<rparr>) c"
  by (simp add: wpc_def cm_rand_def)

lemma wpc_part [simp]:
  "wpc (cm_fst m) Q R w (c, x) = wpc m (\<lambda>a w1 c1. Q a w1 (c1, x)) (\<lambda>w1 c1. R w1 (c1, x)) w c"
  by (auto simp: wpc_def cm_fst_def split: option.splits sum.splits)

lemma wpc_part2 [simp]:
  "wpc (cm_snd m) Q R w (c, x) = wpc m (\<lambda>a w1 x1. Q a w1 (c, x1)) (\<lambda>w1 x1. R w1 (c, x1)) w x"
  by (auto simp: wpc_def cm_snd_def split: option.splits sum.splits)

lemma wpc_within [simp]:
  "wpc (cm_within c0 m) Q R w l = wpc m (\<lambda>a w1 c1. Q (a, c1) w1 l) (\<lambda>w1 _. R w1 l) w c0"
  by (auto simp: wpc_def cm_within_def split: option.splits sum.splits)

lemma wpc_st:
  "wpc (cm_st f) Q R w c = (\<forall>s1 r. f (dw_st w) = (s1, r) \<longrightarrow> (case r of Inl _ \<Rightarrow> R (w\<lparr>dw_st := s1\<rparr>) c | Inr a \<Rightarrow> Q a (w\<lparr>dw_st := s1\<rparr>) c))"
  by (auto simp: wpc_def cm_st_def split: prod.splits)

lemma wpc_sql:
  assumes "R (w\<lparr>dw_count := dw_count w + 1\<rparr>) c" "Q (snd (f (dw_db w))) (w\<lparr>dw_db := fst (f (dw_db w)), dw_count := dw_count w + 1\<rparr>) c"
  shows "wpc (cm_sql env f) Q R w c"
  using assms by (auto simp: wpc_def cm_sql_def split: option.splits prod.splits)

lemma cm_bind_ok: "cm_bind (cm_ok a) f = f a"
  by (intro ext) (simp add: cm_bind_def cm_ok_def)

lemma wpc_put_chunk:
  "BLKSZ dvd length dst \<Longrightarrow>
   wpc (put_chunk env d dst b) Q R w c =
     (case read_key env d of
        Inl _ \<Rightarrow> R w c
      | Inr k \<Rightarrow> Q (dst @ log_bytes (dv_cr env) k (ct_prev_hmac c) [b]) w (c\<lparr>ct_prev_hmac := log_mac (dv_cr env) k (ct_prev_hmac c) [b]\<rparr>))"
  by (cases "read_key env d") (simp_all add: put_chunk_def encode_chunk_log del: log_bytes.simps, simp add: encode_chunk_def)

lemma wpc_write_secret:
  "wpc (write_secret env d) Q R w c =
     (case write_key env d of Inl _ \<Rightarrow> R w c | Inr k \<Rightarrow> Q (secret_dir_ver (dv_cr env) (ct_cipher_version c) k) w c)"
  by (cases "write_key env d") (simp_all add: write_secret_def)

subsection \<open>Operations on the directories\<close>

lemma apply_ops_append:
  "apply_ops (ops @ ops1) a = (case apply_ops ops a of Inl e \<Rightarrow> Inl e | Inr None \<Rightarrow> Inr None | Inr (Some a1) \<Rightarrow> apply_ops ops1 a1)"
  by (induction ops arbitrary: a) (auto split: sum.split option.split)

lemma dirs_after_append:
  "dirs_after (ops @ ops1) D D2 \<Longrightarrow> \<exists>D1. dirs_after ops D D1 \<and> dirs_after ops1 D1 D2"
  unfolding dirs_after_def by (fastforce simp: apply_ops_append split: sum.split_asm option.split_asm)

lemma quiet_op_dirs: "quiet_op i op \<Longrightarrow> apply_op op a = Inr (Some a1) \<Longrightarrow> sr_dirs a1 i = sr_dirs a i"
  by (cases op) (auto simp: add_ref_def split: if_split_asm option.split_asm)

lemma quiet_dirs: "list_all (quiet_op i) ops \<Longrightarrow> dirs_after ops D D1 \<Longrightarrow> D1 i = D i"
proof -
  have "sr_dirs a1 i = sr_dirs a i" if "list_all (quiet_op i) ops" "apply_ops ops a = Inr (Some a1)" for a a1
    using that by (induction ops arbitrary: a) (auto dest: quiet_op_dirs split: sum.split_asm option.split_asm)
  then show "list_all (quiet_op i) ops \<Longrightarrow> dirs_after ops D D1 \<Longrightarrow> D1 i = D i" by (auto simp: dirs_after_def)
qed

lemma updir_dirs:
  "dirs_after [Updir i sv n z] D D1 \<Longrightarrow> D i = Some (v, sv1, x) \<Longrightarrow> D1 i = Some (v, sv, x @ z) \<and> sv1 = sv \<and> length x = unat n"
proof -
  assume "dirs_after [Updir i sv n z] D D1" "D i = Some (v, sv1, x)"
  then obtain a a1 where "sr_dirs a i = Some (v, sv1, x)" "apply_ops [Updir i sv n z] a = Inr (Some a1)" "D1 = sr_dirs a1"
    by (auto simp: dirs_after_def)
  then show ?thesis by (auto simp: modifiable_def split: if_split_asm)
qed

lemma rewrite_dirs: "dirs_after [Rmdir i sv n, Mkdir i v sv1 x] D D1 \<Longrightarrow> D1 i = Some (v, sv1, x)"
  by (auto simp: dirs_after_def modifiable_def split: if_split_asm option.split_asm)

lemma mkdir_keys_append [simp]: "mkdir_keys (ops @ ops1) = mkdir_keys ops @ mkdir_keys ops1"
  by (simp add: mkdir_keys_def)

subsection \<open>The contract of the storage\<close>

locale dir_store =
  fixes st :: "'s storage" and dirs :: "'s \<Rightarrow> dirs" and pending :: "'s \<Rightarrow> txid \<Rightarrow> tx_op list option" and ok :: "'s \<Rightarrow> bool"
    and fresh :: "dirs \<Rightarrow> tx_op list \<Rightarrow> bool"
  assumes read_law: "ok s \<Longrightarrow> st_getdir st s i = (s1, r) \<Longrightarrow> ok s1 \<and> dirs s1 = dirs s \<and> pending s1 = pending s \<and>
      (\<forall>x. r = Inr x \<longrightarrow> x = map_option (\<lambda>(v, _, c). (v, c)) (dirs s i) \<and> (\<forall>v c. x = Some (v, c) \<longrightarrow> length c < 2 ^ 32))"
    and start_law: "ok s \<Longrightarrow> st_start_tx st s t = (s1, u) \<Longrightarrow> ok s1 \<and> dirs s1 = dirs s \<and> (u = Inr () \<longrightarrow> pending s1 t = Some [])"
    and mkdir_law: "ok s \<Longrightarrow> st_mkdir st s t i v sv z = (s1, u) \<Longrightarrow> ok s1 \<and> dirs s1 = dirs s \<and>
      (\<forall>ops. pending s t = Some ops \<longrightarrow> pending s1 t = Some (ops @ [Mkdir i v sv z]))"
    and updir_law: "ok s \<Longrightarrow> st_updir st s t i sv n z = (s1, u) \<Longrightarrow> ok s1 \<and> dirs s1 = dirs s \<and>
      (\<forall>ops. pending s t = Some ops \<longrightarrow> pending s1 t = Some (ops @ [Updir i sv n z]))"
    and rmdir_law: "ok s \<Longrightarrow> st_rmdir st s t i sv n = (s1, u) \<Longrightarrow> ok s1 \<and> dirs s1 = dirs s \<and>
      (\<forall>ops. pending s t = Some ops \<longrightarrow> pending s1 t = Some (ops @ [Rmdir i sv n]))"
    and unlink_law: "ok s \<Longrightarrow> st_unlinkobj st s t i l = (s1, u) \<Longrightarrow> ok s1 \<and> dirs s1 = dirs s \<and>
      (\<forall>ops. pending s t = Some ops \<longrightarrow> pending s1 t = Some (ops @ [UnlinkObj i l]))"
    and link_law: "ok s \<Longrightarrow> st_linkobj st s t i l = (s1, b) \<Longrightarrow> ok s1 \<and> dirs s1 = dirs s \<and>
      (\<forall>ops. pending s t = Some ops \<longrightarrow> (b = Inr True \<longrightarrow> (\<exists>h. pending s1 t = Some (ops @ [LinkObj i l h]))) \<and> (b = Inr False \<longrightarrow> pending s1 t = Some ops))"
    and put_law: "ok s \<Longrightarrow> st_putobj st s t i l z = (s1, u) \<Longrightarrow> dirs s1 = dirs s \<and>
      (u = Inr () \<longrightarrow> ok s1 \<and> (\<forall>ops. pending s t = Some ops \<longrightarrow> pending s1 t = Some (ops @ [LinkObj i l z])))"
    and abort_law: "st_abort st s t = (s1, u) \<Longrightarrow> dirs s1 = dirs s"
    and commit_law: "ok s \<Longrightarrow> pending s t = Some ops \<Longrightarrow> fresh (dirs s) ops \<Longrightarrow> st_commit st s t = (s1, b) \<Longrightarrow>
      (is_ok b \<longrightarrow> ok s1) \<and> (if b = Inr True then dirs_after ops (dirs s) (dirs s1) else dirs s1 = dirs s)"
begin

text \<open>A transaction with operations buffered.\<close>

definition pend :: "dirs \<Rightarrow> txid \<Rightarrow> tx_op list \<Rightarrow> 's dir_world \<Rightarrow> bool" where
  "pend D t ops w = (ok (dw_st w) \<and> dirs (dw_st w) = D \<and> pending (dw_st w) t = Some ops)"

abbreviation same :: "dirs \<Rightarrow> 's dir_world \<Rightarrow> 'l \<Rightarrow> bool" where
  "same D w c \<equiv> dirs (dw_st w) = D"

lemma pend_blind [simp]:
  "pend D t ops (w\<lparr>dw_drawn := n\<rparr>) = pend D t ops w" "pend D t ops (w\<lparr>dw_count := m\<rparr>) = pend D t ops w"
  "pend D t ops (w\<lparr>dw_db := db\<rparr>) = pend D t ops w" "pend D t ops (w\<lparr>dw_tx := tx\<rparr>) = pend D t ops w"
  by (simp_all add: pend_def)

lemma pend_same: "pend D t ops w \<Longrightarrow> dirs (dw_st w) = D"
  by (simp add: pend_def)

text \<open>A call that buffers one operation.\<close>

lemma wpc_buffer:
  assumes "pend D t ops w" "\<And>s1 u. f (dw_st w) = (s1, u) \<Longrightarrow> ok s1 \<and> dirs s1 = dirs (dw_st w) \<and> (\<forall>o1. pending (dw_st w) t = Some o1 \<longrightarrow> pending s1 t = Some (o1 @ [op]))"
    "\<And>w1 u. pend D t (ops @ [op]) w1 \<Longrightarrow> dw_drawn w1 = dw_drawn w \<Longrightarrow> Q u w1 c" "\<And>w1. same D w1 c \<Longrightarrow> R w1 c"
  shows "wpc (cm_st f) Q R w c"
  unfolding wpc_st
proof (intro allI impI)
  fix s1 u assume f: "f (dw_st w) = (s1, u)"
  from assms(1) assms(2) [OF f] have "pend D t (ops @ [op]) (w\<lparr>dw_st := s1\<rparr>)" by (simp add: pend_def)
  with assms(3,4) pend_same show "case u of Inl _ \<Rightarrow> R (w\<lparr>dw_st := s1\<rparr>) c | Inr a \<Rightarrow> Q a (w\<lparr>dw_st := s1\<rparr>) c"
    by (cases u) fastforce+
qed

lemma log_two: "log_bytes cr k p [a] @ log_bytes cr k (log_mac cr k p [a]) [b] = log_bytes cr k p [a, b]"
  using log_append [of cr k p "[a]" "[b]"] by (simp del: log_bytes.simps)

lemma log_one_dvd: "dir_env_ok env E \<Longrightarrow> BLKSZ dvd length (log_bytes (dv_cr env) k p bs)"
  by (rule log_dvd [OF dir_env_okD(2)])

text \<open>A complete rewrite, after the old directory was removed or where there was none.\<close>

lemma rewrite_new:
  assumes env: "dv_storage env = st" "dir_env_ok env E" and c: "ct_wf c" "ct_synth c = None" and p: "pend D t ops w"
    and Q: "\<And>w1 c1 cv sv data. pend D t (ops @ [Mkdir (di_id d) cv sv data]) w1 \<Longrightarrow> dir_repr env E d c1 (cv, sv, data) \<Longrightarrow>
      map_of (ct_files c1) = map_of (ct_files c) \<Longrightarrow> ct_version c1 = ct_version c + 1 \<Longrightarrow>
      encrypt_dir_ver (dv_ci env) (di_id d) (ct_version c + 1) (dv_key env) = Some cv \<Longrightarrow> Q () w1 c1"
    and R: "\<And>w1 c1. same D w1 c1 \<Longrightarrow> R w1 c1"
  shows "wpc (rewrite env d t False) Q R w c"
proof -
  note dv = log_one_dvd [OF env(2)]
  obtain cv where cv: "encrypt_dir_ver (dv_ci env) (di_id d) (ct_version c + 1) (dv_key env) = Some cv"
    using encrypt_everyone [OF env(2)] by blast
  have r: "R w c1" "R (w\<lparr>dw_drawn := n\<rparr>) c1" for c1 n using R p by (simp_all add: pend_def)
  show ?thesis
  proof (cases "read_key env d")
    case (Inl e)
    with r cv show ?thesis by (simp add: rewrite_def Let_def wpc_put_chunk)
  next
    case k: (Inr k)
    let ?es = "dv_order env (ct_files c)" and ?ki = "dv_rand env (dw_drawn w)"
    let ?x = "log_bytes (dv_cr env) k UNKNOWN_HASH (dir_log env d (ct_version c + 1) [?es])"
    let ?data = "dir_cipher E k ?ki ?x"
    have len: "length ?data = 32 + length ?x" by (rule cipher_length [OF dir_env_okD(1,5) [OF env(2)] dv])
    obtain iv where iv: "dir_append_iv ?data = Some iv" using len by (auto simp: dir_append_iv_def BLKSZ_def)
    have x: "log_bytes (dv_cr env) k UNKNOWN_HASH [dv_ser_header env (header_of d (ct_version c + 1))] @
        log_bytes (dv_cr env) k (log_mac (dv_cr env) k UNKNOWN_HASH [dv_ser_header env (header_of d (ct_version c + 1))]) [dv_ser_pairs env ?es] = ?x"
      by (simp add: log_two dir_log_def del: log_bytes.simps)
    have hm: "log_mac (dv_cr env) k (log_mac (dv_cr env) k UNKNOWN_HASH [dv_ser_header env (header_of d (ct_version c + 1))]) [dv_ser_pairs env ?es] =
        log_mac (dv_cr env) k UNKNOWN_HASH (dir_log env d (ct_version c + 1) [?es])"
      by (simp add: dir_log_def log_mac_def)
    have enc: "encrypt_whole_dir (dv_ci env) ?ki [] ?x k = Some (?data, Inr (fst (split_key_and_iv ?ki)))"
      by (rule encrypt_whole [OF dir_env_okD(1,5) [OF env(2)] dv])
    show ?thesis
    proof (cases "write_key env d")
      case (Inl e)
      with r cv k enc iv show ?thesis
        by (simp add: rewrite_def Let_def wpc_put_chunk wpc_write_secret dv header_of_def [symmetric] x del: log_bytes.simps)
    next
      case wk: (Inr wk)
      let ?c1 = "c\<lparr>ct_version := ct_version c + 1, ct_cipher_version := cv, ct_physical_entries := of_nat (length ?es),
        ct_prev_hmac := log_mac (dv_cr env) k UNKNOWN_HASH (dir_log env d (ct_version c + 1) [?es]),
        ct_session_key := fst (split_key_and_iv ?ki), ct_length := of_nat (length ?data), ct_iv := iv\<rparr>"
      let ?sv = "secret_dir_ver (dv_cr env) cv wk"
      have rp: "dir_repr env E d ?c1 (cv, ?sv, ?data)"
        by (rule dir_reprI [OF k wk dir_env_okD(5) [OF env(2)], where ess = "[?es]"])
          (use cv iv order_files [OF env(2) c(1)] c in \<open>simp_all\<close>)
      have "wpc (cm_st (\<lambda>s. st_mkdir st s t (di_id d) cv ?sv ?data)) Q R (w\<lparr>dw_drawn := dw_drawn w + 1\<rparr>) ?c1"
      proof (rule wpc_buffer [where op = "Mkdir (di_id d) cv ?sv ?data" and D = D and ops = ops and t = t])
        fix w1 u assume "pend D t (ops @ [Mkdir (di_id d) cv ?sv ?data]) w1"
        from Q [OF this rp _ _ cv] show "Q u w1 ?c1" by simp
      qed (use p R mkdir_law in \<open>auto simp: pend_def\<close>)
      then show ?thesis
        by (simp add: rewrite_def Let_def wpc_put_chunk wpc_write_secret dv header_of_def [symmetric] x hm enc iv k wk cv env(1)
            del: log_bytes.simps)
    qed
  qed
qed

lemma rewrite_True:
  "rewrite env d t True =
     cm_bind (cm_bind (write_secret env d) (\<lambda>sv. cm_bind cm_get (\<lambda>c. cm_st (\<lambda>s. st_rmdir (dv_storage env) s t (di_id d) sv (ct_length c)))))
       (\<lambda>_. rewrite env d t False)"
  by (simp add: rewrite_def cm_bind_ok)

lemma rewrite_tracks:
  assumes env: "dv_storage env = st" "dir_env_ok env E" and c: "ct_wf c" "ct_synth c = None" and p: "pend D t ops w"
    and Q: "\<And>w1 c1 post. pend D t (ops @ post) w1 \<Longrightarrow> tracks env E d D (ops @ post) c1 \<Longrightarrow> map_of (ct_files c1) = map_of (ct_files c) \<Longrightarrow>
      new_keys env d (ct_version c) (ct_version c1) post \<Longrightarrow> Q () w1 c1"
    and R: "\<And>w1 c1. same D w1 c1 \<Longrightarrow> R w1 c1"
  shows "wpc (rewrite env d t True) Q R w c"
proof (cases "write_key env d")
  case (Inl e)
  with p R show ?thesis by (simp add: rewrite_True wpc_write_secret pend_def)
next
  case (Inr wk)
  let ?rm = "Rmdir (di_id d) (secret_dir_ver (dv_cr env) (ct_cipher_version c) wk) (ct_length c)"
  have "wpc (cm_st (\<lambda>s. st_rmdir st s t (di_id d) (secret_dir_ver (dv_cr env) (ct_cipher_version c) wk) (ct_length c)))
      (\<lambda>_. wpc (rewrite env d t False) Q R) R w c"
  proof (rule wpc_buffer [where op = ?rm, OF p])
    fix w1 u assume p1: "pend D t (ops @ [?rm]) w1"
    show "wpc (rewrite env d t False) Q R w1 c"
    proof (rule rewrite_new [OF env c p1 _ R])
      fix w2 c1 cv sv data
      assume m: "pend D t ((ops @ [?rm]) @ [Mkdir (di_id d) cv sv data]) w2" and rp: "dir_repr env E d c1 (cv, sv, data)"
        and f: "map_of (ct_files c1) = map_of (ct_files c)" "ct_version c1 = ct_version c + 1"
        and cv: "encrypt_dir_ver (dv_ci env) (di_id d) (ct_version c + 1) (dv_key env) = Some cv"
      let ?post = "[?rm, Mkdir (di_id d) cv sv data]"
      have "D1 (di_id d) = Some (cv, sv, data)" if "dirs_after (ops @ ?post) D D1" for D1
        using dirs_after_append [OF that] rewrite_dirs by blast
      with rp have "tracks env E d D (ops @ ?post) c1" by (auto simp: tracks_def)
      moreover have "length cv = 32" using encrypt_everyone [OF env(2), of "di_id d" "ct_version c + 1"] cv by auto
      then have "new_keys env d (ct_version c) (ct_version c1) ?post" using cv f(2) by (simp add: new_keys_def)
      ultimately show "Q () w2 c1" using Q [of ?post w2 c1] m f(1) by simp
    qed
  qed (use rmdir_law p R in \<open>auto simp: pend_def\<close>)
  with Inr show ?thesis by (simp add: rewrite_True wpc_write_secret env(1))
qed

lemma append_tracks:
  assumes env: "dv_storage env = st" "dir_env_ok env E" and tr: "tracks env E d D ops c" and p: "pend D t ops w"
    and Q: "\<And>w1 c1 op. pend D t (ops @ [op]) w1 \<Longrightarrow> tracks env E d D (ops @ [op]) (apply_entry (name, e) c1) \<Longrightarrow> ct_files c1 = ct_files c \<Longrightarrow>
      new_keys env d (ct_version c) (ct_version c1) [op] \<Longrightarrow> Q () w1 c1"
    and R: "\<And>w1 c1. same D w1 c1 \<Longrightarrow> R w1 c1"
  shows "wpc (append_entry env d t name e) Q R w c"
proof -
  note dv = log_one_dvd [OF env(2)]
  from tr obtain v sv data where s: "dir_repr env E d c (v, sv, data)" "\<And>D1. dirs_after ops D D1 \<Longrightarrow> D1 (di_id d) = Some (v, sv, data)"
    unfolding tracks_def by auto
  from s(1) obtain k wk ki ess where r: "read_key env d = Inr k" "write_key env d = Inr wk" "length ki = 32"
    "encrypt_dir_ver (dv_ci env) (di_id d) (ct_version c) (dv_key env) = Some (ct_cipher_version c)"
    and v: "v = ct_cipher_version c" "sv = secret_dir_ver (dv_cr env) (ct_cipher_version c) wk"
    and data: "data = dir_cipher E k ki (log_bytes (dv_cr env) k UNKNOWN_HASH (dir_log env d (ct_version c) ess))"
    and c: "ct_length c = of_nat (length data)" "dir_append_iv data = Some (ct_iv c)" "ct_session_key c = fst (split_key_and_iv ki)"
    "ct_prev_hmac c = log_mac (dv_cr env) k UNKNOWN_HASH (dir_log env d (ct_version c) ess)"
    "map_of (ct_files c) = fold file_upd (concat ess) Map.empty" "ct_wf c" "ct_synth c = None"
    by (rule dir_reprE)
  let ?x = "log_bytes (dv_cr env) k UNKNOWN_HASH (dir_log env d (ct_version c) ess)"
  let ?y = "log_bytes (dv_cr env) k (ct_prev_hmac c) [dv_ser_pairs env [(name, e)]]"
  have ne: "?x \<noteq> []" using body_len [of "dv_ser_header env (header_of d (ct_version c))"] by (auto simp: dir_log_def)
  have "\<exists>z. encrypt_append_dir (dv_ci env) [] ?y (fst (split_key_and_iv ki)) (ct_iv c) = Some (z, Inr ()) \<and>
      dir_cipher E k ki ?x @ z = dir_cipher E k ki (?x @ ?y)"
    by (rule encrypt_append [OF dir_env_okD(1) [OF env(2)] r(3) dv ne dv]) (use c(2) data in simp)
  then obtain z where z: "encrypt_append_dir (dv_ci env) [] ?y (fst (split_key_and_iv ki)) (ct_iv c) = Some (z, Inr ())"
    "data @ z = dir_cipher E k ki (?x @ ?y)" unfolding data by blast
  have xy: "?x @ ?y = log_bytes (dv_cr env) k UNKNOWN_HASH (dir_log env d (ct_version c) (ess @ [[(name, e)]]))"
    using log_append [of "dv_cr env" k UNKNOWN_HASH "dir_log env d (ct_version c) ess" "[dv_ser_pairs env [(name, e)]]"]
    by (simp add: c(4) dir_log_def del: log_bytes.simps)
  have "length (data @ z) = 32 + length (?x @ ?y)" unfolding z(2)
    by (rule cipher_length [OF dir_env_okD(1) [OF env(2)] r(3)]) (simp only: xy dv)
  moreover have "length data = 32 + length ?x" unfolding data by (rule cipher_length [OF dir_env_okD(1) [OF env(2)] r(3) dv])
  moreover have "BLKSZ \<le> length ?y" using mac_length [OF dir_env_okD(2) [OF env(2)]] by (simp add: BLKSZ_def)
  ultimately have lz: "BLKSZ \<le> length z" by (simp del: log_bytes.simps)
  then obtain iv where iv: "dir_append_iv z = Some iv" "dir_append_iv (data @ z) = Some iv" by (auto simp: dir_append_iv_def)
  let ?h = "log_mac (dv_cr env) k (ct_prev_hmac c) [dv_ser_pairs env [(name, e)]]"
  let ?c1 = "c\<lparr>ct_prev_hmac := ?h, ct_length := ct_length c + of_nat (length z), ct_iv := iv\<rparr>"
  have wf: "ct_wf (apply_entry (name, e) ?c1)" using c(6) by (simp add: entry_wf)
  have hm: "?h = log_mac (dv_cr env) k UNKNOWN_HASH (dir_log env d (ct_version c) (ess @ [[(name, e)]]))"
    by (simp add: c(4) dir_log_def log_mac_def)
  have "(of_nat (length data) :: 32 word) + of_nat (length z) = of_nat (length (data @ z))" by simp
  then have lw: "(of_nat (length data) :: 32 word) + of_nat (length z) = of_nat (length (dir_cipher E k ki (?x @ ?y)))" by (simp only: z(2))
  have rp: "dir_repr env E d (apply_entry (name, e) ?c1) (v, sv, data @ z)"
    by (rule dir_reprI [OF r(1-3), where ess = "ess @ [[(name, e)]]"])
      (use r(4) v c(1,3,5,7) iv wf hm xy lw z(2) in \<open>simp_all add: entry_frame entry_files entry_prev del: log_bytes.simps\<close>)
  let ?op = "Updir (di_id d) sv (ct_length c) z"
  have "D1 (di_id d) = Some (v, sv, data @ z)" if "dirs_after (ops @ [?op]) D D1" for D1
    using dirs_after_append [OF that] updir_dirs s(2) by blast
  with rp have t1: "tracks env E d D (ops @ [?op]) (apply_entry (name, e) ?c1)" by (auto simp: tracks_def)
  have "wpc (cm_st (\<lambda>s. st_updir st s t (di_id d) sv (ct_length c) z))
      (\<lambda>_ w1 c1. Q () w1 (c1\<lparr>ct_length := ct_length c1 + of_nat (length z), ct_iv := iv\<rparr>)) R w (c\<lparr>ct_prev_hmac := ?h\<rparr>)"
  proof (rule wpc_buffer [where op = ?op, OF p])
    fix w1 u assume p1: "pend D t (ops @ [?op]) w1"
    from Q [OF p1 t1] show "Q () w1 (c\<lparr>ct_prev_hmac := ?h, ct_length := ct_length (c\<lparr>ct_prev_hmac := ?h\<rparr>) + of_nat (length z), ct_iv := iv\<rparr>)"
      by (simp add: new_keys_def)
  qed (use updir_law p R in \<open>auto simp: pend_def\<close>)
  then show ?thesis
    by (simp add: append_entry_def wpc_put_chunk wpc_write_secret r(1,2) c(3) z(1) iv(1) v(2) env(1) del: log_bytes.simps) (rule wpc_mono, simp_all)
qed

lemma add_entry_tracks:
  assumes env: "dv_storage env = st" "dir_env_ok env E" and tr: "tracks env E d D ops c" and p: "pend D t ops w"
    and Q: "\<And>w1 c1 post. pend D t (ops @ post) w1 \<Longrightarrow> tracks env E d D (ops @ post) c1 \<Longrightarrow>
      map_of (ct_files c1) = file_upd (name, e) (map_of (ct_files c)) \<Longrightarrow> new_keys env d (ct_version c) (ct_version c1) post \<Longrightarrow> Q () w1 c1"
    and R: "\<And>w1 c1. same D w1 c1 \<Longrightarrow> R w1 c1"
  shows "wpc (add_entry env d t name e) Q R w c"
proof (cases "rewrite_instead_of_append c")
  case True
  from tr have c: "ct_wf c" "ct_synth c = None" by (auto simp: tracks_def dir_repr_def)
  have "wpc (rewrite env d t True) Q R w (apply_entry (name, e) c)"
    by (rule rewrite_tracks [OF env _ _ p _ R]) (use c Q in \<open>simp_all add: entry_wf entry_frame entry_files\<close>)
  with True show ?thesis by (simp add: add_entry_def)
next
  case False
  have "wpc (append_entry env d t name e) (\<lambda>_ w1 c1. Q () w1 (apply_entry (name, e) c1)) R w c"
    by (rule append_tracks [OF env tr p _ R]) (use Q in \<open>simp_all add: entry_frame entry_files\<close>)
  with False show ?thesis by (simp add: add_entry_def) (rule wpc_mono, simp_all)
qed

lemma refresh_coherent:
  assumes env: "dv_storage env = st" "dir_env_ok env E" and s: "D (di_id d) = Some s" "coherent env E d s fs ver c"
    and w: "ok (dw_st w)" "dirs (dw_st w) = D"
    and Q: "\<And>w1 c1. ok (dw_st w1) \<Longrightarrow> dirs (dw_st w1) = D \<Longrightarrow> pending (dw_st w1) = pending (dw_st w) \<Longrightarrow> dir_repr env E d c1 s \<Longrightarrow>
      map_of (ct_files c1) = fs \<Longrightarrow> ct_version c1 = ver \<Longrightarrow> Q () w1 c1"
    and R: "\<And>w1 c1. same D w1 c1 \<Longrightarrow> R w1 c1"
  shows "wpc (refresh_if_needed env d) Q R w c"
proof (cases "ct_is_valid c")
  case True
  with s(2) Q [OF w] show ?thesis by (simp add: refresh_if_needed_def coherent_def)
next
  case False
  obtain v sv data where vs: "s = (v, sv, data)" by (metis surj_pair)
  from s(2) vs obtain c0 where c0: "dir_repr env E d c0 (v, sv, data)" "map_of (ct_files c0) = fs" "ct_version c0 = ver" and sy: "ct_synth c = None"
    by (auto simp: coherent_def)
  have cv: "decrypt_dir_ver (dv_ci env) (di_id d) v (dv_key env) = Some ver"
    using encrypt_everyone [OF env(2), of "di_id d" ver] c0 by (auto elim!: dir_reprE)
  have "wpc (cm_st (\<lambda>s. st_getdir st s (di_id d)))
     (\<lambda>g. wpc (case g of None \<Rightarrow> cm_err DirectoryMissing
        | Some (cipher_version, cipher_data) \<Rightarrow>
            cm_bind (cm_some (decrypt_dir_ver (dv_ci env) (di_id d) cipher_version (dv_key env))) (\<lambda>version.
            cm_bind (cm_sql env (\<lambda>db. (db, map_of db (di_id d)))) (\<lambda>latest.
            cm_bind (cm_res (check_latest d version (length cipher_data) latest)) (\<lambda>_.
            cm_bind (parse_dir env d cipher_version cipher_data version) (\<lambda>new_content.
            cm_bind (cm_mod (\<lambda>_. new_content)) (\<lambda>_. save_latest_dir_ver env d)))))) Q R) R w c"
    unfolding wpc_st
  proof (intro allI impI)
    fix s1 r assume g: "st_getdir st (dw_st w) (di_id d) = (s1, r)"
    note rl = read_law [OF w(1) g]
    let ?w = "w\<lparr>dw_st := s1\<rparr>"
    have R1: "R (?w\<lparr>dw_count := n\<rparr>) c1" "R ?w c1" "R (?w\<lparr>dw_db := db, dw_count := n\<rparr>) c1" for n db c1 using R rl w(2) by simp_all
    have Q1: "Q () (?w\<lparr>dw_db := db, dw_count := n\<rparr>) c1"
      if "dir_repr env E d c1 s" "map_of (ct_files c1) = fs" "ct_version c1 = ver" for n db c1
      using Q [of "?w\<lparr>dw_db := db, dw_count := n\<rparr>" c1] rl w(2) that by simp
    show "case r of Inl _ \<Rightarrow> R ?w c | Inr g \<Rightarrow> wpc (case g of None \<Rightarrow> cm_err DirectoryMissing
        | Some (cipher_version, cipher_data) \<Rightarrow>
            cm_bind (cm_some (decrypt_dir_ver (dv_ci env) (di_id d) cipher_version (dv_key env))) (\<lambda>version.
            cm_bind (cm_sql env (\<lambda>db. (db, map_of db (di_id d)))) (\<lambda>latest.
            cm_bind (cm_res (check_latest d version (length cipher_data) latest)) (\<lambda>_.
            cm_bind (parse_dir env d cipher_version cipher_data version) (\<lambda>new_content.
            cm_bind (cm_mod (\<lambda>_. new_content)) (\<lambda>_. save_latest_dir_ver env d)))))) Q R ?w c"
    proof (cases r)
      case (Inr g)
      from rl w(2) s(1) vs Inr have g: "g = Some (v, data)" and l: "length data < 2 ^ 32" by auto
      have parse: "wpc (parse_dir env d v data ver) Q2 R2 w2 l2"
        if "\<And>c1. dir_repr env E d c1 s \<Longrightarrow> map_of (ct_files c1) = fs \<Longrightarrow> ct_version c1 = ver \<Longrightarrow> Q2 c1 w2 l2" for Q2 R2 w2 and l2 :: "'u dir_content"
        using parse_repr [OF env(2) c0(1) l, of w2 l2] c0(2,3) that vs by (auto simp: wpc_def)
      show ?thesis
        by (simp add: Inr g cv, rule wpc_sql, simp add: R1, simp split: sum.split, intro conjI allI impI, simp add: R1)
          (rule parse, simp add: save_latest_dir_ver_def, rule wpc_sql, simp_all add: R1 Q1)
    qed (use R1 in simp)
  qed
  with False sy show ?thesis by (simp add: refresh_if_needed_def refresh_def env(1))
qed

lemma unlink_pend:
  assumes "dv_storage env = st" "pend D t ops w" "\<forall>(i, l)\<in>set bs. length l = 32"
    and "\<And>w1 ops1. pend D t (ops @ ops1) w1 \<Longrightarrow> object_ops ops1 \<Longrightarrow> Q () w1 c"
    and R: "\<And>w1. same D w1 c \<Longrightarrow> R w1 c"
  shows "wpc (unlink_blocks env t bs) Q R w c"
  using assms(2-4)
proof (induction bs arbitrary: w ops)
  case Nil
  then show ?case using Nil.prems(3) [of "[]"] by (simp add: object_ops_def mkdir_keys_def)
next
  case (Cons b bs)
  obtain i l where b: "b = (i, l)" by force
  let ?op = "UnlinkObj (xform_obj_id (dv_cr env) i) l"
  have "wpc (cm_st (\<lambda>s. st_unlinkobj st s t (xform_obj_id (dv_cr env) i) l)) (\<lambda>_. wpc (unlink_blocks env t bs) Q R) R w c"
  proof (rule wpc_buffer [where op = ?op, OF Cons.prems(1)])
    fix w1 u assume p1: "pend D t (ops @ [?op]) w1"
    show "wpc (unlink_blocks env t bs) Q R w1 c"
    proof (rule Cons.IH [OF p1])
      fix w2 ops1
      assume "pend D t ((ops @ [?op]) @ ops1) w2" "object_ops ops1"
      with Cons.prems(2) b show "Q () w2 c" by (intro Cons.prems(3) [of "?op # ops1"]) (auto simp: object_ops_def)
    qed (use Cons.prems(2) in auto)
  qed (use unlink_law Cons.prems(1) R in \<open>auto simp: pend_def\<close>)
  with b assms(1) show ?case by simp
qed

lemma lookup_coherent:
  assumes env: "dv_storage env = st" "dir_env_ok env E" and s: "D (di_id d) = Some s" "coherent env E d s fs ver c"
    and w: "pend D t ops w"
    and Q: "\<And>w1 c1. pend D t ops w1 \<Longrightarrow> dir_repr env E d c1 s \<Longrightarrow> map_of (ct_files c1) = fs \<Longrightarrow> ct_version c1 = ver \<Longrightarrow> Q (fs name) w1 c1"
    and R: "\<And>w1 c1. same D w1 c1 \<Longrightarrow> R w1 c1"
  shows "wpc (lookup_opt env d name) Q R w c"
proof -
  from w have o: "ok (dw_st w)" "dirs (dw_st w) = D" by (simp_all add: pend_def)
  have "wpc (refresh_if_needed env d) (\<lambda>_ w1 c1. Q (map_of (ct_files c1) name) w1 c1) R w c"
    by (rule refresh_coherent [OF env s o _ R]) (use Q w in \<open>auto simp: pend_def\<close>)
  then show ?thesis by (simp add: lookup_opt_def) (rule wpc_mono, simp_all)
qed

lemma edit_old_pend:
  assumes env: "dv_storage env = st" "dir_env_ok env E" and s: "D (di_id d) = Some s" "coherent env E d s fs ver c"
    and w: "pend D t [] w" and ty: "files_typed fs"
    and Q: "\<And>w1 c1 ops. pend D t ops w1 \<Longrightarrow> object_ops ops \<Longrightarrow> dir_repr env E d c1 s \<Longrightarrow> map_of (ct_files c1) = fs \<Longrightarrow> ct_version c1 = ver \<Longrightarrow>
      Q (subdir_of (fs name), Option.bind (fs name) v0_entry_to_filedata) w1 c1"
    and R: "\<And>w1 c1. same D w1 c1 \<Longrightarrow> R w1 c1"
  shows "wpc (edit_old env d t name) Q R w c"
  unfolding edit_old_def wpc_bind
proof (rule lookup_coherent [OF env s w _ R])
  fix w1 c1 assume p1: "pend D t [] w1" and c1: "dir_repr env E d c1 s" "map_of (ct_files c1) = fs" "ct_version c1 = ver"
  note q = Q [OF p1 _ c1] and q1 = Q [OF _ _ c1]
  from c1(1) have wf: "ct_wf c1" by (auto simp: dir_repr_def)
  show "wpc (case fs name of
         Some (EDeleted _) \<Rightarrow> cm_some None
       | Some (EDirectory mode i _) \<Rightarrow> cm_ok (Some i, Some (Directory mode))
       | Some (ESymlink target _) \<Rightarrow> cm_ok (None, Some (Symlink target))
       | Some (ERegular mode sz time hm _ blocks _) \<Rightarrow>
           cm_bind (unlink_blocks env t blocks) (\<lambda>_. cm_ok (None, Some (Regular mode sz time hm)))
       | Some (EUnknown _ _) \<Rightarrow> cm_ok (None, Some Special)
       | None \<Rightarrow> cm_ok (None, None)) Q R w1 c1"
  proof (cases "fs name")
    case (Some e)
    show ?thesis
    proof (cases e)
      case (EDeleted u)
      with Some c1(2) have "(name, EDeleted u) \<in> set (ct_files c1)" by (auto dest: map_of_SomeD)
      with wf show ?thesis by (auto simp: ct_wf_def list_all_iff)
    next
      case (ERegular m sz tm h bsz bs u)
      with Some ty have "\<forall>(i, l)\<in>set bs. length l = 32" unfolding files_typed_def by blast
      from unlink_pend [OF env(1) p1 this, of "\<lambda>_ w2 c2. Q (None, Some (Regular m sz tm h)) w2 c2" c1 R] q1 R
      have "wpc (unlink_blocks env t bs) (\<lambda>_ w2 c2. Q (None, Some (Regular m sz tm h)) w2 c2) R w1 c1"
        by (simp add: Some ERegular subdir_of_def v0_entry_to_filedata_def)
      then show ?thesis by (simp add: Some ERegular) (rule wpc_mono, simp_all)
    qed (use q in \<open>simp_all add: Some subdir_of_def v0_entry_to_filedata_def object_ops_def mkdir_keys_def\<close>)
  qed (use q in \<open>simp add: subdir_of_def object_ops_def mkdir_keys_def\<close>)
qed

lemma object_ops_append: "object_ops ops \<Longrightarrow> object_ops ops1 \<Longrightarrow> object_ops (ops @ ops1)"
  by (simp add: object_ops_def)

lemma put_block_pend:
  assumes env: "dv_storage env = st" "dir_env_ok env E" and p: "pend D t ops w"
    and Q: "\<And>w1 op l. pend D t (ops @ [op]) w1 \<Longrightarrow> object_ops [op] \<Longrightarrow> length l = 32 \<Longrightarrow> Q () w1 (bs @ [(h, l)])"
    and R: "\<And>w1 c1. same D w1 c1 \<Longrightarrow> R w1 c1"
  shows "wpc (put_block env t h b) Q R w bs"
proof -
  let ?l = "dv_rand env (dw_drawn w)" and ?i = "xform_obj_id (dv_cr env) h"
  let ?w = "w\<lparr>dw_drawn := dw_drawn w + 1\<rparr>"
  have l: "length ?l = 32" by (rule dir_env_okD(5) [OF env(2)])
  have "\<exists>z r. encrypt_obj (dv_ci env) slice_read vec_write [] (dv_gzip env b) h = Some (z, r, Inr ())"
  proof -
    have "feeds (dv_ci env) (ci_enc (dv_ci env) True (take BLKSZ h) (drop BLKSZ h)) (dv_gzip env b) (E True (take BLKSZ h) (drop BLKSZ h) (dv_gzip env b))"
      by (rule cbcD(1) [OF dir_env_okD(1) [OF env(2)]]) simp
    from slice.crypt_stream_feeds [OF _ this, of "[]" True] show ?thesis by (auto simp: encrypt_obj_def)
  qed
  then obtain z r where z: "encrypt_obj (dv_ci env) slice_read vec_write [] (dv_gzip env b) h = Some (z, r, Inr ())" by blast
  have p1: "pend D t ops ?w" using p by simp
  show ?thesis
    unfolding put_block_def env(1) wpc_bind wpc_rand wpc_mod wpc_st
  proof (intro allI impI)
    fix s1 b1 assume "st_linkobj st (dw_st ?w) t ?i ?l = (s1, b1)"
    from link_law [OF _ this] p1 have ll: "ok s1" "dirs s1 = D"
      "b1 = Inr True \<Longrightarrow> \<exists>hd. pending s1 t = Some (ops @ [LinkObj ?i ?l hd])" "b1 = Inr False \<Longrightarrow> pending s1 t = Some ops"
      by (auto simp: pend_def)
    let ?w1 = "?w\<lparr>dw_st := s1\<rparr>"
    have put: "wpc (upload_object env t h ?l b) Q R ?w1 (bs @ [(h, ?l)])" if "b1 = Inr False"
    proof -
      have "wpc (cm_st (\<lambda>s. st_putobj st s t ?i ?l z)) Q R ?w1 (bs @ [(h, ?l)])"
        unfolding wpc_st
      proof (intro allI impI)
        fix s2 u assume "st_putobj st (dw_st ?w1) t ?i ?l z = (s2, u)"
        from put_law [OF _ this] ll that have pl: "dirs s2 = D" "u = Inr () \<Longrightarrow> pend D t (ops @ [LinkObj ?i ?l z]) (?w1\<lparr>dw_st := s2\<rparr>)"
          by (auto simp: pend_def)
        show "case u of Inl _ \<Rightarrow> R (?w1\<lparr>dw_st := s2\<rparr>) (bs @ [(h, ?l)]) | Inr a \<Rightarrow> Q a (?w1\<lparr>dw_st := s2\<rparr>) (bs @ [(h, ?l)])"
          using pl R Q l by (cases u) (auto simp: object_ops_def mkdir_keys_def)
      qed
      then show ?thesis by (simp add: upload_object_def z env(1))
    qed
    show "case b1 of Inl _ \<Rightarrow> R ?w1 (bs @ [(h, ?l)])
        | Inr linked \<Rightarrow> wpc (if \<not> linked then upload_object env t h ?l b else cm_ok ()) Q R ?w1 (bs @ [(h, ?l)])"
    proof (cases b1)
      case (Inr linked)
      show ?thesis
      proof (cases linked)
        case True
        with ll Inr obtain hd where "pend D t (ops @ [LinkObj ?i ?l hd]) ?w1" by (auto simp: pend_def)
        from Q [OF this _ l] Inr True l show ?thesis by (simp add: object_ops_def mkdir_keys_def)
      qed (use put Inr in simp)
    qed (use R ll in simp)
  qed
qed

lemma store_stream_pend:
  assumes env: "dv_storage env = st" "dir_env_ok env E" "0 < dv_block_size env" "sx_read sx = script_read" and p: "pend D t ops w"
    and Q: "\<And>w1 r1 bl bs ops1. pend D t (ops @ ops1) w1 \<Longrightarrow> object_ops ops1 \<Longrightarrow> links_typed bs \<Longrightarrow> Q (bl, bs) w1 r1"
    and R: "\<And>w1 c1. same D w1 c1 \<Longrightarrow> R w1 c1"
  shows "wpc (store_stream env sx t secret) Q R w r"
proof -
  let ?I = "\<lambda>s. \<exists>w bs ops1. s = Some (w, bs) \<and> pend D t (ops @ ops1) w \<and> object_ops ops1 \<and> links_typed bs"
  let ?F = "\<lambda>s. \<exists>w bs. s = Some (w, bs :: (hash_id \<times> hash_id) list) \<and> same D w bs"
  have step: "if is_ok u then ?I s1 else ?F s1" if s: "?I s" and b: "closure_out (put_block env t) s h b = (s1, u)" for s h b s1 u
  proof -
    from s obtain w2 bs ops1 where i: "s = Some (w2, bs)" "pend D t (ops @ ops1) w2" "object_ops ops1" "links_typed bs" by blast
    have "wpc (put_block env t h b)
        (\<lambda>_ w3 bs1. \<exists>op l. pend D t ((ops @ ops1) @ [op]) w3 \<and> object_ops [op] \<and> length l = 32 \<and> bs1 = bs @ [(h, l)]) (same D) w2 bs"
      by (rule put_block_pend [OF env(1,2) i(2)]) auto
    with b i(1) show ?thesis
    proof (cases "put_block env t h b w2 bs")
      case (Some a)
      obtain w3 bs1 x where a: "a = (w3, bs1, x)" by (metis surj_pair)
      with Some b i(1) have su: "s1 = Some (w3, bs1)" "u = x" by (auto simp: closure_out_def)
      from \<open>wpc _ _ _ w2 bs\<close> Some a have x: "case x of Inl _ \<Rightarrow> same D w3 bs1 | Inr _ \<Rightarrow>
          \<exists>op l. pend D t ((ops @ ops1) @ [op]) w3 \<and> object_ops [op] \<and> length l = 32 \<and> bs1 = bs @ [(h, l)]"
        by (cases x) (auto simp: wpc_def)
      show ?thesis
      proof (cases x)
        case (Inr y)
        with x obtain op l where o: "pend D t (ops @ ops1 @ [op]) w3" "object_ops [op]" "length l = 32" "bs1 = bs @ [(h, l)]" by auto
        with object_ops_append [OF i(3) o(2)] i(4) su Inr show ?thesis by (auto simp: is_ok_def links_typed_def)
      qed (use x su in \<open>auto simp: is_ok_def\<close>)
    qed (simp add: wpc_def)
  qed
  have "\<exists>r1 s1 res. stream_to_blocks (cr_sha3 (dv_cr env)) script_read (closure_out (put_block env t)) r (Some (w, [])) (dv_block_size env) secret = Some (r1, s1, res) \<and>
      (case res of Inl _ \<Rightarrow> ?F s1 | Inr _ \<Rightarrow> ?I s1)"
  proof (rule script.stream_to_blocks_inv [OF env(3)])
    show "?I s \<Longrightarrow> closure_out (put_block env t) s h b = (s1, Inr ()) \<Longrightarrow> ?I s1" for s h b s1
      using step [of s h b s1 "Inr ()"] unfolding is_ok_def by simp
    show "?I s \<Longrightarrow> closure_out (put_block env t) s h b = (s1, Inl e) \<Longrightarrow> ?F s1" for s h b s1 e
      using step [of s h b s1 "Inl e"] unfolding is_ok_def by simp
    show "?I (Some (w, []))" using p by (intro exI [of _ w] exI [of _ "[]"]) (auto simp: object_ops_def links_typed_def mkdir_keys_def)
  qed (use pend_same in blast)
  then obtain r1 s1 res where r: "stream_to_blocks (cr_sha3 (dv_cr env)) script_read (closure_out (put_block env t)) r (Some (w, [])) (dv_block_size env) secret = Some (r1, s1, res)"
    "case res of Inl _ \<Rightarrow> ?F s1 | Inr _ \<Rightarrow> ?I s1" by blast
  then show ?thesis
    using Q R by (cases res) (auto simp: wpc_def store_stream_def env(4))
qed

lemma create_pend:
  assumes env: "dv_storage env = st" "dir_env_ok env E" and p: "pend D t ops w"
    and Q: "\<And>w1 i ops1. pend D t (ops @ ops1) w1 \<Longrightarrow> child_ops env ops1 \<Longrightarrow> Q i w1 l"
    and R: "\<And>w1. same D w1 l \<Longrightarrow> R w1 l"
  shows "wpc (create_directory env d t name) Q R w l"
proof -
  let ?i = "dv_rand env (dw_drawn w)" and ?w = "w\<lparr>dw_drawn := dw_drawn w + 1\<rparr>"
  have p1: "pend D t ops ?w" using p by simp
  have wf: "ct_wf default_content" "ct_synth default_content = None" by (simp_all add: default_content_def ct_wf_def)
  have "wpc (rewrite env \<lparr>di_id = ?i, di_path = [], di_config = cfg\<rparr> t False) (\<lambda>_ w1 c1. Q ?i w1 l) (\<lambda>w1 _. R w1 l) ?w default_content" for cfg
  proof (rule rewrite_new [OF env wf p1 _ R])
    fix w1 c1 cv sv data
    assume m: "pend D t (ops @ [Mkdir (di_id \<lparr>di_id = ?i, di_path = [], di_config = cfg\<rparr>) cv sv data]) w1"
      and cv: "encrypt_dir_ver (dv_ci env) (di_id \<lparr>di_id = ?i, di_path = [], di_config = cfg\<rparr>) (ct_version default_content + 1) (dv_key env) = Some cv"
    from cv encrypt_everyone [OF env(2), of ?i 1] have "encrypt_dir_ver (dv_ci env) ?i 1 (dv_key env) = Some cv" "length cv = 32"
      by (auto simp: default_content_def)
    with Q [OF m] show "Q ?i w1 l" by (auto simp: child_ops_def)
  qed
  moreover have "R ?w l" using R p1 by (simp add: pend_def)
  ultimately show ?thesis by (simp add: create_directory_def split: sum.split)
qed

lemma wpc_src: "wpc (cm_src f) Q R w r = (case f r of (r1, x) \<Rightarrow> (case x of Inl _ \<Rightarrow> R w r1 | Inr a \<Rightarrow> Q a w r1))"
  by (auto simp: wpc_def cm_src_def split: prod.split sum.split)

lemma wpc_xfer:
  "wpc (cm_xfer m) Q R w x =
     (case x of None \<Rightarrow> R w None | Some r \<Rightarrow> wpc m (\<lambda>a w1 r1. Q a w1 (Some r1)) (\<lambda>w1 r1. R w1 (Some r1)) w r)"
  by (auto simp: wpc_def cm_xfer_def cm_err_def split: option.split sum.split)

lemma upload_file_pend:
  assumes env: "dv_storage env = st" "dir_env_ok env E" "0 < dv_block_size env" "sx_read sx = script_read" and p: "pend D t ops w"
  shows "wpc (upload_file env sx t) (\<lambda>(bl, bs) w1 r1. \<exists>ops1. pend D t (ops @ ops1) w1 \<and> object_ops ops1 \<and> links_typed bs) (same D) w r"
proof -
  let ?U = "\<lambda>(bl, bs) w1 r1. \<exists>ops1. pend D t (ops @ ops1) w1 \<and> object_ops ops1 \<and> links_typed bs"
  have "wpc (store_stream env sx t secret) (\<lambda>a. wpc (case a of (bl, bs) \<Rightarrow> cm_bind (cm_src (\<lambda>r. sx_finish sx r bl)) (\<lambda>_. cm_ok (bl, bs))) ?U (same D))
      (same D) w r1" for secret r1
  proof (rule store_stream_pend [OF env p])
    fix w1 r1 bl bs ops1 assume "pend D t (ops @ ops1) w1" "object_ops ops1" "links_typed bs"
    then show "wpc (case (bl, bs) of (bl, bs) \<Rightarrow> cm_bind (cm_src (\<lambda>r. sx_finish sx r bl)) (\<lambda>_. cm_ok (bl, bs))) ?U (same D) w1 r1"
      by (auto simp: wpc_src pend_def split: prod.split sum.split)
  qed
  then show ?thesis using p by (auto simp: upload_file_def wpc_src pend_def split: prod.split sum.split)
qed

lemma edit_new_pend:
  assumes env: "dv_storage env = st" "dir_env_ok env E" "0 < dv_block_size env" "sx_read sx = script_read" and p: "pend D t ops w"
    and sp: "new \<noteq> Some Special"
    and Q: "\<And>w1 x1 ops1 e. pend D t (ops @ ops1) w1 \<Longrightarrow> child_ops env ops1 \<Longrightarrow> new_matches new e \<Longrightarrow> entry_typed e \<Longrightarrow> Q e w1 x1"
    and R: "\<And>w1 x1. same D w1 x1 \<Longrightarrow> R w1 x1"
  shows "wpc (edit_new env d sx t name subdir_id new) Q R w x"
proof -
  have none: "child_ops env []" "pend D t (ops @ []) w" using p by (simp_all add: child_ops_def object_ops_def mkdir_keys_def)
  note q = Q [OF none(2,1)]
  show ?thesis
  proof (cases new)
    case (Some fd)
    show ?thesis
    proof (cases fd)
      case (Directory m)
      have e: "new_matches new (EDirectory m i (cr_unknown (dv_cr env)))" "entry_typed (EDirectory m i (cr_unknown (dv_cr env)))" for i
        by (simp_all add: Some Directory new_matches_def entry_typed_def v0_entry_to_filedata_def)
      have "wpc (create_directory env d t name) (\<lambda>i w1 x1. Q (EDirectory m i (cr_unknown (dv_cr env))) w1 x1) R w x"
      proof (rule create_pend [OF env(1,2) p])
        fix w1 i ops1 assume "pend D t (ops @ ops1) w1" "child_ops env ops1"
        from Q [OF this e] show "Q (EDirectory m i (cr_unknown (dv_cr env))) w1 x" .
      qed (rule R)
      then have "wpc (create_directory env d t name) (\<lambda>i. wpc (cm_ok (EDirectory m i (cr_unknown (dv_cr env)))) Q R) R w x"
        by (rule wpc_mono) simp_all
      moreover have "Q (EDirectory m i (cr_unknown (dv_cr env))) w x" for i by (rule q [OF e])
      ultimately show ?thesis by (cases subdir_id) (simp_all add: edit_new_def Some Directory)
    next
      case (Regular m sz tm h)
      have "wpc (cm_xfer (upload_file env sx t)) (\<lambda>(bl, bs) w1 x1. \<exists>ops1. pend D t (ops @ ops1) w1 \<and> object_ops ops1 \<and> links_typed bs) (same D) w x"
      proof (cases x)
        case None
        with p show ?thesis by (simp add: wpc_xfer pend_def)
      next
        case (Some r)
        from upload_file_pend [OF env p, of r] have "wpc (upload_file env sx t)
            (\<lambda>a w1 r1. (case a of (bl, bs) \<Rightarrow> \<lambda>w1 x1. \<exists>ops1. pend D t (ops @ ops1) w1 \<and> object_ops ops1 \<and> links_typed bs) w1 (Some r1)) (same D) w r"
          by (rule wpc_mono) auto
        with Some show ?thesis by (simp add: wpc_xfer)
      qed
      then have "wpc (cm_xfer (upload_file env sx t))
          (\<lambda>(bl, bs). wpc (cm_ok (ERegular m sz tm (bl_total bl) (of_nat (dv_block_size env)) bs (cr_unknown (dv_cr env)))) Q R) R w x"
      proof (rule wpc_mono)
        fix a :: "block_list \<times> (hash_id \<times> hash_id) list" and w1 and x1 :: "read_event list option"
        assume "(case a of (bl, bs) \<Rightarrow> \<lambda>w1 x1. \<exists>ops1. pend D t (ops @ ops1) w1 \<and> object_ops ops1 \<and> links_typed bs) w1 x1"
        then obtain bl bs ops1 where a: "a = (bl, bs)" "pend D t (ops @ ops1) w1" "child_ops env ops1" "links_typed bs"
          by (cases a) (auto simp: child_ops_def)
        from Q [OF a(2,3)] a(1,4)
        show "(case a of (bl, bs) \<Rightarrow> wpc (cm_ok (ERegular m sz tm (bl_total bl) (of_nat (dv_block_size env)) bs (cr_unknown (dv_cr env)))) Q R) w1 x1"
          by (simp add: Some Regular new_matches_def entry_typed_def v0_entry_to_filedata_def links_typed_def)
      qed (use R in auto)
      then show ?thesis by (simp add: edit_new_def Some Regular) (erule wpc_mono, auto)
    qed (use q sp Some in \<open>simp_all add: edit_new_def new_matches_def entry_typed_def v0_entry_to_filedata_def\<close>)
  qed (use q in \<open>simp add: edit_new_def new_matches_def entry_typed_def v0_entry_to_filedata_def\<close>)
qed

text \<open>A transaction of an edit that gets to its end.\<close>

lemma edit_fresh:
  assumes "object_ops ops0" "child_ops env ops1" "new_keys env d ver ver1 post" "\<forall>n. dv_rand env n \<noteq> di_id d"
  shows "list_all op_typed (ops0 @ ops1 @ post)" "distinct (mkdir_keys (ops0 @ ops1 @ post))"
    "set (mkdir_keys (ops0 @ ops1 @ post)) \<subseteq> edit_keys env d ver" "list_all (quiet_op (di_id d)) (ops0 @ ops1)"
  using assms by (auto simp: object_ops_def child_ops_def new_keys_def edit_keys_def)

lemma edit_body_pend:
  fixes env :: "('s, 'c, 'u) dir_env"
  assumes env: "dv_storage env = st" "dir_env_ok env E" "0 < dv_block_size env" "sx_read sx = script_read"
    and s: "D (di_id d) = Some s" "coherent env E d s fs ver c" and w: "pend D t [] w"
    and ty: "files_typed fs" and new: "new \<noteq> Some Special" "\<forall>n. dv_rand env n \<noteq> di_id d"
    and dt: "subdir_of (fs name) \<noteq> None \<Longrightarrow> \<not> is_dir new \<Longrightarrow> \<not> is_ok (test (Option.bind (fs name) v0_entry_to_filedata))"
    and fr: "\<And>ops. list_all op_typed ops \<Longrightarrow> distinct (mkdir_keys ops) \<Longrightarrow> set (mkdir_keys ops) \<subseteq> edit_keys env d ver \<Longrightarrow> fresh D ops"
  shows "wpc (dir_edit_body env d sx name new test t)
    (\<lambda>r w1 cx. case r of None \<Rightarrow> False \<and> same D w1 cx
       | Some ret \<Rightarrow> \<exists>ops. pend D t ops w1 \<and> fresh D ops \<and> tracks env E d D ops (fst cx) \<and>
           (\<exists>e. ret = v0_entry_to_filedata e \<and> new_matches new e \<and> entry_typed e \<and>
              is_ok (test (Option.bind (fs name) v0_entry_to_filedata)) \<and> map_of (ct_files (fst cx)) = file_upd (name, e) fs))
    (same D) w (c, x)" (is "wpc _ ?Q _ _ _")
  unfolding dir_edit_body_def wpc_bind wpc_part
proof (rule edit_old_pend [OF env(1,2) s w ty])
  fix w1 c1 ops0
  let ?old = "Option.bind (fs name) v0_entry_to_filedata"
  assume p1: "pend D t ops0 w1" and o0: "object_ops ops0" and c1: "dir_repr env E d c1 s" "map_of (ct_files c1) = fs" "ct_version c1 = ver"
  let ?m = "\<lambda>w2 x1 e ops1. pend D t (ops0 @ ops1) w2 \<and> child_ops env ops1 \<and> new_matches new e \<and> entry_typed e"
  show "wpc (case (subdir_of (fs name), ?old) of (subdir_id, old) \<Rightarrow>
      cm_bind (cm_res (test old)) (\<lambda>_.
        if subdir_id \<noteq> None \<and> \<not> is_dir new then cm_some None
        else
          cm_bind (cm_snd (edit_new env d sx t name subdir_id new)) (\<lambda>e.
          cm_bind (cm_fst (add_entry env d t name e)) (\<lambda>_. cm_ok (Some (v0_entry_to_filedata e)))))) ?Q (same D) w1 (c1, x)"
  proof (cases "test ?old")
    case (Inr u)
    have ni: "\<not> (subdir_of (fs name) \<noteq> None \<and> \<not> is_dir new)" using dt Inr by (cases "subdir_of (fs name)") (auto simp: is_ok_def)
    have "wpc (edit_new env d sx t name (subdir_of (fs name)) new)
       (\<lambda>e w2 x1. wpc (add_entry env d t name e) (\<lambda>_ w3 c3. ?Q (Some (v0_entry_to_filedata e)) w3 (c3, x1)) (\<lambda>w3 c3. same D w3 (c3, x1)) w2 c1)
       (\<lambda>w2 x1. same D w2 (c1, x1)) w1 x"
    proof (rule edit_new_pend [OF env p1 new(1)])
      fix w2 ops1 and x1 :: "read_event list option" and e :: "'u entry"
      assume p2: "pend D t (ops0 @ ops1) w2" and ch: "child_ops env ops1" and nm: "new_matches new e" and et: "entry_typed e"
      have "list_all (quiet_op (di_id d)) (ops0 @ ops1)" using edit_fresh(4) [OF o0 ch _ new(2), of ver ver "[]"] by (simp add: new_keys_def mkdir_keys_def)
      with s(1) have "\<forall>D1. dirs_after (ops0 @ ops1) D D1 \<longrightarrow> D1 (di_id d) = Some s" using quiet_dirs by metis
      with c1(1) have tr: "tracks env E d D (ops0 @ ops1) c1" unfolding tracks_def by blast
      show "wpc (add_entry env d t name e) (\<lambda>_ w3 c3. ?Q (Some (v0_entry_to_filedata e)) w3 (c3, x1)) (\<lambda>w3 c3. same D w3 (c3, x1)) w2 c1"
      proof (rule add_entry_tracks [OF env(1,2) tr p2])
        fix w3 c3 post
        assume p3: "pend D t ((ops0 @ ops1) @ post) w3" and t3: "tracks env E d D ((ops0 @ ops1) @ post) c3"
          and f3: "map_of (ct_files c3) = file_upd (name, e) (map_of (ct_files c1))" and k: "new_keys env d (ct_version c1) (ct_version c3) post"
        note ef = edit_fresh(1-3) [OF o0 ch k new(2)]
        have "fresh D (ops0 @ ops1 @ post)" by (rule fr [OF ef(1,2)]) (use ef(3) c1(3) in simp)
        with p3 t3 f3 c1(2) nm et Inr show "?Q (Some (v0_entry_to_filedata e)) w3 (c3, x1)" by (auto simp: is_ok_def)
      qed
    qed
    then have "wpc (edit_new env d sx t name (subdir_of (fs name)) new)
       (\<lambda>e w2 x1. wpc (add_entry env d t name e) (\<lambda>a w3 c3. wpc (cm_ok (Some (v0_entry_to_filedata e))) ?Q (same D) w3 (c3, x1)) (\<lambda>w3 c3. same D w3 (c3, x1)) w2 c1)
       (\<lambda>w2 x1. same D w2 (c1, x1)) w1 x"
      by simp
    with Inr ni show ?thesis by simp
  qed (use p1 in \<open>simp add: pend_def\<close>)
qed simp

text \<open>Up to sixteen transactions: one that is committed, or the directories are what they were.\<close>

lemma tx_loop_pend:
  assumes env: "dv_storage env = st" and s: "D (di_id d) = Some s"
    and body: "\<And>t w c x. pend D t [] w \<Longrightarrow> coherent env E d s fs ver c \<Longrightarrow>
      wpc (f t) (\<lambda>r w1 cx. case r of None \<Rightarrow> N \<and> same D w1 cx
        | Some a \<Rightarrow> \<exists>ops. pend D t ops w1 \<and> fresh D ops \<and> tracks env E d D ops (fst cx) \<and> P a (fst cx)) (same D) w (c, x)"
    and w: "ok (dw_st w)" "dirs (dw_st w) = D" and c: "coherent env E d s fs ver c"
  shows "wpc (dir_tx_loop env n f) (\<lambda>r w1 cx. case r of None \<Rightarrow> N \<and> same D w1 cx
        | Some a \<Rightarrow> ok (dw_st w1) \<and> (\<exists>s1. dirs (dw_st w1) (di_id d) = Some s1 \<and> dir_repr env E d (fst cx) s1) \<and> P a (fst cx)) (same D) w (c, x)"
  using w c
proof (induction n arbitrary: w c x)
  case 0
  then show ?case by (simp add: wpc_def cm_err_def)
next
  case (Suc n)
  let ?tx = "dw_tx w"
  obtain s1 u where st: "st_start_tx st (dw_st w) ?tx = (s1, u)" by force
  note sl = start_law [OF Suc.prems(1) st]
  show ?case
  proof (cases u)
    case (Inl e)
    with st sl Suc.prems(2) show ?thesis by (simp add: wpc_def Let_def env)
  next
    case (Inr y)
    let ?w = "w\<lparr>dw_tx := ?tx + 1, dw_st := s1\<rparr>"
    have p: "pend D ?tx [] ?w" using sl Inr Suc.prems(2) by (simp add: pend_def)
    from body [OF p Suc.prems(3), of x] obtain w1 cx r where fr: "f ?tx ?w (c, x) = Some (w1, cx, r)"
      and qr: "case r of Inl _ \<Rightarrow> same D w1 cx | Inr y \<Rightarrow> (case y of None \<Rightarrow> N \<and> same D w1 cx
        | Some a \<Rightarrow> \<exists>ops. pend D ?tx ops w1 \<and> fresh D ops \<and> tracks env E d D ops (fst cx) \<and> P a (fst cx))"
      by (rule wpcE)
    obtain c1 x1 where cx: "cx = (c1, x1)" by force
    note f = fr [unfolded cx] and q = qr [unfolded cx fst_conv]
    note run = st f Inr env
    obtain s2 v where ab: "st_abort st (dw_st w1) ?tx = (s2, v)" by force
    note al = abort_law [OF ab]
    show ?thesis
    proof (cases "\<exists>a. r = Inr (Some a)")
      case False
      with q al run ab show ?thesis by (cases r; cases v) (auto simp: wpc_def split: option.split_asm)
    next
      case True
      then obtain a where r: "r = Inr (Some a)" by blast
      with q obtain ops where o: "pend D ?tx ops w1" "fresh D ops" "tracks env E d D ops c1" "P a c1" by auto
      obtain s3 b where cm: "st_commit st (dw_st w1) ?tx = (s3, b)" by force
      from o(1) have "ok (dw_st w1)" "pending (dw_st w1) ?tx = Some ops" "dirs (dw_st w1) = D" by (simp_all add: pend_def)
      with commit_law [OF _ _ _ cm] o(2) have cl: "is_ok b \<Longrightarrow> ok s3" "b = Inr True \<Longrightarrow> dirs_after ops D (dirs s3)" "b \<noteq> Inr True \<Longrightarrow> dirs s3 = D"
        by (auto split: if_split_asm)
      show ?thesis
      proof (cases "b = Inr False")
        case True
        from Suc.prems(3) have co: "coherent env E d s fs ver default_content"
          by (simp add: coherent_def default_content_def ct_is_valid_def)
        have "ok (dw_st (w1\<lparr>dw_st := s3\<rparr>))" "dirs (dw_st (w1\<lparr>dw_st := s3\<rparr>)) = D" using cl True by (simp_all add: is_ok_def)
        from Suc.IH [OF this co, of x1] run r cm True show ?thesis by (simp add: wpc_def)
      next
        case False
        with run r cm cl o(3,4) show ?thesis
          by (cases b) (auto simp: wpc_def tracks_def is_ok_def)
      qed
    qed
  qed
qed

lemma wpc_save:
  "(\<And>w1. dw_st w1 = dw_st w \<Longrightarrow> Q () w1 c \<and> R w1 c) \<Longrightarrow> wpc (save_latest_dir_ver env d) Q R w c"
  by (simp add: save_latest_dir_ver_def) (rule wpc_sql, simp_all)

lemma wpc_head:
  "wpc (cm_head m) Q R w ((d, c) # ps, x) =
     wpc (m d) (\<lambda>a w1 cx. Q a w1 ((d, fst cx) # ps, snd cx)) (\<lambda>w1 cx. R w1 ((d, fst cx) # ps, snd cx)) w (c, x)"
  by (auto simp: wpc_def cm_head_def split: option.split sum.split prod.split)

text \<open>The whole edit of a directory that is not synthetic.\<close>

lemma edit_pend:
  fixes env :: "('s, 'c, 'u) dir_env"
  assumes env: "dv_storage env = st" "dir_env_ok env E" "0 < dv_block_size env" "sx_read sx = script_read"
    and s: "D (di_id d) = Some s" "coherent env E d s fs ver c" and w: "ok (dw_st w)" "dirs (dw_st w) = D"
    and ty: "files_typed fs" and new: "new \<noteq> Some Special" "\<forall>n. dv_rand env n \<noteq> di_id d"
    and dt: "subdir_of (fs name) \<noteq> None \<Longrightarrow> \<not> is_dir new \<Longrightarrow> \<not> is_ok (test (Option.bind (fs name) v0_entry_to_filedata))"
    and fr: "\<And>ops. list_all op_typed ops \<Longrightarrow> distinct (mkdir_keys ops) \<Longrightarrow> set (mkdir_keys ops) \<subseteq> edit_keys env d ver \<Longrightarrow> fresh D ops"
  shows "wpc (edit env sx name new test)
    (\<lambda>ret w1 p. \<exists>c1. fst p = (d, c1) # ps \<and> edited_to env E d fs name new test (dirs (dw_st w1)) ret c1)
    (\<lambda>w1 _. dirs (dw_st w1) = D \<or> (\<exists>ret c1. edited_to env E d fs name new test (dirs (dw_st w1)) ret c1)) w ((d, c) # ps, x)"
proof -
  let ?P = "\<lambda>ret c1. \<exists>e. ret = v0_entry_to_filedata e \<and> new_matches new e \<and> entry_typed e \<and>
    is_ok (test (Option.bind (fs name) v0_entry_to_filedata)) \<and> map_of (ct_files c1) = file_upd (name, e) fs"
  have body: "wpc (dir_edit_body env d sx name new test t)
      (\<lambda>r w1 cx. case r of None \<Rightarrow> False \<and> same D w1 cx
         | Some ret \<Rightarrow> \<exists>ops. pend D t ops w1 \<and> fresh D ops \<and> tracks env E d D ops (fst cx) \<and> ?P ret (fst cx)) (same D) w (c, x)"
    if "pend D t [] w" "coherent env E d s fs ver c" for t w c x
    by (rule edit_body_pend [OF env s(1) that(2,1) ty new]) (use dt fr in auto)
  have tx: "wpc (dir_do_tx env (dir_edit_body env d sx name new test))
     (\<lambda>r w1 cx. case r of None \<Rightarrow> False \<and> same D w1 cx
        | Some a \<Rightarrow> ok (dw_st w1) \<and> (\<exists>s1. dirs (dw_st w1) (di_id d) = Some s1 \<and> dir_repr env E d (fst cx) s1) \<and> ?P a (fst cx)) (same D) w (c, x)"
    unfolding dir_do_tx_def by (rule tx_loop_pend [OF env(1) s(1) body w s(2)])
  let ?Q = "\<lambda>ret w1 cx. edited_to env E d fs name new test (dirs (dw_st w1)) ret (fst cx)"
    and ?R = "\<lambda>w1 cx. dirs (dw_st w1) = D \<or> (\<exists>ret c1. edited_to env E d fs name new test (dirs (dw_st w1)) ret c1)"
  have "wpc (dir_do_tx env (dir_edit_body env d sx name new test))
     (\<lambda>r. wpc (cm_bind (cm_some r) (\<lambda>ret. cm_bind (cm_fst (save_latest_dir_ver env d)) (\<lambda>_. cm_ok ret))) ?Q ?R) ?R w (c, x)"
  proof (rule wpc_mono [OF tx])
    fix r w1 and cx :: "'u dir_content \<times> read_event list option"
    assume "case r of None \<Rightarrow> False \<and> same D w1 cx
      | Some a \<Rightarrow> ok (dw_st w1) \<and> (\<exists>s1. dirs (dw_st w1) (di_id d) = Some s1 \<and> dir_repr env E d (fst cx) s1) \<and> ?P a (fst cx)"
    then obtain ret where r: "r = Some ret" and e: "edited_to env E d fs name new test (dirs (dw_st w1)) ret (fst cx)"
      by (auto simp: edited_to_def split: option.split_asm)
    obtain c1 x1 where cx: "cx = (c1, x1)" by force
    have "wpc (save_latest_dir_ver env d) (\<lambda>a w2 c2. ?Q ret w2 (c2, x1)) (\<lambda>w2 c2. ?R w2 (c2, x1)) w1 c1"
      by (rule wpc_save) (use e cx in auto)
    then have "wpc (save_latest_dir_ver env d) (\<lambda>a w2 c2. wpc (cm_ok ret) ?Q ?R w2 (c2, x1)) (\<lambda>w2 c2. ?R w2 (c2, x1)) w1 c1" by simp
    then show "wpc (cm_bind (cm_some r) (\<lambda>ret. cm_bind (cm_fst (save_latest_dir_ver env d)) (\<lambda>_. cm_ok ret))) ?Q ?R w1 cx"
      by (simp add: r cx)
  qed simp
  then have "wpc (dir_do_tx env (dir_edit_body env d sx name new test))
     (\<lambda>r. wpc (cm_bind (cm_some r) (\<lambda>ret. cm_bind (cm_fst (save_latest_dir_ver env d)) (\<lambda>_. cm_ok ret)))
        (\<lambda>ret w1 cx. \<exists>c1. (d, fst cx) # ps = (d, c1) # ps \<and> edited_to env E d fs name new test (dirs (dw_st w1)) ret c1) ?R) ?R w (c, x)"
    by simp
  moreover have "wpc (materialise env) Q2 R2 w ((d, c) # ps) = Q2 () w ((d, c) # ps)" for Q2 R2
    using s(2) by (simp add: wpc_def coherent_def)
  ultimately show ?thesis by (simp add: edit_def wpc_head)
qed

end

subsection \<open>The local storage\<close>

lemma getdir_small: "getdir_loop sha3 flt n i s = (s1, Inr (Some (v, c))) \<Longrightarrow> length c < 2 ^ 32"
proof (induction n arbitrary: s)
  case (Suc n)
  then show ?case
    by (auto simp: ls_bind_def sql_step_def io_step_def ls_ok_def ls_err_def U32_MAX_def split: option.split_asm if_split_asm)
qed (simp add: ls_err_def)

lemma wp_tx_add:
  "wp (tx_add t op) Q E s =
     (case map_of (ls_txns s) t of None \<Rightarrow> E (err (NoSuchTransaction t)) s | Some ops \<Rightarrow> Q () (s\<lparr>ls_txns := AList.update t (ops @ [op]) (ls_txns s)\<rparr>))"
  by (simp add: wp_def tx_add_def split: option.split)

lemma put_ready:
  assumes "ls_ready sha3 s"
  shows "wp (putobj flt t i l z)
    (\<lambda>_ s1. ls_ready sha3 s1 \<and> sr_dirs (ls_store sha3 s1) = sr_dirs (ls_store sha3 s) \<and>
       (\<forall>ops. map_of (ls_txns s) t = Some ops \<longrightarrow> map_of (ls_txns s1) t = Some (ops @ [LinkObj i l z])))
    (\<lambda>_ s1. sr_dirs (ls_store sha3 s1) = sr_dirs (ls_store sha3 s)) s"
proof -
  have d: "dirs_of sha3 (d\<lparr>ld_objs := os\<rparr>) f = dirs_of sha3 d f"
    "files_ok sha3 d f \<Longrightarrow> files_ok sha3 (d\<lparr>ld_objs := (i, UNKNOWN_HASH) # ld_objs d\<rparr>) f" for d os f
    by (auto simp: dirs_of_def files_ok_def UNKNOWN_HASH_def)
  show ?thesis
    using assms unfolding putobj_def write_temp_def persist_obj_def ls_ready_def
    by (auto simp: wps wp_tx_add ls_inv_def ls_committed_def ls_store_def store_of_def update_conv' d intro!: wp_tx_gen split: option.split)
qed

interpretation lds: dir_store "local_storage sha3 flt" "\<lambda>s. sr_dirs (ls_store sha3 s)" "\<lambda>s t. map_of (ls_txns s) t" "ls_ready sha3" "ops_fresh sha3"
  for sha3 flt
proof
  fix s i s1 r
  assume a: "ls_ready sha3 s" "st_getdir (local_storage sha3 flt) s i = (s1, r)"
  then have g: "ls_inv sha3 s" "ls_saved s = None" "getdir_loop sha3 flt (Suc 255) i s = (s1, r)"
    by (simp_all only: ls_ready_def local_storage_def storage.simps getdir_unroll)
  have "\<forall>v c. r = Inr (Some (v, c)) \<longrightarrow> length c < 2 ^ 32" using getdir_small g(3) by blast
  with getdir_loop_faulty [OF g] a(1) show "ls_ready sha3 s1 \<and> sr_dirs (ls_store sha3 s1) = sr_dirs (ls_store sha3 s) \<and> map_of (ls_txns s1) = map_of (ls_txns s) \<and>
      (\<forall>x. r = Inr x \<longrightarrow> x = map_option (\<lambda>(v, _, c). (v, c)) (sr_dirs (ls_store sha3 s) i) \<and> (\<forall>v c. x = Some (v, c) \<longrightarrow> length c < 2 ^ 32))"
    by (auto simp: ls_ready_blind)
next
  fix s t ops s1 b
  assume a: "ls_ready sha3 s" "map_of (ls_txns s) t = Some ops" "ops_fresh sha3 (sr_dirs (ls_store sha3 s)) ops"
    "st_commit (local_storage sha3 flt) s t = (s1, b)"
  have "dirs_keys (sr_dirs (ls_store sha3 s)) = store_keys (ls_store sha3 s)" by (simp add: dirs_keys_def store_keys_def)
  with a have r: "ls_inv sha3 s" "ls_saved s = None" "fresh_versions sha3 (ls_db s) ops" "commit sha3 flt t s = (s1, b)"
    by (simp_all add: ls_ready_def local_storage_def ops_fresh_def fresh_versions_def store_keys_db)
  from commit_meets_spec [OF r(1,2) a(2) r(3,4)]
  have c: "is_ok b \<longrightarrow> ls_ready sha3 s1" "if b = Inr True then apply_ops ops (ls_store sha3 s) = Inr (Some (ls_store sha3 s1)) else ls_store sha3 s1 = ls_store sha3 s"
    by (simp_all add: commit_spec_def ls_ready_def)
  show "(is_ok b \<longrightarrow> ls_ready sha3 s1) \<and>
      (if b = Inr True then dirs_after ops (sr_dirs (ls_store sha3 s)) (sr_dirs (ls_store sha3 s1)) else sr_dirs (ls_store sha3 s1) = sr_dirs (ls_store sha3 s))"
    using c unfolding dirs_after_def by (cases "b = Inr True") (simp_all, blast)
next
  fix s t i l b and s1 :: local_storage
  assume "ls_ready sha3 s" "st_linkobj (local_storage sha3 flt) s t i l = (s1, b)"
  then show "ls_ready sha3 s1 \<and> sr_dirs (ls_store sha3 s1) = sr_dirs (ls_store sha3 s) \<and>
      (\<forall>ops. map_of (ls_txns s) t = Some ops \<longrightarrow> (b = Inr True \<longrightarrow> (\<exists>h. map_of (ls_txns s1) t = Some (ops @ [LinkObj i l h]))) \<and>
        (b = Inr False \<longrightarrow> map_of (ls_txns s1) t = Some ops))"
    by (auto simp: local_storage_def linkobj_def ls_bind_def io_step_def tick_def ls_ok_def tx_add_def ls_ready_blind update_conv'
        split: option.split_asm)
next
  fix s t i l z s1 u
  assume a: "ls_ready sha3 s" "st_putobj (local_storage sha3 flt) s t i l z = (s1, u)"
  from put_ready [OF a(1), of flt t i l z] a(2)
  show "sr_dirs (ls_store sha3 s1) = sr_dirs (ls_store sha3 s) \<and>
      (u = Inr () \<longrightarrow> ls_ready sha3 s1 \<and> (\<forall>ops. map_of (ls_txns s) t = Some ops \<longrightarrow> map_of (ls_txns s1) t = Some (ops @ [LinkObj i l z])))"
    by (cases u) (simp_all add: wp_def local_storage_def)
qed (auto simp: local_storage_def start_tx_def tx_add_def abort_def ls_ready_blind update_conv' split: option.split_asm if_split_asm)

end
