(* ===== verification/Server_Dir_Laws.thy ===== *)
theory Server_Dir_Laws
  imports Server_Dir_Tx "HOL-Library.Countable"
begin

text \<open>
  What a client can rely on in a directory of the server: what is stored reads back as the files it represents, an edit on the
  local storage is stored whole or not at all, and a directory never goes back behind the version that was recorded, except that
  a removal that finds nothing forgets what was recorded.
\<close>

section \<open>Definitions\<close>

text \<open>An example: a directory without files, version 1, on a local storage. The serialiser counts.\<close>

instance entry :: (countable) countable
  by countable_datatype

definition demo_dir :: server_dir where
  "demo_dir = \<lparr>di_id = demo_id (CHR ''d''), di_path = ''/d'', di_config = default_config\<rparr>"

definition demo_denv :: "(local_storage, unit, unit) dir_env" where
  "demo_denv =
     \<lparr>dv_storage = local_storage demo_sha3 (\<lambda>_. None), dv_ci = null_cipher,
      dv_cr = \<lparr>cr_sha3 = demo_hash, cr_scrypt = (\<lambda>_ _ _ p s. demo_hash (p @ s)), cr_unknown = ()\<rparr>,
      dv_key = demo_chain, dv_rand = (\<lambda>_. demo_id (CHR ''r'')), dv_faults = (\<lambda>_. None), dv_block_size = 4,
      dv_ser_header = (\<lambda>h. hd_dir_id h @ le_bytes (hd_ver h) @ le4 (unat (hd_fmt h))),
      dv_de_header = (\<lambda>b. Inr \<lparr>hd_dir_id = take (length b - 12) b, hd_ver = le_word (drop (length b - 12) b), hd_fmt = of_nat (le4_dec (drop (length b - 4) b))\<rparr>),
      dv_ser_pairs = (\<lambda>es. replicate (to_nat es) (CHR ''x'')), dv_de_pairs = (\<lambda>b. Inr (from_nat (length b))),
      dv_gzip = id, dv_gunzip = (\<lambda>b. [Chunk b]), dv_order = id\<rparr>"

definition demo_ver :: "64 word \<Rightarrow> hash_id" where
  "demo_ver v = le_bytes v @ replicate 24 (CHR 0x00)"

definition demo_data :: bytes where
  "demo_data = dir_cipher (\<lambda>_ _ _ x. x) (replicate 32 (CHR ''e'')) (demo_id (CHR ''k''))
     (log_bytes (dv_cr demo_denv) (replicate 32 (CHR ''e'')) UNKNOWN_HASH (dir_log demo_denv demo_dir 1 []))"

definition demo_stored :: "hash_id \<times> hash_id \<times> bytes" where
  "demo_stored = (demo_ver 1, secret_dir_ver (dv_cr demo_denv) (demo_ver 1) (replicate 32 (CHR ''r'')), demo_data)"

definition demo_dworld :: "local_storage dir_world" where
  "demo_dworld =
     \<lparr>dw_st = ls_open\<lparr>ls_db := \<lparr>ld_dirs = [(di_id demo_dir, \<lparr>dr_ver = demo_ver 1, dr_sver = fst (snd demo_stored), dr_length = int (length demo_data)\<rparr>)], ld_objs = []\<rparr>,
        ls_dirfiles := [(dir_path demo_sha3 (di_id demo_dir) (demo_ver 1), demo_data)]\<rparr>,
      dw_db = [], dw_count = 0, dw_drawn = 0, dw_tx = 1\<rparr>"

definition demo_source :: "read_event list stream_source" where
  "demo_source = \<lparr>sx_read = script_read, sx_reset = (\<lambda>r. (r, Inr ())), sx_finish = (\<lambda>r _. (r, Inr ()))\<rparr>"

section \<open>Lemmas\<close>

subsection \<open>The example\<close>

lemma demo_keys: "chain_key (dv_key demo_denv) GROUP_EVERYONE = Inr (replicate 32 (CHR ''e''))"
  "read_key demo_denv demo_dir = Inr (replicate 32 (CHR ''e''))" "write_key demo_denv demo_dir = Inr (replicate 32 (CHR ''r''))"
proof -
  show k: "chain_key (dv_key demo_denv) GROUP_EVERYONE = Inr (replicate 32 (CHR ''e''))"
    by (simp add: demo_denv_def demo_chain_def chain_key_def generate_new_def GROUP_ROOT_def GROUP_EVERYONE_def less_char_def)
  have g: "read_group (di_config demo_dir) = GROUP_EVERYONE" "write_group (di_config demo_dir) = GROUP_ROOT"
    by (simp_all add: demo_dir_def default_config_def)
  have "chain_key (dv_key demo_denv) GROUP_ROOT = Inr (replicate 32 (CHR ''r''))"
    by (simp add: demo_denv_def demo_chain_def chain_key_def generate_new_def GROUP_ROOT_def GROUP_EVERYONE_def less_char_def)
  with k g show "read_key demo_denv demo_dir = Inr (replicate 32 (CHR ''e''))" "write_key demo_denv demo_dir = Inr (replicate 32 (CHR ''r''))"
    by (simp_all add: read_key_def write_key_def)
qed

lemma demo_denv_ok: "dir_env_ok demo_denv (\<lambda>_ _ _ x. x)"
proof -
  have "dv_de_header demo_denv (dv_ser_header demo_denv h) = Inr h" for h
  proof -
    have "unat (hd_fmt h) < 2 ^ 32" using unsigned_less [of "hd_fmt h"] by simp
    from le4_roundtrip [OF this, of "[]"] show ?thesis by (simp add: demo_denv_def le_roundtrip)
  qed
  then show ?thesis
    using null_cipher_ok demo_keys(1)
    by (auto simp: dir_env_ok_def sha3_ok_def is_ok_def) (simp_all add: demo_denv_def demo_hash_def demo_id_def)
qed

lemma demo_version: "encrypt_dir_ver (dv_ci demo_denv) i v (dv_key demo_denv) = Some (demo_ver v)"
proof -
  have c: "cbc_ok (dv_ci demo_denv) (\<lambda>_ _ _ x. x)" using null_cipher_ok by (simp add: demo_denv_def)
  show ?thesis using encrypt_ver [OF c demo_keys(1), of i v] by (simp add: demo_ver_def)
qed

lemma demo_coherent: "coherent demo_denv (\<lambda>_ _ _ x. x) demo_dir demo_stored Map.empty 1 default_content"
proof -
  let ?log = "dir_log demo_denv demo_dir 1 []" and ?k = "replicate 32 (CHR ''e'')"
  have ln: "length demo_data = 32 + length (log_bytes (dv_cr demo_denv) ?k UNKNOWN_HASH ?log)"
    by (simp add: demo_data_def dir_cipher_def demo_id_def del: log_bytes.simps)
  then obtain iv where iv: "dir_append_iv demo_data = Some iv" by (auto simp: dir_append_iv_def BLKSZ_def)
  let ?c = "default_content\<lparr>ct_version := 1, ct_cipher_version := demo_ver 1, ct_length := of_nat (length demo_data), ct_iv := iv,
    ct_session_key := fst (split_key_and_iv (demo_id (CHR ''k''))), ct_prev_hmac := log_mac (dv_cr demo_denv) ?k UNKNOWN_HASH ?log\<rparr> :: unit dir_content"
  have "dir_repr demo_denv (\<lambda>_ _ _ x. x) demo_dir ?c demo_stored"
    unfolding demo_stored_def
    by (rule dir_reprI [OF demo_keys(2,3), where ki = "demo_id (CHR ''k'')" and ess = "[]"])
      (use iv demo_version in \<open>simp_all add: demo_data_def [symmetric], simp_all add: demo_id_def default_content_def ct_wf_def\<close>)
  then show ?thesis unfolding coherent_def by (auto simp: default_content_def ct_is_valid_def intro!: exI [of _ ?c])
qed

lemma demo_length: "length demo_data = 112"
proof -
  have "length (dv_ser_header demo_denv (header_of demo_dir 1)) = 44" by (simp add: demo_denv_def header_of_def demo_dir_def demo_id_def)
  then show ?thesis
    by (simp add: demo_data_def dir_cipher_def demo_id_def dir_log_def mac_length [OF dir_env_okD(2) [OF demo_denv_ok]] chunk_body_def pad_take BLKSZ_def)
qed

subsection \<open>Versions\<close>

text \<open>Successful steps.\<close>

lemma cm_bind_Inr: "cm_bind m f w c = Some (w2, c2, Inr b) \<longleftrightarrow> (\<exists>w1 c1 a. m w c = Some (w1, c1, Inr a) \<and> f a w1 c1 = Some (w2, c2, Inr b))"
  by (cases "m w c") (auto simp: cm_bind_def split: prod.split sum.split)

lemma cm_steps_Inr:
  "cm_ok a w c = Some (w1, c1, Inr b) \<longleftrightarrow> w1 = w \<and> c1 = c \<and> b = a" "cm_err k w c \<noteq> Some (w1, c1, Inr b)"
  "cm_res r w c = Some (w1, c1, Inr b) \<longleftrightarrow> r = Inr b \<and> w1 = w \<and> c1 = c"
  "cm_some x w c = Some (w1, c1, Inr b) \<longleftrightarrow> x = Some b \<and> w1 = w \<and> c1 = c"
  "cm_chain msg m w c = Some (w1, c1, Inr b) \<longleftrightarrow> m w c = Some (w1, c1, Inr b)"
  "cm_st g w c = Some (w1, c1, Inr b) \<longleftrightarrow> (\<exists>s. g (dw_st w) = (s, Inr b) \<and> w1 = w\<lparr>dw_st := s\<rparr> \<and> c1 = c)"
  "cm_sql env h w c = Some (w1, c1, Inr b) \<longleftrightarrow>
     dv_faults env (dw_count w) = None \<and> w1 = w\<lparr>dw_db := fst (h (dw_db w)), dw_count := dw_count w + 1\<rparr> \<and> c1 = c \<and> b = snd (h (dw_db w))"
  by (auto simp: cm_ok_def cm_err_def cm_res_def cm_some_def cm_chain_def cm_st_def cm_sql_def chain_err_def split: prod.split sum.split_asm option.split)

lemma cm_state_Inr: "cm_get w c = Some (w1, c1, Inr x) \<longleftrightarrow> w1 = w \<and> c1 = c \<and> x = c"
  by (auto simp: cm_get_def)

lemma cm_mod_Inr: "cm_mod f w c = Some (w1, c1, Inr x) \<longleftrightarrow> w1 = w \<and> c1 = f c"
  by (auto simp: cm_mod_def)

lemmas cm_Inr = cm_bind_Inr cm_steps_Inr cm_state_Inr cm_mod_Inr

lemma read_chunks_frame: "read_chunks env d n data c = Some (Inr c1) \<Longrightarrow> ct_version c1 = ct_version c \<and> ct_length c1 = ct_length c"
proof (induction n arbitrary: data c)
  case (Suc n)
  show ?case
  proof (cases "read_v0_chunk env d (dv_de_pairs env) data (ct_prev_hmac c)")
    case (Some r)
    show ?thesis
    proof (cases r)
      case (Inr x)
      with Suc.prems Some Suc.IH show ?thesis by (cases x) (auto simp: entries_frame)
    qed (use Suc.prems Some in simp)
  qed (use Suc.prems in simp)
qed simp

lemma parse_dir_frame:
  assumes "parse_dir env d v data ver w l = Some (w1, l1, Inr c1)"
  shows "w1 = w \<and> l1 = l \<and> ct_version c1 = ver \<and> ct_length c1 = of_nat (length data)"
  using assms by (auto simp: parse_dir_def cm_Inr split: option.split_asm simp del: read_chunks.simps dest!: read_chunks_frame)

lemma tx_loop_None: "dir_tx_loop env n f w cx = Some (w1, cx1, Inr None) \<Longrightarrow> fst cx1 = fst cx \<or> fst cx1 = default_content"
proof (induction n arbitrary: w cx)
  case (Suc n)
  let ?w = "\<lambda>s. w\<lparr>dw_tx := dw_tx w + 1, dw_st := s\<rparr>"
  obtain s u where st: "st_start_tx (dv_storage env) (dw_st w) (dw_tx w) = (s, u)" by force
  with Suc.prems obtain y where u: "u = Inr y" by (cases u) (auto simp: Let_def)
  with Suc.prems st obtain w2 c2 x2 r where f: "f (dw_tx w) (?w s) cx = Some (w2, (c2, x2), r)" by (auto simp: Let_def bind_eq_Some_conv)
  obtain s1 b where cm: "st_commit (dv_storage env) (dw_st w2) (dw_tx w) = (s1, b)" by force
  obtain s2 a where ab: "st_abort (dv_storage env) (dw_st w2) (dw_tx w) = (s2, a)" by force
  note run = Suc.prems st u f
  show ?case
  proof (cases "\<exists>x. r = Inr (Some x)")
    case True
    with run cm Suc.IH [of "w2\<lparr>dw_st := s1\<rparr>" "(default_content, x2)"] show ?thesis
      by (auto simp: Let_def split: sum.split_asm bool.split_asm)
  next
    case False
    with run ab show ?thesis by (auto simp: Let_def split: sum.split_asm option.split_asm)
  qed
qed (simp add: cm_err_def)

section \<open>Properties\<close>

text \<open>C1. What is stored for a directory, if it is shorter than 4 GiB, parses without an error or a panic, and gives exactly the
  files it represents: the encryption, the signatures and the log of changes lose nothing.\<close>

theorem stored_reads_back:
  assumes "dir_env_ok env E" "dir_repr env E d c (v, sv, data)" "length data < 2 ^ 32"
  shows "\<exists>c1. parse_dir env d v data (ct_version c) w l = Some (w, l, Inr c1) \<and> map_of (ct_files c1) = map_of (ct_files c) \<and>
    dir_repr env E d c1 (v, sv, data)"
  using parse_repr [OF assms, of w l] by (elim exE conjE) (intro exI conjI)

theorem stored_reads_back_witness:
  "\<exists>c1. parse_dir demo_denv demo_dir (demo_ver 1) demo_data 1 demo_dworld () = Some (demo_dworld, (), Inr c1) \<and> map_of (ct_files c1) = Map.empty"
proof -
  from demo_coherent obtain c0 where c0: "dir_repr demo_denv (\<lambda>_ _ _ x. x) demo_dir c0 demo_stored" "map_of (ct_files c0) = Map.empty" "ct_version c0 = 1"
    unfolding coherent_def by blast
  have "length demo_data < 2 ^ 32" by (simp add: demo_length)
  with stored_reads_back [OF demo_denv_ok c0(1) [unfolded demo_stored_def], of demo_dworld "()"] c0(2,3) show ?thesis by auto
qed

text \<open>C2. Editing a directory on the local storage, with a fault possible at any step, returns. When it succeeds, the storage holds a directory
  that represents the files from before with the new entry at the name, the entry is what was asked for, and the test accepted what was there. When it
  fails, either no directory on the storage has changed or the change is complete.\<close>

theorem edit_is_stored:
  assumes "dv_storage env = local_storage sha3 flt" "dir_env_ok env E" "0 < dv_block_size env" "sx_read sx = script_read"
    and "ls_ready sha3 (dw_st w)" "sr_dirs (ls_store sha3 (dw_st w)) = D" "D (di_id d) = Some s" "coherent env E d s fs ver c" "files_typed fs"
    and "new \<noteq> Some Special" "subdir_of (fs name) \<noteq> None \<longrightarrow> is_dir new \<or> \<not> is_ok (test (Option.bind (fs name) v0_entry_to_filedata))"
    and "\<forall>n. dv_rand env n \<noteq> di_id d" "edit_keys env d ver \<inter> dirs_keys D = {}"
    and "inj_on (\<lambda>(i, v). dir_path sha3 i v) (edit_keys env d ver \<union> dirs_keys D)"
  shows "\<exists>w1 chain1 x1 r. edit env sx name new test w ((d, c) # ps, x) = Some (w1, (chain1, x1), r) \<and>
    (case r of
       Inl _ \<Rightarrow> sr_dirs (ls_store sha3 (dw_st w1)) = D \<or> (\<exists>ret c1. edited_to env E d fs name new test (sr_dirs (ls_store sha3 (dw_st w1))) ret c1)
     | Inr ret \<Rightarrow> \<exists>c1. chain1 = (d, c1) # ps \<and> edited_to env E d fs name new test (sr_dirs (ls_store sha3 (dw_st w1))) ret c1)"
proof -
  have "ops_fresh sha3 D ops" if "list_all op_typed ops" "distinct (mkdir_keys ops)" "set (mkdir_keys ops) \<subseteq> edit_keys env d ver" for ops
    using that assms(13,14) by (auto simp: ops_fresh_def intro: inj_on_subset)
  note ep = lds.edit_pend [OF assms(1-4,7,8,5,6,9,10,12) _ this, of name test ps x]
  obtain w1 p r where "edit env sx name new test w ((d, c) # ps, x) = Some (w1, p, r)"
    "case r of Inl _ \<Rightarrow> sr_dirs (ls_store sha3 (dw_st w1)) = D \<or> (\<exists>ret c1. edited_to env E d fs name new test (sr_dirs (ls_store sha3 (dw_st w1))) ret c1)
     | Inr ret \<Rightarrow> \<exists>c1. fst p = (d, c1) # ps \<and> edited_to env E d fs name new test (sr_dirs (ls_store sha3 (dw_st w1))) ret c1"
    by (rule wpcE [OF ep]) (use assms(11) in auto)
  then show ?thesis by (intro exI [of _ w1] exI [of _ "fst p"] exI [of _ "snd p"] exI [of _ r]) simp
qed

theorem edit_is_stored_witness:
  "\<exists>w1 chain1 x1 r. edit demo_denv demo_source ''f'' (Some (Regular 420 5 0 UNKNOWN_HASH)) (\<lambda>_. Inr ()) demo_dworld
      ([(demo_dir, default_content)], Some [Chunk ''hel'', Chunk ''lo'']) = Some (w1, (chain1, x1), r)"
proof -
  let ?D = "sr_dirs (ls_store demo_sha3 (dw_st demo_dworld))"
  have d: "?D = [di_id demo_dir \<mapsto> demo_stored]"
    by (auto simp: demo_dworld_def demo_stored_def ls_store_def store_of_def dirs_of_def ls_committed_def ls_open_def)
  have "?D (di_id demo_dir) = Some demo_stored" by (simp add: d)
  moreover have "ls_ready demo_sha3 (dw_st demo_dworld)"
    by (auto simp: ls_ready_def ls_inv_def files_ok_def ls_committed_def demo_dworld_def ls_open_def demo_ver_def)
  moreover have k: "dirs_keys ?D = {(di_id demo_dir, demo_ver 1)}" unfolding d by (auto simp: dirs_keys_def demo_stored_def split: if_split_asm)
  moreover have e: "edit_keys demo_denv demo_dir 1 = {(di_id demo_dir, demo_ver 2), (demo_id (CHR ''r''), demo_ver 1)}"
    by (auto simp: edit_keys_def demo_version) (simp_all add: demo_denv_def)
  moreover have "demo_ver 1 \<noteq> demo_ver 2" "di_id demo_dir \<noteq> demo_id (CHR ''r'')" by code_simp+
  moreover have "dir_path demo_sha3 (di_id demo_dir) (demo_ver 1) \<noteq> dir_path demo_sha3 (di_id demo_dir) (demo_ver 2)"
    "dir_path demo_sha3 (di_id demo_dir) (demo_ver 1) \<noteq> dir_path demo_sha3 (demo_id (CHR ''r'')) (demo_ver 1)"
    "dir_path demo_sha3 (di_id demo_dir) (demo_ver 2) \<noteq> dir_path demo_sha3 (demo_id (CHR ''r'')) (demo_ver 1)" by code_simp+
  ultimately have pre: "ls_ready demo_sha3 (dw_st demo_dworld)" "?D (di_id demo_dir) = Some demo_stored"
    "edit_keys demo_denv demo_dir 1 \<inter> dirs_keys ?D = {}" "inj_on (\<lambda>(i, v). dir_path demo_sha3 i v) (edit_keys demo_denv demo_dir 1 \<union> dirs_keys ?D)"
    "\<forall>n. dv_rand demo_denv n \<noteq> di_id demo_dir"
    by (auto simp: demo_denv_def)
  have "dv_storage demo_denv = local_storage demo_sha3 (\<lambda>_. None)" "0 < dv_block_size demo_denv" "sx_read demo_source = script_read"
    by (simp_all add: demo_denv_def demo_source_def)
  from edit_is_stored [OF this(1) demo_denv_ok this(2,3) pre(1) refl pre(2) demo_coherent _ _ _ pre(5,3,4), where name = "''f''" and new = "Some (Regular 420 5 0 UNKNOWN_HASH)"
      and test = "\<lambda>_. Inr ()" and ps = "[]" and x = "Some [Chunk ''hel'', Chunk ''lo'']"]
  show ?thesis by (auto simp: files_typed_def subdir_of_def)
qed

text \<open>C3. A refresh that succeeds has not gone back behind the version and length recorded for the directory, compared as the unsigned
  64-bit numbers they are, and records what it found.\<close>

theorem refresh_no_rollback:
  assumes "refresh env d w c = Some (w1, c1, Inr ())" "ct_synth c = None"
  shows "\<exists>s1 v data. st_getdir (dv_storage env) (dw_st w) (di_id d) = (s1, Inr (Some (v, data))) \<and>
    decrypt_dir_ver (dv_ci env) (di_id d) v (dv_key env) = Some (ct_version c1) \<and> ct_length c1 = of_nat (length data) \<and>
    (\<forall>lv ll. map_of (dw_db w) (di_id d) = Some (lv, ll) \<longrightarrow>
       word_of_int lv < ct_version c1 \<or> word_of_int lv = ct_version c1 \<and> word_of_int ll \<le> (of_nat (length data) :: 64 word)) \<and>
    map_of (dw_db w1) (di_id d) = Some (sint (ct_version c1), int (unat (ct_length c1)))"
proof -
  from assms obtain s1 v data ver where g: "st_getdir (dv_storage env) (dw_st w) (di_id d) = (s1, Inr (Some (v, data)))"
    and dv: "decrypt_dir_ver (dv_ci env) (di_id d) v (dv_key env) = Some ver"
    and ck: "check_latest d ver (length data) (map_of (dw_db w) (di_id d)) = Inr ()"
    and f: "ct_version c1 = ver" "ct_length c1 = of_nat (length data)"
    and w1: "dw_db w1 = AList.update (di_id d) (sint (ct_version c1), int (unat (ct_length c1))) (dw_db w)"
    by (auto simp: refresh_def save_latest_dir_ver_def cm_Inr split: option.split_asm dest!: parse_dir_frame)
  from ck f have "word_of_int lv < ct_version c1 \<or> word_of_int lv = ct_version c1 \<and> word_of_int ll \<le> (of_nat (length data) :: 64 word)"
    if "map_of (dw_db w) (di_id d) = Some (lv, ll)" for lv ll
    using that by (auto simp: check_latest_def Let_def split: if_split_asm)
  with g dv f w1 show ?thesis by (auto simp: update_conv')
qed

theorem refresh_no_rollback_witness:
  "\<exists>w1 c1. refresh demo_denv demo_dir (demo_dworld\<lparr>dw_db := [(di_id demo_dir, 1, 100)]\<rparr>) default_content = Some (w1, c1, Inr ()) \<and>
     map_of (dw_db w1) (di_id demo_dir) = Some (1, 112)"
proof -
  let ?w = "demo_dworld\<lparr>dw_db := [(di_id demo_dir, 1, 100)]\<rparr>"
  have st: "dv_storage demo_denv = local_storage demo_sha3 (\<lambda>_. None)" "dv_faults demo_denv n = None" for n by (simp_all add: demo_denv_def)
  have v: "decrypt_dir_ver (dv_ci demo_denv) (di_id demo_dir) (demo_ver 1) (dv_key demo_denv) = Some 1"
    using encrypt_everyone [OF demo_denv_ok, of "di_id demo_dir" 1] demo_version by auto
  have "\<exists>s1. getdir_loop demo_sha3 (\<lambda>_. None) (Suc n) (di_id demo_dir) (dw_st ?w) = (s1, Inr (Some (demo_ver 1, demo_data)))" for n
    by (simp add: ls_bind_def sql_step_def io_step_def demo_dworld_def ls_open_def demo_ver_def demo_length U32_MAX_def)
  then obtain s1 where g: "st_getdir (dv_storage demo_denv) (dw_st ?w) (di_id demo_dir) = (s1, Inr (Some (demo_ver 1, demo_data)))"
    unfolding st local_storage_def storage.simps getdir_unroll by blast
  from demo_coherent obtain c0 where c0: "dir_repr demo_denv (\<lambda>_ _ _ x. x) demo_dir c0 demo_stored" "ct_version c0 = 1"
    unfolding coherent_def by blast
  have l: "length demo_data < 2 ^ 32" by (simp add: demo_length)
  let ?w2 = "?w\<lparr>dw_st := s1, dw_count := dw_count ?w + 1\<rparr>"
  from parse_repr [OF demo_denv_ok c0(1) [unfolded demo_stored_def] l, of ?w2 "default_content :: unit dir_content"] c0(2) obtain c1 where
    pd: "parse_dir demo_denv demo_dir (demo_ver 1) demo_data 1 ?w2 (default_content :: unit dir_content) = Some (?w2, default_content, Inr c1)" "ct_version c1 = 1" by auto
  have ck: "check_latest demo_dir 1 112 (Some (1, 100)) = Inr ()" by (simp add: check_latest_def)
  have "\<exists>w1 c1. refresh demo_denv demo_dir ?w default_content = Some (w1, c1, Inr ())"
    using g v pd(1) ck by (auto simp: refresh_def save_latest_dir_ver_def cm_Inr st demo_length)
  then obtain w1 c2 where r: "refresh demo_denv demo_dir ?w default_content = Some (w1, c2, Inr ())" by blast
  from refresh_no_rollback [OF this] g v have "ct_version c2 = 1" "ct_length c2 = 112"
    "map_of (dw_db w1) (di_id demo_dir) = Some (sint (ct_version c2), int (unat (ct_length c2)))"
    by (auto simp: default_content_def demo_length)
  with r show ?thesis by auto
qed

text \<open>C4. A removal that finds no directory to remove, on a directory whose content has not been read, overwrites the recorded
  version and length with zeros: an older version of the directory is accepted afterwards.\<close>

theorem remove_nothing_forgets:
  assumes "remove_subdir env d test w c = Some (w1, c1, Inr False)" "ct_version c = 0" "ct_length c = 0"
  shows "map_of (dw_db w1) (di_id d) = Some (0, 0)"
proof -
  from assms(1) obtain w2 c2 where t: "dir_do_tx0 env (remove_body env d test) w c = Some (w2, c2, Inr None)"
    and s: "save_latest_dir_ver env d w2 c2 = Some (w1, c1, Inr ())"
    by (auto simp: remove_subdir_def cm_Inr split: option.split_asm)
  from t have "c2 = c \<or> c2 = default_content" by (auto simp: dir_do_tx0_def dir_do_tx_def dest!: tx_loop_None)
  with assms(2,3) have "ct_version c2 = 0" "ct_length c2 = 0" by (auto simp: default_content_def)
  with s show ?thesis
    by (auto simp: save_latest_dir_ver_def cm_Inr update_conv')
qed

theorem remove_nothing_forgets_witness:
  "\<exists>w1 c1. remove_subdir demo_denv demo_dir (\<lambda>_ _ _. Inr True) (demo_dworld\<lparr>dw_db := [(di_id demo_dir, 7, 300)]\<rparr>)
      (default_content\<lparr>ct_synth := Some (''d'', 0)\<rparr>) = Some (w1, c1, Inr False) \<and> map_of (dw_db w1) (di_id demo_dir) = Some (0, 0)"
proof -
  let ?w = "demo_dworld\<lparr>dw_db := [(di_id demo_dir, 7, 300)]\<rparr>" and ?c = "default_content\<lparr>ct_synth := Some (''d'', 0)\<rparr> :: unit dir_content"
  have b: "remove_body demo_denv demo_dir (\<lambda>_ _ _. Inr True) tx w ?c = Some (w, ?c, Inr None)" for tx and w :: "local_storage dir_world"
    by (simp add: remove_body_def refresh_if_needed_def refresh_def cm_bind_def cm_get_def cm_ok_def cm_res_def default_content_def ct_is_valid_def demo_denv_def)
  have st: "dv_storage demo_denv = local_storage demo_sha3 (\<lambda>_. None)" "dv_faults demo_denv n = None" for n by (simp_all add: demo_denv_def)
  have "\<exists>w2. dir_do_tx0 demo_denv (remove_body demo_denv demo_dir (\<lambda>_ _ _. Inr True)) ?w ?c = Some (w2, ?c, Inr None)"
    unfolding dir_do_tx0_def dir_do_tx_def
    by (simp add: eval_nat_numeral Let_def cm_fst_def b st local_storage_def start_tx_def abort_def) (simp add: demo_dworld_def ls_open_def)
  then obtain w2 where "dir_do_tx0 demo_denv (remove_body demo_denv demo_dir (\<lambda>_ _ _. Inr True)) ?w ?c = Some (w2, ?c, Inr None)" by blast
  then have "\<exists>w1 c1. remove_subdir demo_denv demo_dir (\<lambda>_ _ _. Inr True) ?w ?c = Some (w1, c1, Inr False)"
    by (auto simp: remove_subdir_def save_latest_dir_ver_def cm_Inr st)
  then show ?thesis using remove_nothing_forgets [of demo_denv demo_dir "\<lambda>_ _ _. Inr True" ?w ?c] by (fastforce simp: default_content_def)
qed

end
