(* ===== verification/Spec2Isabelle.thy ===== *)
theory Spec2Isabelle
  imports Rules_Parse Work_Stack Dry_Run Server_Dir_Laws
begin

text \<open>
  \<^bold>\<open>Ensync\<close> synchronises a client directory tree with a server, using a third, local
  \<^emph>\<open>ancestor\<close> replica that records the last synchronised state. This development
  models the program's own logic and proves what makes it correct.

  \<^bold>\<open>The parts and how they interact.\<close> The rules file is parsed into states of rules
  (\<open>rules/engine.rs\<close>) which give every file a sync mode (\<open>rules/defs.rs\<close>). For every
  name of a directory the decision table (\<open>reconcile/compute.rs\<close>) picks a reconciliation from
  the three versions and the mode, the mutation stage (\<open>reconcile/mutate.rs\<close>) carries it out on the
  three replicas, and the walk (\<open>reconcile/tree_walk.rs\<close>) does this for the whole tree, with tasks on
  a work stack (\<open>work_stack.rs\<close>) and the completion of a directory parked in a map of
  unqueued tasks (\<open>reconcile/context.rs\<close>). A replica is anything that implements the trait of
  \<open>replica.rs\<close>; the ancestor (\<open>ancestor/replica.rs\<close> over \<open>ancestor/dao.rs\<close>) is a SQLite
  database, and \<open>memory_replica.rs\<close> is the replica the reconciler is tested with.

  \<^bold>\<open>Theories.\<close>
  \<^item> \<open>Ensync_Prelude\<close>: type names, result binding, shared list lemmas. \<open>Std_Text\<close>: the parts of
    Rust's text library the code uses (decimal and octal output and input, UTF-8, lossy conversion).
  \<^item> \<open>Defs\<close> (\<open>defs.rs\<close>): file data and its comparisons. \<open>Errors_Log\<close> (\<open>errors.rs\<close>, \<open>log.rs\<close>):
    error kinds, fatality, log entries.
  \<^item> \<open>Rules_Defs\<close> (\<open>rules/defs.rs\<close>): modes; printing and parsing are inverse.
  \<^item> \<open>Rules_Engine\<close>, \<open>Rules_Parse\<close> (\<open>rules/engine.rs\<close>): the interpreter agrees with the
    documented semantics and never panics on what the parser accepts; the parser is total.
  \<^item> \<open>Reconcile_Compute\<close> (\<open>reconcile/compute.rs\<close>): the decision loses nothing without force, stays within the
    mode, agrees with the tables of the documentation; the alternate name is fresh.
  \<^item> \<open>Work_Stack\<close> (\<open>work_stack.rs\<close>): threads as program counters over the shared state; none
    returns early, no wake-up is lost.
  \<^item> \<open>Replica\<close> (\<open>replica.rs\<close>, \<open>interrupt.rs\<close>): the trait as a record of operations, its contract as the
    locales \<open>replica_contract\<close> and \<open>ancestor_contract\<close>; the watch handle with the signal handler.
  \<^item> \<open>Ancestor_Dao\<close>, \<open>Ancestor_Replica\<close>: the statements over an explicit database with faults at every
    statement, transactions included, and the replica over them, which interprets \<open>ancestor_contract\<close>.
  \<^item> \<open>Reconcile_Context\<close>, \<open>Reconcile_Mutate\<close>, \<open>Tree_Walk\<close>: the reconciler; \<open>Memory_Replica\<close>: the
    in-memory replica, on which the witnesses run it.

  \<^bold>\<open>Modelling choices.\<close> A Rust \<open>Result\<close> is the sum type with \<open>Inl\<close> the error; a panic (an
  \<open>unwrap\<close> of nothing, an index out of range, \<open>expect\<close>, arithmetic overflow where it is checked)
  is \<open>None\<close> of an option around it, so that the absence of panics is something to prove. Replicas are
  records of functions on a state that is threaded; the reconciler's world is a record of
  the three states, the log and the number of polls of the interrupt flag, whose answers are a
  parameter. What SQLite, regular expressions and the file system may do wrong is a parameter too:
  a fault for every statement, an arbitrary matching function. Machine integers are words where
  their width matters. Loops without a structural measure are \<open>partial_function (option)\<close> or carry fuel
  with a lemma that the fuel is enough.

  \<^bold>\<open>Not modelled.\<close> The command line and \<open>main.rs\<close> (argument parsing and output), the logger's
  texts, the POSIX replica and the server side.
\<close>

end
